(* ===== verification/Prelude.thy ===== *)
theory Prelude
  imports Main "HOL-Library.Word" "HOL-Library.Multiset"
begin

unbundle bit_operations_syntax

text \<open>
  What every component of the model shares.

  \<^item> The outcome of a Rust call: \<open>result\<close> has a third constructor \<open>Panic\<close> beside
    \<open>Ok\<close> and \<open>Err\<close>, so that every \<open>unwrap\<close>, \<open>expect\<close>, \<open>assert!\<close>, failing index and
    trapping division of the source is a value of the model. \<open>and_then\<close> is the
    \<open>?\<close> operator, \<open>try_collect\<close> is \<open>collect::<Result<Vec<_>, _>>()\<close>.
  \<^item> The machine integers. \<open>i64\<close> and \<open>u64\<close> are both \<open>64 word\<close>: a signed value is read
    with \<open>sint\<close>, an unsigned one with \<open>uint\<close> or \<open>unat\<close>. Addition, subtraction and
    multiplication wrap, which is what the release profile does (no profile of
    Cargo.toml sets \<open>overflow-checks\<close>); division is written out with its panics.
  \<^item> The parts of the standard library on strings that the source uses: integer
    printing and parsing, \<open>split\<close>, \<open>join\<close>, \<open>trim\<close>. A Rust string is its UTF-8 byte
    sequence, one \<open>char\<close> per byte.
  \<^item> Little-endian bytes of a word, and generic facts on lists.
\<close>

named_theorems result_simps \<open>equations of the result type\<close>

section \<open>Results\<close>

datatype ('e, 'a) result = Ok 'a | Err 'e | Panic

fun and_then :: "('e, 'a) result \<Rightarrow> ('a \<Rightarrow> ('e, 'b) result) \<Rightarrow> ('e, 'b) result" where
  "and_then (Ok a) f = f a"
| "and_then (Err e) f = Err e"
| "and_then Panic f = Panic"

fun map_ok :: "('a \<Rightarrow> 'b) \<Rightarrow> ('e, 'a) result \<Rightarrow> ('e, 'b) result" where
  "map_ok f (Ok a) = Ok (f a)"
| "map_ok f (Err e) = Err e"
| "map_ok f Panic = Panic"

fun map_err :: "('e \<Rightarrow> 'f) \<Rightarrow> ('e, 'a) result \<Rightarrow> ('f, 'a) result" where
  "map_err f (Ok a) = Ok a"
| "map_err f (Err e) = Err (f e)"
| "map_err f Panic = Panic"

fun is_ok :: "('e, 'a) result \<Rightarrow> bool" where
  "is_ok (Ok _) = True"
| "is_ok _ = False"

fun ok_or :: "'e \<Rightarrow> 'a option \<Rightarrow> ('e, 'a) result" where
  "ok_or e (Some a) = Ok a"
| "ok_or e None = Err e"

fun unwrap :: "'a option \<Rightarrow> ('e, 'a) result" where
  "unwrap (Some a) = Ok a"
| "unwrap None = Panic"

text \<open>\<open>safe P r\<close>: the call does not panic, and what it returns satisfies \<open>P\<close>.\<close>

fun safe :: "('a \<Rightarrow> bool) \<Rightarrow> ('e, 'a) result \<Rightarrow> bool" where
  "safe P (Ok a) = P a"
| "safe P (Err e) = True"
| "safe P Panic = False"

fun try_collect :: "('e, 'a) result list \<Rightarrow> ('e, 'a list) result" where
  "try_collect [] = Ok []"
| "try_collect (r # rs) = and_then r (\<lambda>a. and_then (try_collect rs) (\<lambda>as. Ok (a # as)))"

lemma and_then_eq_Ok_iff [result_simps]:
  "and_then r f = Ok b \<longleftrightarrow> (\<exists>a. r = Ok a \<and> f a = Ok b)"
  by (cases r) auto

lemma and_then_eq_Err_iff [result_simps]:
  "and_then r f = Err e \<longleftrightarrow> r = Err e \<or> (\<exists>a. r = Ok a \<and> f a = Err e)"
  by (cases r) auto

lemma and_then_eq_Panic_iff [result_simps]:
  "and_then r f = Panic \<longleftrightarrow> r = Panic \<or> (\<exists>a. r = Ok a \<and> f a = Panic)"
  by (cases r) auto

lemma map_ok_eq_Ok_iff [result_simps]: "map_ok f r = Ok b \<longleftrightarrow> (\<exists>a. r = Ok a \<and> b = f a)"
  by (cases r) auto

lemma map_ok_eq_Err_iff [result_simps]: "map_ok f r = Err e \<longleftrightarrow> r = Err e"
  by (cases r) auto

lemma map_ok_eq_Panic_iff [result_simps]: "map_ok f r = Panic \<longleftrightarrow> r = Panic"
  by (cases r) auto

lemma ok_or_eq_Ok_iff [result_simps]: "ok_or e x = Ok a \<longleftrightarrow> x = Some a"
  by (cases x) auto

lemma unwrap_eq_Ok_iff [result_simps]: "unwrap x = Ok a \<longleftrightarrow> x = Some a"
  by (cases x) auto

lemma and_then_Ok [simp]: "and_then r Ok = r"
  by (cases r) auto

lemma map_ok_conv_and_then: "map_ok f r = and_then r (\<lambda>a. Ok (f a))"
  by (cases r) auto

lemma and_then_assoc: "and_then (and_then r f) g = and_then r (\<lambda>a. and_then (f a) g)"
  by (cases r) auto

lemma is_ok_iff: "is_ok r \<longleftrightarrow> (\<exists>a. r = Ok a)"
  by (cases r) auto

lemma and_then_cong [fundef_cong]:
  assumes "r = r'" and "\<And>a. r' = Ok a \<Longrightarrow> f a = f' a"
  shows "and_then r f = and_then r' f'"
  using assms by (cases r') auto

named_theorems safe_intros \<open>introduction rules for safe\<close>

lemma safe_and_then [safe_intros]:
  "r \<noteq> Panic \<Longrightarrow> (\<And>a. r = Ok a \<Longrightarrow> safe P (f a)) \<Longrightarrow> safe P (and_then r f)"
  by (cases r) auto

lemma safe_bind: "safe Q r \<Longrightarrow> (\<And>a. Q a \<Longrightarrow> safe P (f a)) \<Longrightarrow> safe P (and_then r f)"
  by (cases r) auto

lemma safe_if [safe_intros]:
  "(c \<Longrightarrow> safe P a) \<Longrightarrow> (\<not> c \<Longrightarrow> safe P b) \<Longrightarrow> safe P (if c then a else b)"
  by simp

lemma safe_case_prod [safe_intros]:
  "(\<And>a b. p = (a, b) \<Longrightarrow> safe P (f a b)) \<Longrightarrow> safe P (case p of (a, b) \<Rightarrow> f a b)"
  by (cases p) simp

lemma safe_weaken: "safe Q r \<Longrightarrow> (\<And>a. Q a \<Longrightarrow> P a) \<Longrightarrow> safe P r"
  by (cases r) auto

lemma safe_map_err [simp]: "safe P (map_err f r) = safe P r"
  by (cases r) auto

lemma safe_map_ok [simp]: "safe P (map_ok f r) = safe (\<lambda>a. P (f a)) r"
  by (cases r) auto

lemma safe_True: "safe (\<lambda>_. True) r \<longleftrightarrow> r \<noteq> Panic"
  by (cases r) auto

lemma safe_iff: "safe P r \<longleftrightarrow> r \<noteq> Panic \<and> (\<forall>a. r = Ok a \<longrightarrow> P a)"
  by (cases r) auto

lemma try_collect_map_Ok [simp]: "try_collect (map Ok xs) = Ok xs"
  by (induction xs) auto

lemma try_collect_eq_Ok_iff: "try_collect rs = Ok xs \<longleftrightarrow> rs = map Ok xs"
proof (induction rs arbitrary: xs)
  case Nil
  then show ?case by auto
next
  case (Cons r rs)
  then show ?case by (cases r; cases xs) (auto simp: result_simps)
qed

lemma try_collect_append:
  "try_collect (rs @ ss) = and_then (try_collect rs) (\<lambda>xs. and_then (try_collect ss) (\<lambda>ys. Ok (xs @ ys)))"
  by (induction rs) (auto simp: and_then_assoc)

section \<open>Machine integers\<close>

type_synonym byte = "8 word"
type_synonym u32 = "32 word"
type_synonym i32 = "32 word"
type_synonym u64 = "64 word"
type_synonym i64 = "64 word"
type_synonym u128 = "128 word"

text \<open>The truncating division and remainder of Rust on \<open>i64\<close>, which panic on a zero divisor
  and on the one overflowing quotient, in every profile.\<close>

definition trunc_div :: "int \<Rightarrow> int \<Rightarrow> int" where
  "trunc_div a b = sgn a * sgn b * (\<bar>a\<bar> div \<bar>b\<bar>)"

definition trunc_mod :: "int \<Rightarrow> int \<Rightarrow> int" where
  "trunc_mod a b = a - b * trunc_div a b"

definition i64_min :: int where "i64_min = - (2 ^ 63)"
definition i64_max :: int where "i64_max = 2 ^ 63 - 1"

definition in_i64 :: "int \<Rightarrow> bool" where
  "in_i64 i \<longleftrightarrow> i64_min \<le> i \<and> i \<le> i64_max"

definition i64_div :: "i64 \<Rightarrow> i64 \<Rightarrow> ('e, i64) result" where
  "i64_div a b = (if b = 0 \<or> (sint a = i64_min \<and> sint b = -1) then Panic
     else Ok (word_of_int (trunc_div (sint a) (sint b))))"

definition i64_rem :: "i64 \<Rightarrow> i64 \<Rightarrow> ('e, i64) result" where
  "i64_rem a b = (if b = 0 \<or> (sint a = i64_min \<and> sint b = -1) then Panic
     else Ok (word_of_int (trunc_mod (sint a) (sint b))))"

lemma sint_in_i64: "in_i64 (sint (a :: 64 word))"
  using sint_range_size [of a] by (simp add: in_i64_def i64_min_def i64_max_def word_size)

lemma sint_eq_0_iff: "sint (w :: 'a::len word) = 0 \<longleftrightarrow> w = 0"
  using signed_word_eqI [of w 0] by auto

lemma unat_u64: "unat (w :: 64 word) < 2 ^ 64"
  by (rule order.strict_trans2 [OF unsigned_less]) simp

lemma sint_of_int_in_i64: "in_i64 i \<Longrightarrow> sint (word_of_int i :: 64 word) = i"
  by (simp add: in_i64_def i64_min_def i64_max_def signed_of_int signed_take_bit_int_eq_self)

lemma trunc_div_mod: "trunc_div a b * b + trunc_mod a b = a"
  by (simp add: trunc_mod_def)

lemma trunc_mod_eq: "b \<noteq> 0 \<Longrightarrow> trunc_mod a b = sgn a * (\<bar>a\<bar> mod \<bar>b\<bar>)"
proof -
  assume "b \<noteq> 0"
  have "a = sgn a * \<bar>a\<bar>" by (simp add: sgn_mult_abs)
  also have "\<dots> = sgn a * (\<bar>b\<bar> * (\<bar>a\<bar> div \<bar>b\<bar>) + \<bar>a\<bar> mod \<bar>b\<bar>)" by simp
  also have "\<dots> = b * (sgn a * sgn b * (\<bar>a\<bar> div \<bar>b\<bar>)) + sgn a * (\<bar>a\<bar> mod \<bar>b\<bar>)"
    using \<open>b \<noteq> 0\<close> by (simp add: algebra_simps abs_sgn)
  finally show ?thesis by (simp add: trunc_mod_def trunc_div_def)
qed

lemma trunc_mod_abs_less: "b \<noteq> 0 \<Longrightarrow> \<bar>trunc_mod a b\<bar> < \<bar>b\<bar>"
  by (simp add: trunc_mod_eq abs_mult)

lemma trunc_mod_nonneg: "0 \<le> a \<Longrightarrow> 0 \<le> trunc_mod a b"
  by (cases "b = 0") (simp_all add: trunc_mod_eq sgn_if trunc_mod_def [of a 0])

lemma trunc_mod_nonpos: "a \<le> 0 \<Longrightarrow> trunc_mod a b \<le> 0"
  by (cases "b = 0") (simp_all add: trunc_mod_eq sgn_if trunc_mod_def [of a 0])

section \<open>Little-endian bytes\<close>

definition le_bytes :: "nat \<Rightarrow> 'a::len word \<Rightarrow> byte list" where
  "le_bytes n w = map (\<lambda>i. ucast (drop_bit (8 * i) w)) [0 ..< n]"

lemma length_le_bytes [simp]: "length (le_bytes n w) = n"
  by (simp add: le_bytes_def)

lemma le_bytes_inject:
  assumes "LENGTH('a) \<le> 8 * n" and "le_bytes n (v :: 'a::len word) = le_bytes n w"
  shows "v = w"
proof (rule bit_word_eqI)
  fix j assume "j < LENGTH('a)"
  let ?i = "j div 8"
  have i: "?i < n" using assms(1) \<open>j < LENGTH('a)\<close> by linarith
  with assms(2) have "(ucast (drop_bit (8 * ?i) v) :: byte) = ucast (drop_bit (8 * ?i) w)"
    by (auto simp: le_bytes_def)
  then have "bit (ucast (drop_bit (8 * ?i) v) :: byte) (j mod 8)
      = bit (ucast (drop_bit (8 * ?i) w) :: byte) (j mod 8)"
    by simp
  then show "bit v j = bit w j"
    by (simp add: bit_simps)
qed

lemma same_length_prefix:
  "length xs = length ys \<Longrightarrow> xs @ us = ys @ vs \<Longrightarrow> xs = ys \<and> us = vs"
  by simp

section \<open>Strings\<close>

definition is_digit :: "char \<Rightarrow> bool" where
  "is_digit c \<longleftrightarrow> 48 \<le> (of_char c :: nat) \<and> (of_char c :: nat) \<le> 57"

fun show_nat :: "nat \<Rightarrow> string" where
  "show_nat n = (if n < 10 then [char_of (48 + n)]
     else show_nat (n div 10) @ [char_of (48 + n mod 10)])"

declare show_nat.simps [simp del]

definition show_int :: "int \<Rightarrow> string" where
  "show_int i = (if i < 0 then CHR ''-'' # show_nat (nat (- i)) else show_nat (nat i))"

fun parse_digits :: "nat \<Rightarrow> string \<Rightarrow> nat option" where
  "parse_digits acc [] = Some acc"
| "parse_digits acc (c # cs) =
     (if is_digit c then parse_digits (acc * 10 + (of_char c - 48)) cs else None)"

text \<open>\<open>str::parse\<close> for an unsigned type of \<open>w\<close> bits and for a signed one: an optional sign
  (\<open>-\<close> only for signed types), at least one digit, and the value in range.\<close>

fun strip_plus :: "string \<Rightarrow> string" where
  "strip_plus [] = []"
| "strip_plus (c # cs) = (if c = CHR ''+'' then cs else c # cs)"

definition parse_unsigned :: "nat \<Rightarrow> string \<Rightarrow> nat option" where
  "parse_unsigned w s = (let s' = strip_plus s in
     if s' = [] then None
     else case parse_digits 0 s' of None \<Rightarrow> None | Some n \<Rightarrow> if n < 2 ^ w then Some n else None)"

fun parse_signed :: "nat \<Rightarrow> string \<Rightarrow> int option" where
  "parse_signed w [] = None"
| "parse_signed w (c # cs) =
     (let neg = (c = CHR ''-''); ds = (if neg then cs else strip_plus (c # cs)) in
      if ds = [] then None
      else case parse_digits 0 ds of
          None \<Rightarrow> None
        | Some n \<Rightarrow> let i = (if neg then - int n else int n)
                   in if - (2 ^ (w - 1)) \<le> i \<and> i < 2 ^ (w - 1) then Some i else None)"

fun split_on :: "char \<Rightarrow> string \<Rightarrow> string list" where
  "split_on s [] = [[]]"
| "split_on s (c # cs) =
     (if c = s then [] # split_on s cs
      else case split_on s cs of [] \<Rightarrow> [[c]] | p # ps \<Rightarrow> (c # p) # ps)"

fun join_with :: "string \<Rightarrow> string list \<Rightarrow> string" where
  "join_with sep [] = []"
| "join_with sep [x] = x"
| "join_with sep (x # y # zs) = x @ sep @ join_with sep (y # zs)"

lemma show_nat_nonempty [simp]: "show_nat n \<noteq> []"
  by (subst show_nat.simps) simp

lemma of_char_digit: "d < 10 \<Longrightarrow> of_char (char_of (48 + d) :: char) = (48 + d :: nat)"
  by simp

lemma show_nat_digits: "c \<in> set (show_nat n) \<Longrightarrow> is_digit c"
proof (induction n rule: show_nat.induct)
  case (1 n)
  then show ?case
    by (subst (asm) (2) show_nat.simps) (auto simp: is_digit_def of_char_digit split: if_splits)
qed

lemma parse_digits_append:
  "parse_digits acc (xs @ ys) = (case parse_digits acc xs of None \<Rightarrow> None | Some m \<Rightarrow> parse_digits m ys)"
  by (induction xs arbitrary: acc) auto

lemma parse_digits_show: "parse_digits 0 (show_nat n) = Some n"
proof (induction n rule: show_nat.induct)
  case (1 n)
  show ?case
  proof (cases "n < 10")
    case True
    then show ?thesis by (subst show_nat.simps) (simp add: is_digit_def)
  next
    case False
    with 1 show ?thesis
      by (subst show_nat.simps) (simp add: is_digit_def parse_digits_append)
  qed
qed

lemma strip_plus_digits: "(\<forall>c \<in> set s. is_digit c) \<Longrightarrow> strip_plus s = s"
  by (cases s) (auto simp: is_digit_def)

lemma parse_unsigned_show: "n < 2 ^ w \<Longrightarrow> parse_unsigned w (show_nat n) = Some n"
  by (simp add: parse_unsigned_def Let_def strip_plus_digits show_nat_digits parse_digits_show)

lemma parse_unsigned_range: "parse_unsigned w s = Some n \<Longrightarrow> n < 2 ^ w"
  by (auto simp: parse_unsigned_def Let_def split: if_splits option.splits)

lemma parse_signed_show:
  assumes "- (2 ^ (w - 1)) \<le> i" and "i < 2 ^ (w - 1)"
  shows "parse_signed w (show_int i) = Some i"
proof (cases "i < 0")
  case True
  with assms show ?thesis
    by (simp add: show_int_def Let_def parse_digits_show)
next
  case False
  then obtain c cs where s: "show_nat (nat i) = c # cs" by (cases "show_nat (nat i)") auto
  then have "is_digit c" using show_nat_digits [of c "nat i"] by simp
  then have "c \<noteq> CHR ''-''" by (auto simp: is_digit_def)
  moreover have "strip_plus (c # cs) = c # cs"
    using show_nat_digits [of _ "nat i"] s by (metis strip_plus_digits)
  ultimately show ?thesis
    using False assms parse_digits_show [of "nat i"] s by (simp add: show_int_def Let_def)
qed

lemma split_on_nonempty [simp]: "split_on s cs \<noteq> []"
  by (induction cs) (auto split: list.splits)

lemma split_on_no_sep: "s \<notin> set x \<Longrightarrow> split_on s x = [x]"
  by (induction x) auto

lemma split_on_append: "s \<notin> set x \<Longrightarrow> split_on s (x @ s # ys) = x # split_on s ys"
  by (induction x) auto

lemma split_on_join:
  "\<forall>x \<in> set xs. s \<notin> set x \<Longrightarrow> xs \<noteq> [] \<Longrightarrow> split_on s (join_with [s] xs) = xs"
  by (induction "[s]" xs rule: join_with.induct) (auto simp: split_on_no_sep split_on_append)

lemma join_split_on: "join_with [s] (split_on s cs) = cs"
proof (induction cs)
  case Nil
  then show ?case by simp
next
  case (Cons c cs)
  obtain p ps where "split_on s cs = p # ps" by (cases "split_on s cs") auto
  with Cons show ?case by (cases ps) auto
qed

text \<open>\<open>str::trim\<close> removes the characters with the Unicode property White\_Space from both
  ends; \<open>white_spaces\<close> lists their UTF-8 encodings.\<close>

definition white_spaces :: "string list" where
  "white_spaces =
     map (\<lambda>n. [char_of (n :: nat)]) [9, 10, 11, 12, 13, 32]
     @ map (map (\<lambda>n. char_of (n :: nat)))
       ([[0xC2, 0x85], [0xC2, 0xA0], [0xE1, 0x9A, 0x80]]
        @ map (\<lambda>k. [0xE2, 0x80, 0x80 + k]) [0 ..< 11]
        @ [[0xE2, 0x80, 0xA8], [0xE2, 0x80, 0xA9], [0xE2, 0x80, 0xAF], [0xE2, 0x81, 0x9F],
           [0xE3, 0x80, 0x80]])"

fun strip_prefix :: "'a list \<Rightarrow> 'a list \<Rightarrow> 'a list option" where
  "strip_prefix [] s = Some s"
| "strip_prefix (p # ps) [] = None"
| "strip_prefix (p # ps) (c # cs) = (if p = c then strip_prefix ps cs else None)"

fun first_stripped :: "'a list list \<Rightarrow> 'a list \<Rightarrow> 'a list option" where
  "first_stripped [] s = None"
| "first_stripped (p # ps) s =
     (case strip_prefix p s of Some t \<Rightarrow> Some t | None \<Rightarrow> first_stripped ps s)"

lemma strip_prefix_eq: "strip_prefix p s = Some t \<longleftrightarrow> s = p @ t"
  by (induction p s rule: strip_prefix.induct) auto

lemma first_stripped_shorter:
  "first_stripped ps s = Some t \<Longrightarrow> [] \<notin> set ps \<Longrightarrow> length t < length s"
  by (induction ps) (auto simp: strip_prefix_eq split: option.splits)

fun trim_loop :: "nat \<Rightarrow> string list \<Rightarrow> string \<Rightarrow> string" where
  "trim_loop 0 ws s = s"
| "trim_loop (Suc n) ws s =
     (case first_stripped ws s of None \<Rightarrow> s | Some t \<Rightarrow> trim_loop n ws t)"

definition trim_start :: "string \<Rightarrow> string" where
  "trim_start s = trim_loop (length s) white_spaces s"

definition trim_end :: "string \<Rightarrow> string" where
  "trim_end s = rev (trim_loop (length s) (map rev white_spaces) (rev s))"

definition trim :: "string \<Rightarrow> string" where
  "trim s = trim_end (trim_start s)"

text \<open>The loop has enough fuel: what it returns starts with no white space.\<close>

lemma trim_loop_done:
  "[] \<notin> set ws \<Longrightarrow> length s \<le> n \<Longrightarrow> first_stripped ws (trim_loop n ws s) = None"
proof (induction n arbitrary: s)
  case 0
  then show ?case by (induction ws) (auto simp: strip_prefix_eq split: option.splits)
next
  case (Suc n)
  show ?case
  proof (cases "first_stripped ws s")
    case (Some t)
    with Suc.prems have "length t \<le> n" using first_stripped_shorter by fastforce
    with Suc Some show ?thesis by simp
  qed simp
qed

text \<open>Text that begins and ends with a visible ASCII character is not trimmed.\<close>

definition ascii_graph :: "char \<Rightarrow> bool" where
  "ascii_graph c \<longleftrightarrow> 33 \<le> (of_char c :: nat) \<and> (of_char c :: nat) \<le> 126"

lemma white_spaces_not_graph:
  "\<forall>p \<in> set white_spaces. p \<noteq> [] \<and> \<not> ascii_graph (hd p) \<and> \<not> ascii_graph (last p)"
  by code_simp

lemma first_stripped_other: "\<forall>p \<in> set ps. p \<noteq> [] \<and> hd p \<noteq> c \<Longrightarrow> first_stripped ps (c # s) = None"
  by (induction ps) (auto simp: neq_Nil_conv)

lemma trim_start_id:
  assumes "s \<noteq> []" and "ascii_graph (hd s)"
  shows "trim_start s = s"
proof -
  obtain c t where s: "s = c # t" using assms(1) by (cases s) auto
  have "first_stripped white_spaces (c # t) = None"
    using white_spaces_not_graph assms(2) s by (intro first_stripped_other) auto
  then show ?thesis by (simp add: s trim_start_def)
qed

lemma trim_end_id:
  assumes "s \<noteq> []" and "ascii_graph (last s)"
  shows "trim_end s = s"
proof -
  obtain c t where s: "s = t @ [c]" using assms(1) by (cases s rule: rev_cases) auto
  have "first_stripped (map rev white_spaces) (c # rev t) = None"
    using white_spaces_not_graph assms(2) s by (intro first_stripped_other) (auto simp: hd_rev)
  then show ?thesis by (simp add: s trim_end_def)
qed

lemma trim_id: "s \<noteq> [] \<Longrightarrow> ascii_graph (hd s) \<Longrightarrow> ascii_graph (last s) \<Longrightarrow> trim s = s"
  by (simp add: trim_def trim_start_id trim_end_id)

lemma is_digit_graph: "is_digit c \<Longrightarrow> ascii_graph c"
  by (auto simp: is_digit_def ascii_graph_def)

definition to_ascii_lowercase :: "string \<Rightarrow> string" where
  "to_ascii_lowercase = map (\<lambda>c. let n = (of_char c :: nat) in
     if 65 \<le> n \<and> n \<le> 90 then char_of (n + 32) else c)"

section \<open>Lists\<close>

fun lex_cmp :: "('a \<Rightarrow> 'a \<Rightarrow> int) \<Rightarrow> 'a list \<Rightarrow> 'a list \<Rightarrow> int" where
  "lex_cmp c [] [] = 0"
| "lex_cmp c [] (y # ys) = -1"
| "lex_cmp c (x # xs) [] = 1"
| "lex_cmp c (x # xs) (y # ys) = (if c x y = 0 then lex_cmp c xs ys else c x y)"

definition nth_opt :: "'a list \<Rightarrow> nat \<Rightarrow> 'a option" where
  "nth_opt xs i = (if i < length xs then Some (xs ! i) else None)"

lemma nth_opt_Some_iff: "nth_opt xs i = Some x \<longleftrightarrow> i < length xs \<and> x = xs ! i"
  by (auto simp: nth_opt_def)

section \<open>Total comparisons\<close>

text \<open>The contract of \<open>Ord::cmp\<close>, with the three orderings as \<open>-1\<close>, \<open>0\<close>, \<open>1\<close> (only the
  sign is used). \<open>cmp_chain\<close> is transitivity in the form that lifts to sequences one element
  at a time.\<close>

definition cmp_chain :: "('a \<Rightarrow> 'a \<Rightarrow> int) \<Rightarrow> 'a \<Rightarrow> bool" where
  "cmp_chain cmp x \<longleftrightarrow> (\<forall>y z. cmp x y \<le> 0 \<and> cmp y z \<le> 0 \<longrightarrow>
     cmp x z \<le> 0 \<and> (cmp x z = 0 \<longrightarrow> cmp x y = 0 \<and> cmp y z = 0))"

lemma cmp_chainD:
  assumes "cmp_chain cmp x" and "cmp x y \<le> 0" and "cmp y z \<le> 0"
  shows "cmp x z \<le> 0" and "cmp x z = 0 \<Longrightarrow> cmp x y = 0 \<and> cmp y z = 0"
  using assms by (auto simp: cmp_chain_def)

lemma lex_cmp_refl_on: "\<forall>x \<in> set xs. cmp x x = 0 \<Longrightarrow> lex_cmp cmp xs xs = 0"
  by (induction xs) auto

lemma lex_cmp_antisym_on:
  "\<forall>x \<in> set xs. \<forall>y. cmp y x = - cmp x y \<Longrightarrow> lex_cmp cmp ys xs = - lex_cmp cmp xs ys"
  by (induction cmp xs ys rule: lex_cmp.induct) auto

lemma lex_cmp_chain_on: "\<forall>x \<in> set xs. cmp_chain cmp x \<Longrightarrow> cmp_chain (lex_cmp cmp) xs"
proof (induction xs)
  case Nil
  show ?case
    unfolding cmp_chain_def
  proof (intro allI)
    fix ys zs
    show "lex_cmp cmp [] ys \<le> 0 \<and> lex_cmp cmp ys zs \<le> 0 \<longrightarrow> lex_cmp cmp [] zs \<le> 0
        \<and> (lex_cmp cmp [] zs = 0 \<longrightarrow> lex_cmp cmp [] ys = 0 \<and> lex_cmp cmp ys zs = 0)"
      by (cases ys; cases zs) auto
  qed
next
  case (Cons x xs)
  show ?case
    unfolding cmp_chain_def
  proof (intro allI impI)
    fix yys zzs assume le: "lex_cmp cmp (x # xs) yys \<le> 0 \<and> lex_cmp cmp yys zzs \<le> 0"
    then obtain y ys where y: "yys = y # ys" by (cases yys) auto
    with le obtain z zs where z: "zzs = z # zs" by (cases zzs) auto
    have h: "cmp x y \<le> 0" "cmp y z \<le> 0" using le y z by (auto split: if_splits)
    have x: "cmp_chain cmp x" and xs: "cmp_chain (lex_cmp cmp) xs" using Cons by auto
    show "lex_cmp cmp (x # xs) zzs \<le> 0 \<and> (lex_cmp cmp (x # xs) zzs = 0 \<longrightarrow>
        lex_cmp cmp (x # xs) yys = 0 \<and> lex_cmp cmp yys zzs = 0)"
    proof (cases "cmp x z = 0")
      case True
      then have "cmp x y = 0" "cmp y z = 0" using cmp_chainD [OF x h] by auto
      with True le y z cmp_chainD [OF xs, of ys zs] show ?thesis by auto
    next
      case False
      with cmp_chainD(1) [OF x h] z show ?thesis by simp
    qed
  qed
qed

locale total_cmp =
  fixes cmp :: "'a \<Rightarrow> 'a \<Rightarrow> int"
  assumes cmp_refl: "cmp x x = 0"
    and cmp_antisym: "cmp y x = - cmp x y"
    and cmp_trans: "cmp x y \<le> 0 \<Longrightarrow> cmp y z \<le> 0 \<Longrightarrow> cmp x z \<le> 0"

context total_cmp begin

lemma chain: "cmp_chain cmp x"
  unfolding cmp_chain_def
proof (intro allI impI conjI)
  fix y z assume le: "cmp x y \<le> 0 \<and> cmp y z \<le> 0"
  then show "cmp x z \<le> 0" using cmp_trans by blast
  assume "cmp x z = 0"
  then have zx: "cmp z x \<le> 0" using cmp_antisym [of z x] by simp
  have "cmp y x \<le> 0" "cmp z y \<le> 0" using le zx cmp_trans by blast+
  then show "cmp x y = 0" "cmp y z = 0"
    using le cmp_antisym [of x y] cmp_antisym [of y z] by auto
qed

lemma cmp_eq_sym: "cmp x y = 0 \<longleftrightarrow> cmp y x = 0"
  using cmp_antisym [of x y] by simp

lemma cmp_total: "cmp x y \<le> 0 \<or> cmp y x \<le> 0"
  using cmp_antisym [of x y] by linarith

lemma cmp_eq_trans: "cmp x y = 0 \<Longrightarrow> cmp y z = 0 \<Longrightarrow> cmp x z = 0"
  using cmp_trans [of x y z] cmp_trans [of z y x] cmp_antisym [of x z] cmp_antisym [of y z]
    cmp_antisym [of x y]
  by simp

lemma lex_total: "total_cmp (lex_cmp cmp)"
proof
  fix xs ys zs :: "'a list"
  show "lex_cmp cmp xs xs = 0" using cmp_refl by (simp add: lex_cmp_refl_on)
  show "lex_cmp cmp ys xs = - lex_cmp cmp xs ys"
    by (rule lex_cmp_antisym_on) (blast intro: cmp_antisym)
  show "lex_cmp cmp xs ys \<le> 0 \<Longrightarrow> lex_cmp cmp ys zs \<le> 0 \<Longrightarrow> lex_cmp cmp xs zs \<le> 0"
    by (rule cmp_chainD(1) [OF lex_cmp_chain_on]) (simp_all add: chain)
qed

end

text \<open>A comparison of integer images.\<close>

lemma total_cmp_sgn: "total_cmp (\<lambda>a b. sgn (f a - f b :: int))"
proof
  fix x y z
  show "sgn (f y - f x) = - sgn (f x - f y)" by (metis minus_diff_eq sgn_minus)
qed (auto simp: sgn_if split: if_splits)

end
