(* ===== verification/Frontiers.thy ===== *)
theory Frontiers
  imports Prelude
begin

text \<open>
  Logical time: \<open>Timestamp\<close> and \<open>Summary\<close> of engine/timestamp.rs, \<open>TotalFrontier\<close> of
  engine/frontier.rs, \<open>SelfCompactionTime\<close> and \<open>MaxTimestamp\<close> of
  engine/dataflow/operators/time_column.rs.

  The dataflow runtime relies on three contracts of a timestamp type, the traits
  \<open>PartialOrder\<close>, \<open>Lattice\<close> and \<open>PathSummary\<close>. They are the locales \<open>time_order\<close>,
  \<open>time_lattice\<close> and \<open>path_summary\<close>; trace compaction (\<open>advance_by\<close> of the vendored
  differential-dataflow) is a client of the second. Both are interpreted on
  \<open>Timestamp\<close> and, through a construction generic in the inner time, on
  \<open>SelfCompactionTime\<close>.
\<close>

section \<open>Timestamps, frontiers and self compaction times\<close>

text \<open>A \<open>Timestamp\<close> is a \<open>u64\<close>; the order of \<open>64 word\<close> is the unsigned one.\<close>

type_synonym timestamp = u64
type_synonym summary = u64

definition timestamp_less_equal :: "timestamp \<Rightarrow> timestamp \<Rightarrow> bool" where
  "timestamp_less_equal a b \<longleftrightarrow> a \<le> b"

definition timestamp_minimum :: timestamp where
  "timestamp_minimum = 0"

definition timestamp_join :: "timestamp \<Rightarrow> timestamp \<Rightarrow> timestamp" where
  "timestamp_join a b = max a b"

definition timestamp_meet :: "timestamp \<Rightarrow> timestamp \<Rightarrow> timestamp" where
  "timestamp_meet a b = min a b"

text \<open>The path summaries of \<open>u64\<close> add with \<open>checked_add\<close>: None on overflow.\<close>

definition checked_add_u64 :: "u64 \<Rightarrow> u64 \<Rightarrow> u64 option" where
  "checked_add_u64 a b = (if uint a + uint b < 2 ^ 64 then Some (a + b) else None)"

definition summary_results_in :: "summary \<Rightarrow> timestamp \<Rightarrow> timestamp option" where
  "summary_results_in s t = checked_add_u64 s t"

definition summary_followed_by :: "summary \<Rightarrow> summary \<Rightarrow> summary option" where
  "summary_followed_by s s' = checked_add_u64 s s'"

definition timestamp_epsilon :: summary where
  "timestamp_epsilon = 1"

definition get_max_timestamp :: timestamp where
  "get_max_timestamp = (- 1) div 2 * 2"

definition timestamp_from_str :: "string \<Rightarrow> timestamp option" where
  "timestamp_from_str s = map_option of_nat (parse_unsigned 64 s)"

definition timestamp_to_string :: "timestamp \<Rightarrow> string" where
  "timestamp_to_string t = show_nat (unat t)"

datatype 't total_frontier = At 't | Done

fun total_frontier_from_slice :: "'t list \<Rightarrow> 't total_frontier option" where
  "total_frontier_from_slice [] = Some Done"
| "total_frontier_from_slice [t] = Some (At t)"
| "total_frontier_from_slice (_ # _ # _) = None"

fun is_time_done :: "'t::linorder total_frontier \<Rightarrow> 't \<Rightarrow> bool" where
  "is_time_done (At t) time = (time < t)"
| "is_time_done Done time = True"

definition is_time_pending :: "'t::linorder total_frontier \<Rightarrow> 't \<Rightarrow> bool" where
  "is_time_pending f time \<longleftrightarrow> \<not> is_time_done f time"

fun is_done :: "'t total_frontier \<Rightarrow> bool" where
  "is_done Done = True"
| "is_done (At _) = False"

text \<open>The derived \<open>Ord\<close>: constructors in declaration order, then their fields.\<close>

instantiation total_frontier :: (linorder) linorder
begin

fun less_eq_total_frontier :: "'a total_frontier \<Rightarrow> 'a total_frontier \<Rightarrow> bool" where
  "less_eq_total_frontier (At a) (At b) = (a \<le> b)"
| "less_eq_total_frontier (At _) Done = True"
| "less_eq_total_frontier Done (At _) = False"
| "less_eq_total_frontier Done Done = True"

definition less_total_frontier :: "'a total_frontier \<Rightarrow> 'a total_frontier \<Rightarrow> bool" where
  "less_total_frontier x y \<longleftrightarrow> x \<le> y \<and> \<not> y \<le> x"

instance
proof
  fix x y z :: "'a total_frontier"
  show "x < y \<longleftrightarrow> x \<le> y \<and> \<not> y \<le> x" by (simp add: less_total_frontier_def)
  show "x \<le> x" by (cases x) auto
  show "x \<le> y \<Longrightarrow> y \<le> z \<Longrightarrow> x \<le> z" by (cases x; cases y; cases z) auto
  show "x \<le> y \<Longrightarrow> y \<le> x \<Longrightarrow> x = y" by (cases x; cases y) auto
  show "x \<le> y \<or> y \<le> x" by (cases x; cases y) auto
qed

end

text \<open>\<open>SelfCompactionTime<T>\<close>: a time and whether it is a retraction; the order, lattice and
  summary operations take those of the inner time as arguments, as the generic impls do.\<close>

record 't self_compaction_time =
  sct_time :: 't
  sct_retraction :: bool

definition sct_original :: "'t \<Rightarrow> 't self_compaction_time" where
  "sct_original t = \<lparr>sct_time = t, sct_retraction = False\<rparr>"

definition retraction_of :: "'t \<Rightarrow> 't self_compaction_time" where
  "retraction_of t = \<lparr>sct_time = t, sct_retraction = True\<rparr>"

definition sct_less_equal ::
    "('t \<Rightarrow> 't \<Rightarrow> bool) \<Rightarrow> 't self_compaction_time \<Rightarrow> 't self_compaction_time \<Rightarrow> bool" where
  "sct_less_equal le x y =
     (if sct_time x = sct_time y then sct_retraction x \<longrightarrow> sct_retraction y
      else le (sct_time x) (sct_time y))"

definition sct_results_in ::
    "('s \<Rightarrow> 't \<Rightarrow> 't option) \<Rightarrow> 's self_compaction_time \<Rightarrow> 't self_compaction_time
      \<Rightarrow> 't self_compaction_time option" where
  "sct_results_in res s t =
     map_option (\<lambda>v. \<lparr>sct_time = v, sct_retraction = sct_retraction s \<or> sct_retraction t\<rparr>)
       (res (sct_time s) (sct_time t))"

definition sct_followed_by ::
    "('s \<Rightarrow> 's \<Rightarrow> 's option) \<Rightarrow> 's self_compaction_time \<Rightarrow> 's self_compaction_time
      \<Rightarrow> 's self_compaction_time option" where
  "sct_followed_by fol s s' =
     map_option (\<lambda>v. \<lparr>sct_time = v, sct_retraction = sct_retraction s \<or> sct_retraction s'\<rparr>)
       (fol (sct_time s) (sct_time s'))"

definition sct_minimum :: "'t \<Rightarrow> 't self_compaction_time" where
  "sct_minimum m = sct_original m"

definition sct_join ::
    "('t \<Rightarrow> 't \<Rightarrow> 't) \<Rightarrow> 't self_compaction_time \<Rightarrow> 't self_compaction_time
      \<Rightarrow> 't self_compaction_time" where
  "sct_join join x y =
     (let time = join (sct_time x) (sct_time y);
          r0 = False;
          r1 = (if time = sct_time x then r0 \<or> sct_retraction x else r0);
          r2 = (if time = sct_time y then r1 \<or> sct_retraction y else r1)
      in \<lparr>sct_time = time, sct_retraction = r2\<rparr>)"

definition sct_meet ::
    "('t \<Rightarrow> 't \<Rightarrow> 't) \<Rightarrow> 't self_compaction_time \<Rightarrow> 't self_compaction_time
      \<Rightarrow> 't self_compaction_time" where
  "sct_meet meet x y =
     (let time = meet (sct_time x) (sct_time y);
          r0 = True;
          r1 = (if time = sct_time x then r0 \<and> sct_retraction x else r0);
          r2 = (if time = sct_time y then r1 \<and> sct_retraction y else r1)
      in \<lparr>sct_time = time, sct_retraction = r2\<rparr>)"

text \<open>\<open>Lattice::advance_by\<close> of the vendored differential-dataflow, used by trace compaction.\<close>

fun advance_by :: "('t \<Rightarrow> 't \<Rightarrow> 't) \<Rightarrow> ('t \<Rightarrow> 't \<Rightarrow> 't) \<Rightarrow> 't list \<Rightarrow> 't \<Rightarrow> 't" where
  "advance_by join meet [] x = x"
| "advance_by join meet (first # iter) x =
     foldl (\<lambda>result f. meet result (join x f)) (join x first) iter"

section \<open>The contracts of a timestamp type\<close>

locale time_order =
  fixes le :: "'t \<Rightarrow> 't \<Rightarrow> bool"
  assumes le_refl: "le x x"
    and le_trans: "le x y \<Longrightarrow> le y z \<Longrightarrow> le x z"
    and le_antisym: "le x y \<Longrightarrow> le y x \<Longrightarrow> x = y"

locale time_lattice = time_order le for le :: "'t \<Rightarrow> 't \<Rightarrow> bool" +
  fixes join :: "'t \<Rightarrow> 't \<Rightarrow> 't" and meet :: "'t \<Rightarrow> 't \<Rightarrow> 't" and minimum :: 't
  assumes join_ub1: "le x (join x y)" and join_ub2: "le y (join x y)"
    and join_least: "le x z \<Longrightarrow> le y z \<Longrightarrow> le (join x y) z"
    and meet_lb1: "le (meet x y) x" and meet_lb2: "le (meet x y) y"
    and meet_greatest: "le z x \<Longrightarrow> le z y \<Longrightarrow> le z (meet x y)"
    and minimum_least: "le minimum x"

context time_lattice begin

text \<open>\<open>foldl\<close> of \<open>meet\<close> is the greatest lower bound of the start and the list.\<close>

lemma foldl_meet_le_start: "le (foldl (\<lambda>r f. meet r (g f)) a fs) a"
proof (induction fs arbitrary: a)
  case Nil
  then show ?case by (simp add: le_refl)
next
  case (Cons f fs)
  from Cons [of "meet a (g f)"] show ?case using meet_lb1 le_trans by fastforce
qed

lemma foldl_meet_le: "f \<in> set fs \<Longrightarrow> le (foldl (\<lambda>r f. meet r (g f)) a fs) (g f)"
proof (induction fs arbitrary: a)
  case (Cons h fs)
  then show ?case
    using foldl_meet_le_start [of g "meet a (g h)" fs] meet_lb2 [of a "g h"]
    by (auto intro: le_trans)
qed simp

lemma foldl_meet_greatest:
  "le z a \<Longrightarrow> (\<And>f. f \<in> set fs \<Longrightarrow> le z (g f)) \<Longrightarrow> le z (foldl (\<lambda>r f. meet r (g f)) a fs)"
  by (induction fs arbitrary: a) (auto intro: meet_greatest)

lemma le_advance_by: "le x (advance_by join meet fs x)"
  by (cases fs) (auto intro: le_refl join_ub1 foldl_meet_greatest)

lemma advance_by_le_join: "f \<in> set fs \<Longrightarrow> le (advance_by join meet fs x) (join x f)"
  by (cases fs) (auto intro: foldl_meet_le foldl_meet_le_start)

text \<open>Compaction is invisible to every time in the future of the frontier, and it picks the
  greatest time with that property.\<close>

lemma advance_by_indistinguishable:
  assumes "f \<in> set fs" and "le f t"
  shows "le (advance_by join meet fs x) t \<longleftrightarrow> le x t"
  using assms le_trans [OF le_advance_by] le_trans [OF advance_by_le_join [OF assms(1)]]
  by (blast intro: join_least)

lemma advance_by_greatest:
  assumes "fs \<noteq> []" and "\<And>f t. f \<in> set fs \<Longrightarrow> le f t \<Longrightarrow> le y t \<longleftrightarrow> le x t"
  shows "le y (advance_by join meet fs x)"
proof -
  have "le y (join x f)" if "f \<in> set fs" for f
    using assms(2) [OF that join_ub2] join_ub1 by blast
  with assms(1) show ?thesis by (cases fs) (auto intro: foldl_meet_greatest)
qed

end

locale path_summary = time_order le for le :: "'t \<Rightarrow> 't \<Rightarrow> bool" +
  fixes results_in :: "'s \<Rightarrow> 't \<Rightarrow> 't option" and followed_by :: "'s \<Rightarrow> 's \<Rightarrow> 's option"
  assumes results_in_inflationary: "results_in s t = Some u \<Longrightarrow> le t u"
    and results_in_mono: "le t t' \<Longrightarrow> results_in s t = Some u \<Longrightarrow> results_in s t' = Some u' \<Longrightarrow> le u u'"
    and followed_by_results:
      "followed_by s s' = Some r \<Longrightarrow> results_in r t = Option.bind (results_in s t) (results_in s')"

context path_summary begin

text \<open>A message that travels along a path never moves back in time, however the summaries of
  the path are composed.\<close>

lemma path_advances: "results_in s t = Some u \<Longrightarrow> results_in s' u = Some v \<Longrightarrow> le t v"
  using results_in_inflationary le_trans by blast

lemma path_composition:
  "followed_by s s' = Some r \<Longrightarrow> results_in s t = Some u \<Longrightarrow> results_in s' u = Some v
   \<Longrightarrow> results_in r t = Some v"
  by (simp add: followed_by_results)

end

text \<open>Summaries that also keep distinct times apart.\<close>

locale injective_summary = path_summary le results_in followed_by
  for le :: "'t \<Rightarrow> 't \<Rightarrow> bool" and results_in :: "'s \<Rightarrow> 't \<Rightarrow> 't option"
    and followed_by :: "'s \<Rightarrow> 's \<Rightarrow> 's option" +
  assumes results_in_inj: "results_in s t = Some u \<Longrightarrow> results_in s t' = Some u \<Longrightarrow> t = t'"

section \<open>The contracts hold\<close>

interpretation timestamp_lattice:
    time_lattice timestamp_less_equal timestamp_join timestamp_meet timestamp_minimum
  by unfold_locales
    (auto simp: timestamp_less_equal_def timestamp_join_def timestamp_meet_def timestamp_minimum_def)

lemma checked_add_u64_Some:
  "checked_add_u64 a b = Some c \<longleftrightarrow> uint a + uint b < 2 ^ 64 \<and> uint c = uint a + uint b"
proof -
  have "uint (a + b) = uint a + uint b" if "uint a + uint b < 2 ^ 64"
    using that by (simp add: uint_word_ariths)
  then show ?thesis by (auto simp: checked_add_u64_def word_uint_eq_iff)
qed

interpretation timestamp_summary:
    injective_summary timestamp_less_equal summary_results_in summary_followed_by
proof unfold_locales
  fix s s' r t t' u u' :: "64 word"
  note defs = timestamp_less_equal_def summary_results_in_def summary_followed_by_def
    checked_add_u64_Some word_le_def
  show "summary_results_in s t = Some u \<Longrightarrow> timestamp_less_equal t u"
    by (auto simp: defs)
  show "timestamp_less_equal t t' \<Longrightarrow> summary_results_in s t = Some u
      \<Longrightarrow> summary_results_in s t' = Some u' \<Longrightarrow> timestamp_less_equal u u'"
    by (auto simp: defs)
  show "summary_results_in s t = Some u \<Longrightarrow> summary_results_in s t' = Some u \<Longrightarrow> t = t'"
    by (auto simp: defs word_uint_eq_iff)
  assume r: "summary_followed_by s s' = Some r"
  then have ur: "uint r = uint s + uint s'" by (simp add: defs)
  show "summary_results_in r t = Option.bind (summary_results_in s t) (summary_results_in s')"
  proof (cases "uint s + uint t < 2 ^ 64")
    case True
    then have "summary_results_in s t = Some (s + t)" "uint (s + t) = uint s + uint t"
      by (auto simp: summary_results_in_def checked_add_u64_def uint_word_ariths)
    then show ?thesis using ur r
      by (auto simp: summary_results_in_def summary_followed_by_def checked_add_u64_def
          algebra_simps split: if_splits)
  next
    case False
    with ur have "\<not> uint r + uint t < 2 ^ 64" using uint_ge_0 [of s'] by linarith
    with False show ?thesis by (simp add: summary_results_in_def checked_add_u64_def)
  qed
qed

context time_order begin

lemma sct_order: "time_order (sct_less_equal le)"
  by unfold_locales
    (auto simp: sct_less_equal_def split: if_splits intro: le_trans le_antisym le_refl)

lemma sct_less_equal_time: "sct_less_equal le x y \<Longrightarrow> le (sct_time x) (sct_time y)"
  by (auto simp: sct_less_equal_def le_refl split: if_splits)

lemma sct_less_equal_retraction:
  "sct_less_equal le x y \<Longrightarrow> sct_time x = sct_time y \<Longrightarrow> sct_retraction x \<Longrightarrow> sct_retraction y"
  by (simp add: sct_less_equal_def)

end

context time_lattice begin

lemma sct_lattice:
  "time_lattice (sct_less_equal le) (sct_join join) (sct_meet meet) (sct_minimum minimum)"
proof (intro time_lattice.intro time_lattice_axioms.intro sct_order)
  fix x y z :: "'t self_compaction_time"
  note times = sct_less_equal_time [of x z] sct_less_equal_time [of y z]
    sct_less_equal_time [of z x] sct_less_equal_time [of z y]
  note retractions = sct_less_equal_retraction [of x z] sct_less_equal_retraction [of y z]
    sct_less_equal_retraction [of z x] sct_less_equal_retraction [of z y]
  show "sct_less_equal le x (sct_join join x y)"
    using join_ub1 by (simp add: sct_less_equal_def sct_join_def Let_def)
  show "sct_less_equal le y (sct_join join x y)"
    using join_ub2 by (simp add: sct_less_equal_def sct_join_def Let_def)
  show "sct_less_equal le (sct_meet meet x y) x"
    using meet_lb1 by (auto simp: sct_less_equal_def sct_meet_def Let_def)
  show "sct_less_equal le (sct_meet meet x y) y"
    using meet_lb2 by (auto simp: sct_less_equal_def sct_meet_def Let_def)
  show "sct_less_equal le (sct_minimum minimum) x"
    using minimum_least by (simp add: sct_less_equal_def sct_minimum_def sct_original_def)
  show "sct_less_equal le (sct_join join x y) z" if "sct_less_equal le x z" "sct_less_equal le y z"
    unfolding sct_less_equal_def [of _ "sct_join join x y"]
    using that times(1,2) retractions(1,2) join_least
    by (auto simp: sct_join_def Let_def split: if_splits)
  show "sct_less_equal le z (sct_meet meet x y)" if "sct_less_equal le z x" "sct_less_equal le z y"
    unfolding sct_less_equal_def [of _ z]
    using that times(3,4) retractions(3,4) meet_greatest
    by (auto simp: sct_meet_def Let_def split: if_splits)
qed

end

context injective_summary begin

lemma sct_path_summary:
  "path_summary (sct_less_equal le) (sct_results_in results_in) (sct_followed_by followed_by)"
proof (intro path_summary.intro path_summary_axioms.intro sct_order)
  fix s s' r :: "'s self_compaction_time" and t t' u u' :: "'t self_compaction_time"
  show "sct_less_equal le t u" if "sct_results_in results_in s t = Some u"
    using that results_in_inflationary by (auto simp: sct_results_in_def sct_less_equal_def)
  show "sct_less_equal le u u'"
    if "sct_less_equal le t t'" "sct_results_in results_in s t = Some u"
      "sct_results_in results_in s t' = Some u'"
    using that sct_less_equal_time [OF that(1)] sct_less_equal_retraction [OF that(1)]
      results_in_mono results_in_inj
    by (auto simp: sct_results_in_def sct_less_equal_def [of _ u])
  show "sct_results_in results_in r t
      = Option.bind (sct_results_in results_in s t) (sct_results_in results_in s')"
    if "sct_followed_by followed_by s s' = Some r"
    using that followed_by_results
    by (cases "results_in (sct_time s) (sct_time t)")
      (auto simp: sct_followed_by_def sct_results_in_def disj_ac)
qed

end

interpretation sct_lattice: time_lattice
    "sct_less_equal timestamp_less_equal" "sct_join timestamp_join" "sct_meet timestamp_meet"
    "sct_minimum timestamp_minimum"
  by (rule timestamp_lattice.sct_lattice)

interpretation sct_summary: path_summary
    "sct_less_equal timestamp_less_equal" "sct_results_in summary_results_in"
    "sct_followed_by summary_followed_by"
  by (rule timestamp_summary.sct_path_summary)

section \<open>Frontiers\<close>

lemma timestamp_string_roundtrip: "timestamp_from_str (timestamp_to_string t) = Some t"
  using unat_u64 [of t]
  by (simp add: timestamp_from_str_def timestamp_to_string_def parse_unsigned_show)

text \<open>A frontier is determined by the times it has passed: a smaller frontier has
  finished fewer times.\<close>

lemma is_time_done_mono: "f \<le> g \<Longrightarrow> is_time_done f t \<Longrightarrow> is_time_done g t"
  by (cases f; cases g) auto

lemma is_time_done_down: "is_time_done f t \<Longrightarrow> s \<le> t \<Longrightarrow> is_time_done f s"
  by (cases f) auto

lemma is_time_done_min: "is_time_done (min f g) t \<longleftrightarrow> is_time_done f t \<and> is_time_done g t"
  by (cases f; cases g) (auto simp: min_def)

text \<open>C22. Trace compaction over \<open>SelfCompactionTime\<close> is sound: replacing a time by
  \<open>advance_by\<close> of it to a compaction frontier changes no comparison with a time in the future
  of that frontier, so a reader at such a time sees the same updates.\<close>

theorem self_compaction_time_compaction:
  assumes "f \<in> set fs" and "sct_less_equal timestamp_less_equal f t"
  shows "sct_less_equal timestamp_less_equal
           (advance_by (sct_join timestamp_join) (sct_meet timestamp_meet) fs x) t
         \<longleftrightarrow> sct_less_equal timestamp_less_equal x t"
  using assms by (rule sct_lattice.advance_by_indistinguishable)

theorem self_compaction_time_compaction_witness:
  "sct_less_equal timestamp_less_equal
     (advance_by (sct_join timestamp_join) (sct_meet timestamp_meet) [sct_original 4, retraction_of 6]
        (retraction_of 3)) (sct_original 5)
   \<longleftrightarrow> sct_less_equal timestamp_less_equal (retraction_of 3) (sct_original 5)"
  using self_compaction_time_compaction [of "sct_original 4" "[sct_original 4, retraction_of 6]"
      "sct_original 5" "retraction_of 3"]
  by (simp add: sct_less_equal_def timestamp_less_equal_def sct_original_def)

end
