(* ===== verification/Config.thy ===== *)
theory Config
  imports Prelude
begin

text \<open>
  The worker configuration: \<open>Config::from_env\<close> of engine/dataflow/config.rs over the
  environment readers of env.rs. The process environment is a map from variable names to
  the bytes of their values; a value is \<open>NotUtf8\<close> when the caller's \<open>valid_utf8\<close> says so.
  \<open>usize\<close> is 64 bits, and \<open>MAX_WORKERS\<close> is the constant of the default feature set.
\<close>

section \<open>Environment variables\<close>

datatype env_error = NotUtf8 string | ParsingFailed string | NotSet string

type_synonym environment = "string \<rightharpoonup> string"

definition parse_env_var ::
    "(string \<Rightarrow> bool) \<Rightarrow> (string \<Rightarrow> 'a option) \<Rightarrow> environment \<Rightarrow> string
      \<Rightarrow> (env_error, 'a option) result" where
  "parse_env_var valid_utf8 from_str env name =
     (case env name of
        Some value \<Rightarrow>
          if \<not> valid_utf8 value then Err (NotUtf8 name)
          else (case from_str value of
                  None \<Rightarrow> Err (ParsingFailed name)
                | Some v \<Rightarrow> Ok (Some v))
      | None \<Rightarrow> Ok None)"

definition parse_env_var_required ::
    "(string \<Rightarrow> bool) \<Rightarrow> (string \<Rightarrow> 'a option) \<Rightarrow> environment \<Rightarrow> string
      \<Rightarrow> (env_error, 'a) result" where
  "parse_env_var_required valid_utf8 from_str env name =
     and_then (parse_env_var valid_utf8 from_str env name) (ok_or (NotSet name))"

section \<open>The configuration\<close>










section \<open>Properties\<close>




lemma env_no_panic [simp]:
  "map_err f (parse_env_var v p env n) \<noteq> Panic"
  "map_err f (parse_env_var_required v p env n) \<noteq> Panic"
  by (auto simp: parse_env_var_def parse_env_var_required_def split: option.splits)


end
