(* ===== verification/Float64.thy ===== *)
theory Float64
  imports Prelude
begin

text \<open>
  The primitive type \<open>f64\<close> as its IEEE 754 binary64 bit pattern.

  A finite double is decoded to the exact integer \<open>fx\<close>: its value in units of
  \<open>2 ^ (-1074)\<close>, the least positive double. Every operation computes with exact integers and
  rounds once, to nearest with ties to even (\<open>round_q\<close>); the encoding of a rounded
  magnitude is \<open>k * 2 ^ 52 + m\<close>, where \<open>m\<close> is the significand with its leading bit, so that a
  carry out of the significand moves to the next exponent by itself. Rust leaves the payload
  and sign of a NaN result open; the model uses the quiet NaN.
\<close>

type_synonym f64 = "64 word"

section \<open>Decoding\<close>

definition f64_exp :: "f64 \<Rightarrow> nat" where
  "f64_exp w = unat w div 2 ^ 52 mod 2 ^ 11"

definition f64_frac :: "f64 \<Rightarrow> nat" where
  "f64_frac w = unat w mod 2 ^ 52"

definition f64_neg_sign :: "f64 \<Rightarrow> bool" where
  "f64_neg_sign w \<longleftrightarrow> 2 ^ 63 \<le> unat w"

definition is_nan :: "f64 \<Rightarrow> bool" where
  "is_nan w \<longleftrightarrow> f64_exp w = 2047 \<and> f64_frac w \<noteq> 0"

definition is_infinite :: "f64 \<Rightarrow> bool" where
  "is_infinite w \<longleftrightarrow> f64_exp w = 2047 \<and> f64_frac w = 0"

definition is_finite :: "f64 \<Rightarrow> bool" where
  "is_finite w \<longleftrightarrow> f64_exp w \<noteq> 2047"

definition fx_abs :: "f64 \<Rightarrow> nat" where
  "fx_abs w = (if f64_exp w = 0 then f64_frac w
               else (2 ^ 52 + f64_frac w) * 2 ^ (f64_exp w - 1))"

definition fx :: "f64 \<Rightarrow> int" where
  "fx w = (if f64_neg_sign w then - int (fx_abs w) else int (fx_abs w))"

section \<open>Rounding\<close>

definition f64_nan :: f64 where "f64_nan = of_nat (2047 * 2 ^ 52 + 2 ^ 51)"

definition f64_sign_bit :: "bool \<Rightarrow> nat" where
  "f64_sign_bit s = (if s then 2 ^ 63 else 0)"

definition f64_inf :: "bool \<Rightarrow> f64" where
  "f64_inf s = of_nat (f64_sign_bit s + 2047 * 2 ^ 52)"

definition f64_zero :: "bool \<Rightarrow> f64" where
  "f64_zero s = of_nat (f64_sign_bit s)"

fun bit_len :: "nat \<Rightarrow> nat" where
  "bit_len n = (if n = 0 then 0 else Suc (bit_len (n div 2)))"

declare bit_len.simps [simp del]

definition round_half_even :: "nat \<Rightarrow> nat \<Rightarrow> nat" where
  "round_half_even n d =
     (let q = n div d; r = n mod d in if 2 * r < d \<or> (2 * r = d \<and> even q) then q else q + 1)"

text \<open>The double nearest to \<open>\<plusminus> n / d\<close> units.\<close>

definition round_q :: "bool \<Rightarrow> nat \<Rightarrow> nat \<Rightarrow> f64" where
  "round_q s n d =
     (let k = bit_len (n div d) - 53;
          bits = k * 2 ^ 52 + round_half_even n (d * 2 ^ k)
      in if 2047 * 2 ^ 52 \<le> bits then f64_inf s else of_nat (f64_sign_bit s + bits))"

section \<open>Operations\<close>

definition f64_neg :: "f64 \<Rightarrow> f64" where
  "f64_neg a = a XOR of_nat (2 ^ 63)"

definition f64_abs :: "f64 \<Rightarrow> f64" where
  "f64_abs a = (if f64_neg_sign a then f64_neg a else a)"

definition f64_copysign :: "f64 \<Rightarrow> f64 \<Rightarrow> f64" where
  "f64_copysign a b = (if f64_neg_sign a = f64_neg_sign b then a else f64_neg a)"

definition f64_add :: "f64 \<Rightarrow> f64 \<Rightarrow> f64" where
  "f64_add a b =
     (if is_nan a \<or> is_nan b then f64_nan
      else if is_infinite a then
        (if is_infinite b \<and> f64_neg_sign a \<noteq> f64_neg_sign b then f64_nan else a)
      else if is_infinite b then b
      else let s = fx a + fx b in
        if s = 0 then f64_zero (f64_neg_sign a \<and> f64_neg_sign b)
        else round_q (s < 0) (nat \<bar>s\<bar>) 1)"

definition f64_sub :: "f64 \<Rightarrow> f64 \<Rightarrow> f64" where
  "f64_sub a b = (if is_nan b then f64_nan else f64_add a (f64_neg b))"

definition f64_mul :: "f64 \<Rightarrow> f64 \<Rightarrow> f64" where
  "f64_mul a b =
     (let s = (f64_neg_sign a \<noteq> f64_neg_sign b) in
      if is_nan a \<or> is_nan b then f64_nan
      else if is_infinite a \<or> is_infinite b then
        (if fx_abs a = 0 \<or> fx_abs b = 0 then f64_nan else f64_inf s)
      else round_q s (fx_abs a * fx_abs b) (2 ^ 1074))"

definition f64_div :: "f64 \<Rightarrow> f64 \<Rightarrow> f64" where
  "f64_div a b =
     (let s = (f64_neg_sign a \<noteq> f64_neg_sign b) in
      if is_nan a \<or> is_nan b then f64_nan
      else if is_infinite a then (if is_infinite b then f64_nan else f64_inf s)
      else if is_infinite b then f64_zero s
      else if fx_abs b = 0 then (if fx_abs a = 0 then f64_nan else f64_inf s)
      else round_q s (fx_abs a * 2 ^ 1074) (fx_abs b))"

definition f64_rem :: "f64 \<Rightarrow> f64 \<Rightarrow> f64" where
  "f64_rem a b =
     (if is_nan a \<or> is_nan b \<or> is_infinite a \<or> (is_finite b \<and> fx_abs b = 0) then f64_nan
      else if is_infinite b then a
      else round_q (f64_neg_sign a) (fx_abs a mod fx_abs b) 1)"

definition f64_floor :: "f64 \<Rightarrow> f64" where
  "f64_floor a =
     (if is_nan a then f64_nan
      else if is_infinite a \<or> fx_abs a = 0 then a
      else let i = fx a div 2 ^ 1074 in round_q (f64_neg_sign a) (nat \<bar>i\<bar> * 2 ^ 1074) 1)"

definition f64_of_int :: "int \<Rightarrow> f64" where
  "f64_of_int i = round_q (i < 0) (nat \<bar>i\<bar> * 2 ^ 1074) 1"

definition f64_of_i64 :: "i64 \<Rightarrow> f64" where
  "f64_of_i64 i = f64_of_int (sint i)"

text \<open>\<open>as i64\<close>: truncation towards zero, saturating, and zero for a NaN.\<close>

definition f64_trunc :: "f64 \<Rightarrow> int" where
  "f64_trunc a = trunc_div (fx a) (2 ^ 1074)"

definition f64_to_i64 :: "f64 \<Rightarrow> i64" where
  "f64_to_i64 a =
     (if is_nan a then 0
      else if is_infinite a then word_of_int (if f64_neg_sign a then i64_min else i64_max)
      else word_of_int (max i64_min (min i64_max (f64_trunc a))))"

text \<open>The comparisons of \<open>f64\<close>; \<open>rank\<close> orders the doubles that are not NaN, with both zeros
  equal.\<close>

definition f64_rank :: "f64 \<Rightarrow> int" where
  "f64_rank a = (if is_infinite a then (if f64_neg_sign a then - (2 ^ 2100) else 2 ^ 2100) else fx a)"

definition f64_eq :: "f64 \<Rightarrow> f64 \<Rightarrow> bool" where
  "f64_eq a b \<longleftrightarrow> \<not> is_nan a \<and> \<not> is_nan b \<and> f64_rank a = f64_rank b"

definition f64_lt :: "f64 \<Rightarrow> f64 \<Rightarrow> bool" where
  "f64_lt a b \<longleftrightarrow> \<not> is_nan a \<and> \<not> is_nan b \<and> f64_rank a < f64_rank b"

definition f64_le :: "f64 \<Rightarrow> f64 \<Rightarrow> bool" where
  "f64_le a b \<longleftrightarrow> \<not> is_nan a \<and> \<not> is_nan b \<and> f64_rank a \<le> f64_rank b"

section \<open>Rounding is exact on representable magnitudes\<close>

lemma bit_len_bounds: "0 < n \<Longrightarrow> 2 ^ (bit_len n - 1) \<le> n \<and> n < 2 ^ bit_len n"
proof (induction n rule: bit_len.induct)
  case (1 n)
  show ?case
  proof (cases "n div 2 = 0")
    case True
    then have "n = 1" using 1 by auto
    then show ?thesis by (simp add: bit_len.simps [of "Suc 0"] bit_len.simps [of 0])
  next
    case False
    with 1 have ih: "2 ^ (bit_len (n div 2) - 1) \<le> n div 2" "n div 2 < 2 ^ bit_len (n div 2)"
      by auto
    from False have "bit_len (n div 2) \<noteq> 0" by (subst bit_len.simps) simp
    then obtain k where k: "bit_len (n div 2) = Suc k" using not0_implies_Suc by blast
    have "bit_len n = Suc (Suc k)" using 1(2) k by (subst bit_len.simps) simp
    moreover have "2 * 2 ^ k \<le> n" "n < 2 * (2 * 2 ^ k)" using ih k by auto
    ultimately show ?thesis by simp
  qed
qed

lemma bit_len_unique:
  assumes "2 ^ k \<le> n" and "n < 2 ^ Suc k" shows "bit_len n = Suc k"
proof -
  have "0 < n" using assms(1) by (metis gr0I not_less zero_less_numeral zero_less_power)
  note b = bit_len_bounds [OF this]
  have "bit_len n \<noteq> 0" using \<open>0 < n\<close> by (subst bit_len.simps) simp
  then obtain j where j: "bit_len n = Suc j" using not0_implies_Suc by blast
  have "k < Suc j"
    using assms(1) b j by (metis order.strict_trans1 one_less_numeral_iff power_less_imp_less_exp semiring_norm(76))
  moreover have "j < Suc k"
    using assms(2) b j by (metis diff_Suc_1 order.strict_trans1 one_less_numeral_iff power_less_imp_less_exp semiring_norm(76))
  ultimately show ?thesis using j by simp
qed

lemma round_half_even_exact: "0 < d \<Longrightarrow> round_half_even (m * d) d = m"
  by (simp add: round_half_even_def Let_def)

lemma unat_of_nat_u64: "n < 2 ^ 64 \<Longrightarrow> unat (of_nat n :: 64 word) = n"
  by (simp add: unsigned_of_nat take_bit_eq_mod)

text \<open>\<open>representable n\<close>: \<open>n\<close> units fit a significand of 53 bits below the exponent limit.\<close>

definition representable :: "nat \<Rightarrow> bool" where
  "representable n \<longleftrightarrow> (\<exists>m k. n = m * 2 ^ k \<and> m < 2 ^ 53 \<and> (k = 0 \<or> 2 ^ 52 \<le> m) \<and> k \<le> 2045)"

lemma encoded_bound:
  assumes "m < 2 ^ 53" and "k \<le> 2045" shows "k * 2 ^ 52 + m < 2047 * (2 ^ 52 :: nat)"
proof -
  have "k * 2 ^ 52 \<le> 2045 * (2 ^ 52 :: nat)" using assms(2) by (rule mult_right_mono) simp
  with assms(1) show ?thesis by simp
qed

lemma round_q_exact:
  assumes "n = m * 2 ^ k" and "m < 2 ^ 53" and "k = 0 \<or> 2 ^ 52 \<le> m" and "k \<le> 2045"
  shows "round_q s n 1 = of_nat (f64_sign_bit s + (k * 2 ^ 52 + m))"
proof -
  have k: "bit_len n - 53 = k"
  proof (cases "2 ^ 52 \<le> m")
    case True
    then have "2 ^ (52 + k) \<le> n" "n < 2 ^ Suc (52 + k)"
      using assms(1,2) by (auto simp: power_add)
    then show ?thesis using bit_len_unique by fastforce
  next
    case False
    with assms have n: "n = m" "k = 0" "m < 2 ^ 52" by auto
    have "bit_len m \<le> 53"
    proof (cases "m = 0")
      case True
      then show ?thesis by (simp add: bit_len.simps)
    next
      case False
      then have "2 ^ (bit_len m - 1) \<le> m" using bit_len_bounds by auto
      with n(3) have "(2::nat) ^ (bit_len m - 1) < 2 ^ 52" by linarith
      then have "bit_len m - 1 < 52" by (rule power_less_imp_less_exp [rotated]) simp
      then show ?thesis by simp
    qed
    with n show ?thesis by simp
  qed
  have "k * 2 ^ 52 + m < 2047 * 2 ^ 52" using assms(2,4) by (rule encoded_bound)
  with k assms(1) show ?thesis
    by (simp add: round_q_def Let_def round_half_even_exact)
qed

lemma encoded_decode:
  assumes "m < 2 ^ 53" and "k = 0 \<or> 2 ^ 52 \<le> m" and "k \<le> 2045"
    and w: "w = of_nat (f64_sign_bit s + (k * 2 ^ 52 + m))"
  shows "fx_abs w = m * 2 ^ k" and "f64_neg_sign w = s" and "is_finite w"
proof -
  let ?bits = "k * 2 ^ 52 + m"
  have b: "?bits < 2047 * 2 ^ 52" using assms(1,3) by (rule encoded_bound)
  have u: "unat w = f64_sign_bit s + ?bits"
    unfolding w by (rule unat_of_nat_u64) (use b in \<open>auto simp: f64_sign_bit_def\<close>)
  have frac: "f64_frac w = m mod 2 ^ 52"
    by (auto simp: f64_frac_def u f64_sign_bit_def mod_add_left_eq [symmetric])
  have bd: "?bits div 2 ^ 52 = k + m div 2 ^ 52"
    by simp
  have "f64_exp w = ?bits div 2 ^ 52 mod 2 ^ 11"
  proof (cases s)
    case True
    then have "unat w = ?bits + 2 ^ 11 * 2 ^ 52" by (simp add: u f64_sign_bit_def)
    then have "unat w div 2 ^ 52 = ?bits div 2 ^ 52 + 2 ^ 11" by (simp only: div_mult_self2) simp
    then show ?thesis by (simp add: f64_exp_def)
  qed (simp add: f64_exp_def u f64_sign_bit_def)
  then have e: "f64_exp w = k + m div 2 ^ 52"
    using b bd by (simp add: less_mult_imp_div_less)
  show "f64_neg_sign w = s"
    using b by (auto simp: f64_neg_sign_def u f64_sign_bit_def)
  have m: "m div 2 ^ 52 = (if m < 2 ^ 52 then 0 else 1)"
    using assms(1) by (auto intro: div_nat_eqI)
  show "is_finite w" using assms(3) e m by (auto simp: is_finite_def)
  show "fx_abs w = m * 2 ^ k"
  proof (cases "m < 2 ^ 52")
    case True
    with assms(2) e m frac show ?thesis by (auto simp: fx_abs_def)
  next
    case False
    then have "m mod 2 ^ 52 = m - 2 ^ 52" using m by (simp add: modulo_nat_def)
    with False e m frac show ?thesis by (simp add: fx_abs_def)
  qed
qed

lemma round_q_representable:
  assumes "representable n"
  shows "fx_abs (round_q s n 1) = n" and "f64_neg_sign (round_q s n 1) = s"
    and "is_finite (round_q s n 1)"
proof -
  from assms obtain m k where "n = m * 2 ^ k" "m < 2 ^ 53" "k = 0 \<or> 2 ^ 52 \<le> m" "k \<le> 2045"
    by (auto simp: representable_def)
  note round_q_exact [OF this, of s] encoded_decode [OF this(2-4)]
  with \<open>n = m * 2 ^ k\<close> show "fx_abs (round_q s n 1) = n" "f64_neg_sign (round_q s n 1) = s"
    "is_finite (round_q s n 1)" by auto
qed

text \<open>An integer of at most 53 bits is a double, so a cast from \<open>i64\<close> is exact on it.\<close>

lemma representable_int: "i < 2 ^ 53 \<Longrightarrow> representable (i * 2 ^ 1074)"
proof -
  assume i: "i < 2 ^ 53"
  show ?thesis
  proof (cases "i = 0")
    case True
    then show ?thesis unfolding representable_def by (intro exI [of _ 0]) simp
  next
    case False
    let ?j = "53 - bit_len i"
    note b = bit_len_bounds [of i]
    have "bit_len i \<le> 53"
    proof (rule ccontr)
      assume "\<not> ?thesis"
      then have "(2::nat) ^ 53 \<le> 2 ^ (bit_len i - 1)" by (intro power_increasing) auto
      with b False i show False by linarith
    qed
    moreover have "bit_len i \<noteq> 0" using False by (subst bit_len.simps) simp
    ultimately have p: "2 ^ ?j * 2 ^ (bit_len i - 1) = (2::nat) ^ 52" "2 ^ ?j * 2 ^ bit_len i = (2::nat) ^ 53"
      by (simp_all flip: power_add)
    have "i * 2 ^ 1074 = (i * 2 ^ ?j) * 2 ^ (1074 - ?j)"
      by (simp flip: power_add)
    moreover have "i * 2 ^ ?j < 2 ^ 53"
      using b False p(2) mult_less_cancel1 [of "2 ^ ?j" i "2 ^ bit_len i"] by (simp add: mult.commute)
    moreover have "2 ^ 52 \<le> i * 2 ^ ?j"
      using b False p(1) mult_le_cancel1 [of "2 ^ ?j" "2 ^ (bit_len i - 1)" i] by (simp add: mult.commute)
    moreover have "1074 - ?j \<le> 2045" by simp
    ultimately show ?thesis unfolding representable_def by blast
  qed
qed

lemma fx_f64_of_int: "\<bar>i\<bar> < 2 ^ 53 \<Longrightarrow> fx (f64_of_int i) = i * 2 ^ 1074"
  using round_q_representable [OF representable_int, of "nat \<bar>i\<bar>" "i < 0"]
  by (auto simp: fx_def f64_of_int_def)

lemma finite_f64_of_int: "\<bar>i\<bar> < 2 ^ 53 \<Longrightarrow> is_finite (f64_of_int i)"
  using round_q_representable(3) [OF representable_int, of "nat \<bar>i\<bar>" "i < 0"]
  by (auto simp: f64_of_int_def)

lemma trunc_div_exact: "b \<noteq> 0 \<Longrightarrow> trunc_div (a * b) b = a"
  by (simp add: trunc_div_def abs_mult sgn_mult mult.assoc sgn_mult_abs flip: abs_sgn)

lemma f64_i64_roundtrip: "\<bar>sint i\<bar> < 2 ^ 53 \<Longrightarrow> f64_to_i64 (f64_of_i64 i) = i"
proof -
  assume i: "\<bar>sint i\<bar> < 2 ^ 53"
  then have "f64_trunc (f64_of_i64 i) = sint i"
    by (simp add: f64_trunc_def f64_of_i64_def fx_f64_of_int trunc_div_exact)
  moreover have "is_finite (f64_of_i64 i)" using i by (simp add: f64_of_i64_def finite_f64_of_int)
  moreover have "in_i64 (sint i)" by (rule sint_in_i64)
  ultimately show ?thesis
    by (simp add: f64_to_i64_def is_finite_def is_nan_def is_infinite_def in_i64_def min.absorb2
        max.absorb2)
qed

section \<open>A finite double is determined by its value, up to the sign of zero\<close>

lemma unat_f64: "unat w = f64_sign_bit (f64_neg_sign w) + (f64_exp w * 2 ^ 52 + f64_frac w)"
proof -
  have u: "unat w < 2 ^ 64" by (rule unat_u64)
  have d: "unat w = unat w div 2 ^ 52 * 2 ^ 52 + f64_frac w"
    by (simp add: f64_frac_def)
  have "unat w div 2 ^ 52 = (if f64_neg_sign w then 2 ^ 11 else 0) + f64_exp w"
  proof (cases "f64_neg_sign w")
    case True
    then have "2 ^ 11 \<le> unat w div 2 ^ 52"
      by (simp add: f64_neg_sign_def less_eq_div_iff_mult_less_eq)
    moreover have "unat w div 2 ^ 52 < 2 * 2 ^ 11" using u by (simp add: less_mult_imp_div_less)
    ultimately show ?thesis using True by (simp add: f64_exp_def mod_if)
  next
    case False
    then have "unat w div 2 ^ 52 < 2 ^ 11" by (simp add: f64_neg_sign_def less_mult_imp_div_less)
    with False show ?thesis by (simp add: f64_exp_def)
  qed
  with d show ?thesis by (simp add: f64_sign_bit_def split: if_splits)
qed

lemma f64_ext:
  "f64_neg_sign a = f64_neg_sign b \<Longrightarrow> f64_exp a = f64_exp b \<Longrightarrow> f64_frac a = f64_frac b \<Longrightarrow> a = b"
  using unat_f64 [of a] unat_f64 [of b] by (simp add: word_unat_eq_iff)

lemma f64_frac_less: "f64_frac w < 2 ^ 52"
  by (simp add: f64_frac_def)

lemma fx_abs_range:
  "0 < f64_exp w \<Longrightarrow> 2 ^ (51 + f64_exp w) \<le> fx_abs w \<and> fx_abs w < 2 ^ (52 + f64_exp w)"
proof -
  assume "0 < f64_exp w"
  then obtain e where e: "f64_exp w = Suc e" using gr0_implies_Suc by blast
  have "(2::nat) ^ (51 + Suc e) = 2 ^ 52 * 2 ^ e" "(2::nat) ^ (52 + Suc e) = (2 ^ 52 + 2 ^ 52) * 2 ^ e"
    by (simp_all add: power_add)
  then show ?thesis
    using f64_frac_less [of w] by (simp add: fx_abs_def e)
qed

lemma fx_abs_exp_mono: "f64_exp a < f64_exp b \<Longrightarrow> fx_abs a < fx_abs b"
proof -
  assume less: "f64_exp a < f64_exp b"
  have b: "2 ^ (51 + f64_exp b) \<le> fx_abs b" using less by (intro fx_abs_range [THEN conjunct1]) simp
  have a: "fx_abs a < 2 ^ (52 + f64_exp a)"
    using fx_abs_range [of a] f64_frac_less [of a]
    by (cases "f64_exp a = 0") (auto simp: fx_abs_def)
  have "(2::nat) ^ (52 + f64_exp a) \<le> 2 ^ (51 + f64_exp b)"
    using less by (intro power_increasing) auto
  with a b show ?thesis by linarith
qed

lemma fx_abs_inject: "fx_abs a = fx_abs b \<Longrightarrow> f64_exp a = f64_exp b \<and> f64_frac a = f64_frac b"
  using fx_abs_exp_mono [of a b] fx_abs_exp_mono [of b a]
  by (cases "f64_exp a" "f64_exp b" rule: linorder_cases) (auto simp: fx_abs_def split: if_splits)

lemma fx_inject: "fx a = fx b \<Longrightarrow> a = b \<or> (fx a = 0 \<and> fx b = 0)"
  using fx_abs_inject [of a b] f64_ext [of a b] by (auto simp: fx_def split: if_splits)

lemma fx_abs_less: "is_finite w \<Longrightarrow> fx_abs w < 2 ^ 2099"
proof -
  assume fin: "is_finite w"
  have "f64_exp w < 2 ^ 11" by (simp add: f64_exp_def)
  with fin have e: "f64_exp w \<le> 2046" by (simp add: is_finite_def)
  have "fx_abs w < 2 ^ (52 + f64_exp w)"
    using fx_abs_range [of w] f64_frac_less [of w]
    by (cases "f64_exp w = 0") (auto simp: fx_abs_def)
  also have "(2::nat) ^ (52 + f64_exp w) \<le> 2 ^ 2099" using e by (intro power_increasing) auto
  finally show ?thesis .
qed

lemma f64_rank_inject:
  assumes "f64_rank a = f64_rank b" and "\<not> is_nan a" and "\<not> is_nan b"
  shows "a = b \<or> (f64_rank a = 0 \<and> f64_rank b = 0)"
proof -
  have fin: "is_finite w" if "\<not> is_nan w" "\<not> is_infinite w" for w
    using that by (auto simp: is_nan_def is_infinite_def is_finite_def)
  have bound: "\<bar>fx w\<bar> < 2 ^ 2099" if "\<not> is_nan w" "\<not> is_infinite w" for w
    using fx_abs_less [OF fin [OF that]] by (auto simp: fx_def simp flip: of_nat_less_iff)
  consider "is_infinite a" "is_infinite b" | "is_infinite a" "\<not> is_infinite b"
    | "\<not> is_infinite a" "is_infinite b" | "\<not> is_infinite a" "\<not> is_infinite b" by blast
  then show ?thesis
  proof cases
    case 1
    with assms(1) have "f64_neg_sign a = f64_neg_sign b"
      by (auto simp: f64_rank_def split: if_splits)
    with 1 show ?thesis by (auto simp: is_infinite_def intro: f64_ext)
  next
    case 2
    with bound [of b] assms show ?thesis by (auto simp: f64_rank_def split: if_splits)
  next
    case 3
    with bound [of a] assms show ?thesis by (auto simp: f64_rank_def split: if_splits)
  next
    case 4
    with assms(1) fx_inject [of a b] show ?thesis by (auto simp: f64_rank_def)
  qed
qed

text \<open>Equations that evaluate the operations on concrete bit patterns.\<close>

lemmas f64_eval = is_nan_def is_infinite_def is_finite_def f64_exp_def f64_frac_def
  f64_neg_sign_def fx_def fx_abs_def f64_rank_def f64_eq_def f64_lt_def f64_le_def
  f64_sign_bit_def f64_zero_def f64_nan_def f64_inf_def unsigned_minus_1_eq_mask
  mask_eq_exp_minus_1

lemmas f64_round_eval = f64_of_i64_def f64_of_int_def round_q_def round_half_even_def
  bit_len.simps Let_def f64_sign_bit_def

end
