(* ===== verification/Externals.thy ===== *)
theory Externals
  imports Float64
begin

text \<open>
  The third-party crates the engine calls, as parameters of the model.

  The data types that cross the boundary are declared here: \<open>json\<close> has the constructors of
  \<open>serde_json::Value\<close>, an \<open>ndarray\<close> is what \<open>shape()\<close> and \<open>iter()\<close> of \<open>ndarray::ArrayD\<close> show,
  a Python object is its reference. Each crate is a record of functions, and \<open>externals\<close>
  collects the records; definitions of the model take it as their argument \<open>X\<close>. Nothing is
  known about these functions except what a theorem assumes of them, by one of the contracts
  defined below, each of which states documented behaviour of the crate. \<open>example_externals\<close>
  is an instance of the parameters that satisfies every contract.

  Three functions of the standard library are parameters as well, because their
  results are tables or unspecified: \<open>f64::powf\<close> (precision not specified), the decimal
  printing and parsing of \<open>f64\<close>, and Unicode lower case and escaping.
\<close>

section \<open>Data of the crates\<close>

datatype json_number = PosInt u64 | NegInt i64 | FloatNumber f64

datatype json =
    JNull
  | JBool bool
  | JNumber json_number
  | JString string
  | JArray "json list"
  | JObject "(string \<times> json) list"

datatype 'a ndarray = NDArray (nd_shape: "nat list") (nd_elems: "'a list")

type_synonym py_object = u64

text \<open>\<open>chrono::NaiveDateTime\<close>: seconds since the epoch and nanosecond of the second.\<close>

datatype naive_date_time = NaiveDT i64 u32

datatype date_field = Nanosecond | Second | Minute | Hour | Day | Month | Weekday

datatype duration_unit =
  Nanoseconds | Microseconds | Milliseconds | Seconds | Minutes | Hours | Days | Weeks

text \<open>\<open>chrono::LocalResult\<close> of zoned times, each given by its \<open>timestamp_nanos_opt\<close>.\<close>

datatype local_result = LSingle "i64 option" | LAmbiguous "i64 option" "i64 option" | LNone

section \<open>The crates\<close>

record json_crate =
  json_to_string :: "json \<Rightarrow> string"
  json_from_str :: "string \<Rightarrow> json option"
  json_get_index :: "json \<Rightarrow> nat \<Rightarrow> json option"
  json_get_key :: "json \<Rightarrow> string \<Rightarrow> json option"
  json_pointer :: "json \<Rightarrow> string \<Rightarrow> json option"
  json_is_null :: "json \<Rightarrow> bool"
  json_as_u64 :: "json \<Rightarrow> u64 option"
  json_as_i64 :: "json \<Rightarrow> i64 option"
  json_as_f64 :: "json \<Rightarrow> f64 option"
  json_as_bool :: "json \<Rightarrow> bool option"
  json_as_str :: "json \<Rightarrow> string option"
  json_of_i64 :: "i64 \<Rightarrow> json"
  json_of_f64 :: "f64 \<Rightarrow> json"

record chrono_crate =
  chrono_from_timestamp :: "i64 \<Rightarrow> u32 \<Rightarrow> naive_date_time option"
  chrono_timestamp_nanos :: "naive_date_time \<Rightarrow> i64 option"
  chrono_field :: "date_field \<Rightarrow> naive_date_time \<Rightarrow> u32"
  chrono_year :: "naive_date_time \<Rightarrow> i32"
  chrono_duration_round :: "naive_date_time \<Rightarrow> i64 \<Rightarrow> naive_date_time option"
  chrono_duration_trunc :: "naive_date_time \<Rightarrow> i64 \<Rightarrow> naive_date_time option"
  chrono_add :: "naive_date_time \<Rightarrow> i64 \<Rightarrow> naive_date_time option"
  chrono_duration_num :: "duration_unit \<Rightarrow> i64 \<Rightarrow> i64 option"
  chrono_format :: "naive_date_time \<Rightarrow> string \<Rightarrow> string option"
  chrono_utc_format :: "i64 \<Rightarrow> string \<Rightarrow> string option"

record chrono_parse =
  parse_naive_date_time :: "string \<Rightarrow> string \<Rightarrow> naive_date_time option"
  parse_date_at_midnight :: "string \<Rightarrow> string \<Rightarrow> naive_date_time option"
  parse_time_in_1900 :: "string \<Rightarrow> string \<Rightarrow> naive_date_time option"
  parse_date_time :: "string \<Rightarrow> string \<Rightarrow> i64 option option"
  parse_timezone :: "string \<Rightarrow> nat option"
  tz_from_local :: "nat \<Rightarrow> naive_date_time \<Rightarrow> local_result"
  tz_from_utc :: "nat \<Rightarrow> naive_date_time \<Rightarrow> naive_date_time"

record ndarray_crate =
  i64_index_axis0 :: "i64 ndarray \<Rightarrow> nat \<Rightarrow> i64 ndarray"
  f64_index_axis0 :: "f64 ndarray \<Rightarrow> nat \<Rightarrow> f64 ndarray"
  i64_dot :: "i64 ndarray \<Rightarrow> i64 ndarray \<Rightarrow> i64 ndarray"
  f64_dot :: "f64 ndarray \<Rightarrow> f64 ndarray \<Rightarrow> f64 ndarray"
  i64_array_display :: "i64 ndarray \<Rightarrow> string"
  f64_array_display :: "f64 ndarray \<Rightarrow> string"

record std_tables =
  f64_powf :: "f64 \<Rightarrow> f64 \<Rightarrow> f64"
  f64_display :: "f64 \<Rightarrow> string"
  f64_debug :: "f64 \<Rightarrow> string"
  f64_from_str :: "string \<Rightarrow> f64 option"
  str_to_lowercase :: "string \<Rightarrow> string"
  str_debug :: "string \<Rightarrow> string"

record externals =
  digest128 :: "byte list \<Rightarrow> u128"
  base32_encode :: "byte list \<Rightarrow> string"
  ordered_float_cmp :: "f64 \<Rightarrow> f64 \<Rightarrow> int"
  int_div_floor :: "i64 \<Rightarrow> i64 \<Rightarrow> i64 option"
  int_mod_floor :: "i64 \<Rightarrow> i64 \<Rightarrow> i64 option"
  py_as_bytes :: "py_object \<Rightarrow> byte list option"
  py_display :: "py_object \<Rightarrow> string"
  x_json :: json_crate
  x_chrono :: chrono_crate
  x_parse :: chrono_parse
  x_nd :: ndarray_crate
  x_std :: std_tables

section \<open>Contracts\<close>

text \<open>ordered\_float: the order of the numbers, with every NaN equal to every NaN and greater
  than every number.\<close>

definition ordered_float_spec :: "f64 \<Rightarrow> f64 \<Rightarrow> int" where
  "ordered_float_spec a b =
     (if is_nan a then (if is_nan b then 0 else 1)
      else if is_nan b then -1
      else sgn (f64_rank a - f64_rank b))"

definition ordered_float_contract :: "externals \<Rightarrow> bool" where
  "ordered_float_contract X \<longleftrightarrow> (\<forall>a b. ordered_float_cmp X a b = ordered_float_spec a b)"

text \<open>num\_integer: floored division and the modulus with the sign of the divisor; a panic
  (None) when the divisor is zero and where the machine division overflows.\<close>

definition floor_div_spec :: "i64 \<Rightarrow> i64 \<Rightarrow> i64 option" where
  "floor_div_spec a b =
     (if b = 0 \<or> (sint a = i64_min \<and> sint b = -1) then None
      else Some (word_of_int (sint a div sint b)))"

definition floor_mod_spec :: "i64 \<Rightarrow> i64 \<Rightarrow> i64 option" where
  "floor_mod_spec a b =
     (if b = 0 \<or> (sint a = i64_min \<and> sint b = -1) then None
      else Some (word_of_int (sint a mod sint b)))"

definition num_integer_contract :: "externals \<Rightarrow> bool" where
  "num_integer_contract X \<longleftrightarrow>
     (\<forall>a b. int_div_floor X a b = floor_div_spec a b \<and> int_mod_floor X a b = floor_mod_spec a b)"

text \<open>serde\_json: a number is read as \<open>u64\<close> when it is a non-negative integer, as \<open>i64\<close> when it is a
  negative one; an integer and a finite float become numbers, a float that is not finite becomes null.\<close>

definition json_number_contract :: "externals \<Rightarrow> bool" where
  "json_number_contract X \<longleftrightarrow>
     (\<forall>n. json_as_u64 (x_json X) (JNumber (PosInt n)) = Some n)
     \<and> (\<forall>i. json_as_u64 (x_json X) (JNumber (NegInt i)) = None \<and> json_as_i64 (x_json X) (JNumber (NegInt i)) = Some i)
     \<and> (\<forall>f. json_as_u64 (x_json X) (JNumber (FloatNumber f)) = None
          \<and> json_as_i64 (x_json X) (JNumber (FloatNumber f)) = None
          \<and> json_as_f64 (x_json X) (JNumber (FloatNumber f)) = Some f)
     \<and> (\<forall>i. json_of_i64 (x_json X) i = JNumber (if sint i < 0 then NegInt i else PosInt i))
     \<and> (\<forall>f. json_of_f64 (x_json X) f = (if is_finite f then JNumber (FloatNumber f) else JNull))"

text \<open>chrono: a duration counts whole units, truncating towards zero.\<close>

fun unit_nanos :: "duration_unit \<Rightarrow> int" where
  "unit_nanos Nanoseconds = 1"
| "unit_nanos Microseconds = 1000"
| "unit_nanos Milliseconds = 1000000"
| "unit_nanos Seconds = 1000000000"
| "unit_nanos Minutes = 60 * 1000000000"
| "unit_nanos Hours = 3600 * 1000000000"
| "unit_nanos Days = 24 * 3600 * 1000000000"
| "unit_nanos Weeks = 7 * 24 * 3600 * 1000000000"

definition chrono_duration_contract :: "externals \<Rightarrow> bool" where
  "chrono_duration_contract X \<longleftrightarrow>
     (\<forall>u d. chrono_duration_num (x_chrono X) u d
        = Some (word_of_int (trunc_div (sint d) (unit_nanos u))))"

text \<open>chrono: every time whose seconds are in the range of an \<open>i64\<close> count of nanoseconds is
  representable, the nanosecond field of the result is the argument, and reading the time
  back gives the same count.\<close>

definition chrono_timestamp_contract :: "externals \<Rightarrow> bool" where
  "chrono_timestamp_contract X \<longleftrightarrow>
     (\<forall>s n. unat n < 1000000000 \<longrightarrow> in_i64 (sint s * 1000000000 + uint n) \<longrightarrow>
        (\<exists>dt. chrono_from_timestamp (x_chrono X) s n = Some dt
           \<and> chrono_field (x_chrono X) Nanosecond dt = n
           \<and> chrono_timestamp_nanos (x_chrono X) dt
               = Some (word_of_int (sint s * 1000000000 + uint n))))"

section \<open>An instance of the parameters\<close>

text \<open>Concrete functions for the witnesses: the contracts above hold of them.\<close>

definition example_json :: json_crate where
  "example_json = \<lparr>
     json_to_string = (\<lambda>j. case j of JNull \<Rightarrow> ''null'' | JBool b \<Rightarrow> (if b then ''true'' else ''false'')
       | JString s \<Rightarrow> s | _ \<Rightarrow> ''?''),
     json_from_str = (\<lambda>s. if s = ''null'' then Some JNull else None),
     json_get_index = (\<lambda>j i. case j of JArray js \<Rightarrow> nth_opt js i | _ \<Rightarrow> None),
     json_get_key = (\<lambda>j k. case j of JObject kvs \<Rightarrow> map_of kvs k | _ \<Rightarrow> None),
     json_pointer = (\<lambda>j p. case j of JObject kvs \<Rightarrow> map_of kvs (tl p) | _ \<Rightarrow> None),
     json_is_null = (\<lambda>j. j = JNull),
     json_as_u64 = (\<lambda>j. case j of JNumber (PosInt n) \<Rightarrow> Some n | _ \<Rightarrow> None),
     json_as_i64 = (\<lambda>j. case j of JNumber (NegInt i) \<Rightarrow> Some i
       | JNumber (PosInt n) \<Rightarrow> (if uint n \<le> i64_max then Some n else None) | _ \<Rightarrow> None),
     json_as_f64 = (\<lambda>j. case j of JNumber (FloatNumber f) \<Rightarrow> Some f
       | JNumber (PosInt n) \<Rightarrow> Some (f64_of_int (uint n))
       | JNumber (NegInt i) \<Rightarrow> Some (f64_of_int (sint i)) | _ \<Rightarrow> None),
     json_as_bool = (\<lambda>j. case j of JBool b \<Rightarrow> Some b | _ \<Rightarrow> None),
     json_as_str = (\<lambda>j. case j of JString s \<Rightarrow> Some s | _ \<Rightarrow> None),
     json_of_i64 = (\<lambda>i. JNumber (if sint i < 0 then NegInt i else PosInt i)),
     json_of_f64 = (\<lambda>f. if is_finite f then JNumber (FloatNumber f) else JNull)\<rparr>"

definition example_chrono :: chrono_crate where
  "example_chrono = \<lparr>
     chrono_from_timestamp = (\<lambda>s n. if unat n < 1000000000 then Some (NaiveDT s n) else None),
     chrono_timestamp_nanos = (\<lambda>dt. case dt of NaiveDT s n \<Rightarrow>
       (let t = sint s * 1000000000 + uint n in if in_i64 t then Some (word_of_int t) else None)),
     chrono_field = (\<lambda>f dt. case dt of NaiveDT s n \<Rightarrow> (case f of Nanosecond \<Rightarrow> n | _ \<Rightarrow> 0)),
     chrono_year = (\<lambda>dt. 1970),
     chrono_duration_round = (\<lambda>dt d. if d = 0 then None else Some dt),
     chrono_duration_trunc = (\<lambda>dt d. if d = 0 then None else Some dt),
     chrono_add = (\<lambda>dt d. Some dt),
     chrono_duration_num = (\<lambda>u d. Some (word_of_int (trunc_div (sint d) (unit_nanos u)))),
     chrono_format = (\<lambda>dt f. Some f),
     chrono_utc_format = (\<lambda>t f. Some f)\<rparr>"

definition example_parse :: chrono_parse where
  "example_parse = \<lparr>
     parse_naive_date_time = (\<lambda>s f. None),
     parse_date_at_midnight = (\<lambda>s f. None),
     parse_time_in_1900 = (\<lambda>s f. None),
     parse_date_time = (\<lambda>s f. None),
     parse_timezone = (\<lambda>s. if s = ''UTC'' then Some 0 else None),
     tz_from_local = (\<lambda>tz dt. LNone),
     tz_from_utc = (\<lambda>tz dt. dt)\<rparr>"

definition example_nd :: ndarray_crate where
  "example_nd = \<lparr>
     i64_index_axis0 = (\<lambda>a i. NDArray (tl (nd_shape a))
       (let n = prod_list (tl (nd_shape a)) in take n (drop (i * n) (nd_elems a)))),
     f64_index_axis0 = (\<lambda>a i. NDArray (tl (nd_shape a))
       (let n = prod_list (tl (nd_shape a)) in take n (drop (i * n) (nd_elems a)))),
     i64_dot = (\<lambda>a b. NDArray [] [0]),
     f64_dot = (\<lambda>a b. NDArray [] [0]),
     i64_array_display = (\<lambda>a. ''[]''),
     f64_array_display = (\<lambda>a. ''[]'')\<rparr>"

definition example_std :: std_tables where
  "example_std = \<lparr>
     f64_powf = (\<lambda>a b. a),
     f64_display = (\<lambda>a. show_int (fx a)),
     f64_debug = (\<lambda>a. show_int (fx a)),
     f64_from_str = (\<lambda>s. map_option f64_of_int (parse_signed 64 s)),
     str_to_lowercase = to_ascii_lowercase,
     str_debug = (\<lambda>s. s)\<rparr>"

definition example_externals :: externals where
  "example_externals = \<lparr>
     digest128 = (\<lambda>bs. foldr (\<lambda>b h. h * 257 + ucast b + 1) bs 0),
     base32_encode = (\<lambda>bs. map (\<lambda>b. char_of (unat b)) bs),
     ordered_float_cmp = ordered_float_spec,
     int_div_floor = floor_div_spec,
     int_mod_floor = floor_mod_spec,
     py_as_bytes = (\<lambda>p. Some (le_bytes 8 p)),
     py_display = (\<lambda>p. ''object''),
     x_json = example_json, x_chrono = example_chrono, x_parse = example_parse,
     x_nd = example_nd, x_std = example_std\<rparr>"

lemma example_json_number_contract: "json_number_contract example_externals"
  by (simp add: json_number_contract_def example_externals_def example_json_def)

lemma example_contracts:
  "ordered_float_contract example_externals" "num_integer_contract example_externals"
  "chrono_duration_contract example_externals" "chrono_timestamp_contract example_externals"
  by (simp_all add: ordered_float_contract_def num_integer_contract_def chrono_duration_contract_def
      chrono_timestamp_contract_def example_externals_def example_chrono_def Let_def)

section \<open>The contracts give the laws the engine relies on\<close>

lemma ordered_float_spec_refl [simp]: "ordered_float_spec a a = 0"
  by (simp add: ordered_float_spec_def)

lemma ordered_float_spec_antisym: "ordered_float_spec b a = - ordered_float_spec a b"
proof -
  have "sgn (f64_rank b - f64_rank a) = - sgn (f64_rank a - f64_rank b)"
    by (metis minus_diff_eq sgn_minus)
  then show ?thesis by (simp add: ordered_float_spec_def)
qed

lemma ordered_float_spec_trans:
  "ordered_float_spec a b \<le> 0 \<Longrightarrow> ordered_float_spec b c \<le> 0 \<Longrightarrow> ordered_float_spec a c \<le> 0"
  by (auto simp: ordered_float_spec_def sgn_if split: if_splits)

lemma ordered_float_spec_eq_0:
  "ordered_float_spec a b = 0 \<longleftrightarrow> (is_nan a \<and> is_nan b) \<or> f64_eq a b"
  by (auto simp: ordered_float_spec_def f64_eq_def sgn_0_0)

lemma floor_div_mod:
  assumes "floor_div_spec a b = Some q" and "floor_mod_spec a b = Some r"
  shows "q * b + r = a"
proof -
  have "sint a div sint b * sint b + sint a mod sint b = sint a" by simp
  then have "word_of_int (sint a div sint b) * word_of_int (sint b) + word_of_int (sint a mod sint b)
      = (word_of_int (sint a) :: 64 word)"
    by (metis wi_hom_add wi_hom_mult)
  with assms show ?thesis by (auto simp: floor_div_spec_def floor_mod_spec_def split: if_splits)
qed

end
