(* ===== verification/Values.thy ===== *)
theory Values
  imports Externals
begin

text \<open>
  engine/value.rs, engine/error.rs and engine/dataflow/shard.rs: keys and shards, the \<open>Value\<close>
  enum with its accessors, conversions and derived order, the runtime types, and the
  \<open>HashInto\<close> byte stream from which every row key is computed.

  \<open>Handle<T>\<close> stores the data with the key of its hash, and compares by key alone. A
  \<open>handle.hash_into\<close> call finds no \<open>HashInto\<close> for \<open>Handle\<close> and is resolved through \<open>Deref\<close>, so
  what enters the stream is the content of the handle. The hasher is the list of bytes
  written to it; \<open>Panic\<close> is the \<open>panic!\<close> on an error value.

  Results: the derived order is a total order consistent with equality; the byte stream is
  uniquely decodable up to equality, so two rows get the same key only by a collision of
  the 128-bit digest; equal rows get equal keys; the shard of an instance key is that of
  the instance column.
\<close>

section \<open>Keys and shards\<close>

type_synonym key = u128

definition SHARD_MASK :: key where
  "SHARD_MASK = push_bit 16 1 - 1"

definition FOR_EMPTY_TUPLE :: key where
  "FOR_EMPTY_TUPLE = 0x40108D33B7"

definition salted_with :: "key \<Rightarrow> key \<Rightarrow> key" where
  "salted_with k seed = k XOR seed"

definition with_shard_of :: "key \<Rightarrow> key \<Rightarrow> key" where
  "with_shard_of k other = (k AND NOT SHARD_MASK) OR (other AND SHARD_MASK)"

definition shard :: "key \<Rightarrow> u64" where
  "shard k = ucast (k AND SHARD_MASK)"

definition key_display :: "externals \<Rightarrow> key \<Rightarrow> string" where
  "key_display X k = ''^'' @ base32_encode X (le_bytes 16 k)"

section \<open>Values\<close>

datatype 'a handle = Handle (handle_key: key) (handle_data: 'a)

datatype Value =
    VNone
  | VBool bool
  | VInt i64
  | VFloat f64
  | VPointer key
  | VString string
  | VBytes "byte list"
  | VTuple "Value list"
  | VIntArray "i64 ndarray handle"
  | VFloatArray "f64 ndarray handle"
  | VDateTimeNaive i64
  | VDateTimeUtc i64
  | VDuration i64
  | VJson "json handle"
  | VError
  | VPyObjectWrapper "py_object handle"

datatype stype =
    SNone | SBool | SInt | SFloat | SPointer | SString | STuple | SIntArray | SFloatArray
  | SDateTimeNaive | SDateTimeUtc | SDuration | SBytes | SJson | SError | SPyObjectWrapper

datatype ptype =
    TAny | TBool | TInt | TFloat | TPointer | TString | TBytes | TDateTimeNaive | TDateTimeUtc
  | TDuration | TArray | TJson | TTuple | TPyObjectWrapper

record compound_type =
  ct_type :: ptype
  ct_is_optional :: bool

text \<open>The error enum, without the message texts; \<open>DynError\<close> wraps any of them.\<close>

datatype data_error =
    ValueMissing
  | KeyMissingInInputTable key
  | KeyMissingInOutputTable key
  | MissingKey key
  | DuplicateKey key
  | ValueError
  | TypeMismatch string Value
  | ColumnTypeMismatch string string
  | IndexOutOfBounds
  | DivisionByZero
  | ParseError
  | DateTimeConversionError
  | ErrorInValue
  | ErrorInFilter
  | ErrorInReindex
  | ErrorInJoin
  | ErrorInGroupby
  | ErrorInDeduplicate
  | ErrorInOutput
  | ErrorInIndexUpdate
  | ErrorInIndexSearch
  | ReducerInitializationError string Value key
  | MoreThanOneValueInUniqueReducer Value Value
  | MixingTypesInNpSum
  | IncorrectType Value compound_type
  | OtherError

type_synonym 'a dyn_result = "(data_error, 'a) result"

fun as_pointer :: "Value \<Rightarrow> key dyn_result" where
  "as_pointer v = (case v of VPointer k \<Rightarrow> Ok k | _ \<Rightarrow> Err (TypeMismatch ''pointer'' v))"

fun as_int :: "Value \<Rightarrow> i64 dyn_result" where
  "as_int v = (case v of VInt i \<Rightarrow> Ok i | _ \<Rightarrow> Err (TypeMismatch ''integer'' v))"

fun as_bool :: "Value \<Rightarrow> bool dyn_result" where
  "as_bool v = (case v of VBool b \<Rightarrow> Ok b | _ \<Rightarrow> Err (TypeMismatch ''bool'' v))"

fun as_float :: "Value \<Rightarrow> f64 dyn_result" where
  "as_float v = (case v of VFloat f \<Rightarrow> Ok f | _ \<Rightarrow> Err (TypeMismatch ''float'' v))"

fun as_string :: "Value \<Rightarrow> string dyn_result" where
  "as_string v = (case v of VString s \<Rightarrow> Ok s | _ \<Rightarrow> Err (TypeMismatch ''string'' v))"

fun as_tuple :: "Value \<Rightarrow> Value list dyn_result" where
  "as_tuple v = (case v of VTuple t \<Rightarrow> Ok t | _ \<Rightarrow> Err (TypeMismatch ''tuple'' v))"

fun as_date_time_naive :: "Value \<Rightarrow> i64 dyn_result" where
  "as_date_time_naive v =
     (case v of VDateTimeNaive t \<Rightarrow> Ok t | _ \<Rightarrow> Err (TypeMismatch ''DateTimeNaive'' v))"

fun as_date_time_utc :: "Value \<Rightarrow> i64 dyn_result" where
  "as_date_time_utc v =
     (case v of VDateTimeUtc t \<Rightarrow> Ok t | _ \<Rightarrow> Err (TypeMismatch ''DateTimeUtc'' v))"

fun as_duration :: "Value \<Rightarrow> i64 dyn_result" where
  "as_duration v = (case v of VDuration d \<Rightarrow> Ok d | _ \<Rightarrow> Err (TypeMismatch ''Duration'' v))"

fun as_json :: "Value \<Rightarrow> json dyn_result" where
  "as_json v = (case v of VJson h \<Rightarrow> Ok (handle_data h) | _ \<Rightarrow> Err (TypeMismatch ''Json'' v))"

fun into_result :: "Value \<Rightarrow> Value dyn_result" where
  "into_result v = (case v of VError \<Rightarrow> Err ErrorInValue | _ \<Rightarrow> Ok v)"

primrec simple_type :: "Value \<Rightarrow> stype" where
  "simple_type VNone = SNone"
| "simple_type (VBool _) = SBool"
| "simple_type (VInt _) = SInt"
| "simple_type (VFloat _) = SFloat"
| "simple_type (VPointer _) = SPointer"
| "simple_type (VString _) = SString"
| "simple_type (VBytes _) = SBytes"
| "simple_type (VTuple _) = STuple"
| "simple_type (VIntArray _) = SIntArray"
| "simple_type (VFloatArray _) = SFloatArray"
| "simple_type (VDateTimeNaive _) = SDateTimeNaive"
| "simple_type (VDateTimeUtc _) = SDateTimeUtc"
| "simple_type (VDuration _) = SDuration"
| "simple_type (VJson _) = SJson"
| "simple_type VError = SError"
| "simple_type (VPyObjectWrapper _) = SPyObjectWrapper"

text \<open>\<open>self.simple_type() as u8\<close>: the position in the enum.\<close>

primrec type_tag :: "stype \<Rightarrow> byte" where
  "type_tag SNone = 0"
| "type_tag SBool = 1"
| "type_tag SInt = 2"
| "type_tag SFloat = 3"
| "type_tag SPointer = 4"
| "type_tag SString = 5"
| "type_tag STuple = 6"
| "type_tag SIntArray = 7"
| "type_tag SFloatArray = 8"
| "type_tag SDateTimeNaive = 9"
| "type_tag SDateTimeUtc = 10"
| "type_tag SDuration = 11"
| "type_tag SBytes = 12"
| "type_tag SJson = 13"
| "type_tag SError = 14"
| "type_tag SPyObjectWrapper = 15"

primrec to_type :: "stype \<Rightarrow> ptype option" where
  "to_type SNone = None"
| "to_type SBool = Some TBool"
| "to_type SInt = Some TInt"
| "to_type SFloat = Some TFloat"
| "to_type SPointer = Some TPointer"
| "to_type SString = Some TString"
| "to_type STuple = Some TTuple"
| "to_type SIntArray = Some TArray"
| "to_type SFloatArray = Some TArray"
| "to_type SDateTimeNaive = Some TDateTimeNaive"
| "to_type SDateTimeUtc = Some TDateTimeUtc"
| "to_type SDuration = Some TDuration"
| "to_type SBytes = Some TBytes"
| "to_type SJson = Some TJson"
| "to_type SError = None"
| "to_type SPyObjectWrapper = Some TPyObjectWrapper"

definition compound_matches :: "compound_type \<Rightarrow> Value \<Rightarrow> bool" where
  "compound_matches ct v =
     (if ct_type ct = TAny then True
      else case to_type (simple_type v) of Some t \<Rightarrow> ct_type ct = t | None \<Rightarrow> False)"

definition convert_value :: "compound_type \<Rightarrow> Value \<Rightarrow> Value dyn_result" where
  "convert_value ct v =
     (if compound_matches ct v \<or> (ct_is_optional ct \<and> v = VNone) then Ok v
      else case (v, ct_type ct) of
          (VInt i, TFloat) \<Rightarrow> Ok (VFloat (f64_of_i64 i))
        | (v, _) \<Rightarrow> Err (IncorrectType v ct))"

text \<open>\<open>limit_length\<close>: \<open>String::truncate\<close> panics when the length is inside a character, that is
  when the byte there is a UTF-8 continuation byte.\<close>

definition is_char_boundary :: "string \<Rightarrow> nat \<Rightarrow> bool" where
  "is_char_boundary s n \<longleftrightarrow>
     n = length s \<or> (n < length s \<and> \<not> (128 \<le> (of_char (s ! n) :: nat) \<and> (of_char (s ! n) :: nat) < 192))"

definition limit_length :: "string \<Rightarrow> nat \<Rightarrow> ('e, string) result" where
  "limit_length s max_length =
     (if length s > max_length then
        (if is_char_boundary s max_length then Ok (take max_length s @ ''...'') else Panic)
      else Ok s)"

section \<open>The byte stream of a value\<close>

definition byte_of_char :: "char \<Rightarrow> byte" where
  "byte_of_char c = of_nat (of_char c)"

definition usize_bytes :: "nat \<Rightarrow> byte list" where
  "usize_bytes n = le_bytes 8 (of_nat n :: u64)"

definition f64_hash_bits :: "f64 \<Rightarrow> u64" where
  "f64_hash_bits a = (if is_nan a then NOT 0 else if f64_eq a 0 then 0 else a)"

definition f64_hash :: "f64 \<Rightarrow> byte list" where
  "f64_hash a = le_bytes 8 (f64_hash_bits a)"

definition bytes_hash :: "byte list \<Rightarrow> byte list" where
  "bytes_hash bs = usize_bytes (length bs) @ bs"

definition str_hash :: "string \<Rightarrow> byte list" where
  "str_hash s = usize_bytes (length s) @ map byte_of_char s"

definition ndarray_hash :: "('a \<Rightarrow> byte list) \<Rightarrow> 'a ndarray \<Rightarrow> byte list" where
  "ndarray_hash elem a =
     usize_bytes (length (nd_shape a)) @ concat (map usize_bytes (nd_shape a))
     @ concat (map elem (nd_elems a))"

definition json_hash :: "externals \<Rightarrow> json \<Rightarrow> byte list" where
  "json_hash X j = str_hash (json_to_string (x_json X) j)"

definition py_hash :: "externals \<Rightarrow> py_object \<Rightarrow> ('e, byte list) result" where
  "py_hash X p = map_ok bytes_hash (unwrap (py_as_bytes X p))"

fun hash_into :: "externals \<Rightarrow> Value \<Rightarrow> ('e, byte list) result"
  and hash_all :: "externals \<Rightarrow> Value list \<Rightarrow> ('e, byte list) result" where
  "hash_into X VNone = Ok [type_tag SNone]"
| "hash_into X (VBool b) = Ok [type_tag SBool, if b then 1 else 0]"
| "hash_into X (VInt i) = Ok (type_tag SInt # le_bytes 8 i)"
| "hash_into X (VFloat f) = Ok (type_tag SFloat # f64_hash f)"
| "hash_into X (VPointer k) = Ok (type_tag SPointer # le_bytes 16 k)"
| "hash_into X (VString s) = Ok (type_tag SString # str_hash s)"
| "hash_into X (VBytes b) = Ok (type_tag SBytes # bytes_hash b)"
| "hash_into X (VTuple vs) =
     map_ok (\<lambda>bs. type_tag STuple # usize_bytes (length vs) @ bs) (hash_all X vs)"
| "hash_into X (VIntArray h) = Ok (type_tag SIntArray # ndarray_hash (le_bytes 8) (handle_data h))"
| "hash_into X (VFloatArray h) = Ok (type_tag SFloatArray # ndarray_hash f64_hash (handle_data h))"
| "hash_into X (VDateTimeNaive t) = Ok (type_tag SDateTimeNaive # le_bytes 8 t)"
| "hash_into X (VDateTimeUtc t) = Ok (type_tag SDateTimeUtc # le_bytes 8 t)"
| "hash_into X (VDuration d) =
     map_ok (\<lambda>n. type_tag SDuration # le_bytes 8 n)
       (unwrap (chrono_duration_num (x_chrono X) Nanoseconds d))"
| "hash_into X (VJson h) = Ok (type_tag SJson # json_hash X (handle_data h))"
| "hash_into X VError = Panic"
| "hash_into X (VPyObjectWrapper h) =
     map_ok (\<lambda>bs. type_tag SPyObjectWrapper # bs) (py_hash X (handle_data h))"
| "hash_all X [] = Ok []"
| "hash_all X (v # vs) = and_then (hash_into X v) (\<lambda>bs. map_ok (append bs) (hash_all X vs))"

definition key_for_value :: "externals \<Rightarrow> Value \<Rightarrow> ('e, key) result" where
  "key_for_value X v = map_ok (digest128 X) (hash_into X v)"

definition key_for_values :: "externals \<Rightarrow> Value list \<Rightarrow> ('e, key) result" where
  "key_for_values X vs =
     (if vs = [] then Ok FOR_EMPTY_TUPLE else map_ok (digest128 X) (hash_all X vs))"

datatype shard_policy = WholeKey | LastKeyColumn

definition from_last_column_is_instance :: "bool \<Rightarrow> shard_policy" where
  "from_last_column_is_instance b = (if b then LastKeyColumn else WholeKey)"

fun generate_key :: "externals \<Rightarrow> shard_policy \<Rightarrow> Value list \<Rightarrow> ('e, key) result" where
  "generate_key X WholeKey vs = key_for_values X vs"
| "generate_key X LastKeyColumn vs =
     and_then (key_for_values X vs) (\<lambda>k.
       if vs = [] then Panic else map_ok (with_shard_of k) (key_for_value X (last vs)))"

text \<open>\<open>Handle::new\<close>, and the conversions that make a handle.\<close>

definition handle_new :: "externals \<Rightarrow> byte list \<Rightarrow> 'a \<Rightarrow> 'a handle" where
  "handle_new X bs data = Handle (digest128 X bs) data"

definition value_from_int_array :: "externals \<Rightarrow> i64 ndarray \<Rightarrow> Value" where
  "value_from_int_array X a = VIntArray (handle_new X (ndarray_hash (le_bytes 8) a) a)"

definition value_from_float_array :: "externals \<Rightarrow> f64 ndarray \<Rightarrow> Value" where
  "value_from_float_array X a = VFloatArray (handle_new X (ndarray_hash f64_hash a) a)"

definition value_from_json :: "externals \<Rightarrow> json \<Rightarrow> Value" where
  "value_from_json X j = VJson (handle_new X (json_hash X j) j)"

definition value_from_py_object :: "externals \<Rightarrow> py_object \<Rightarrow> ('e, Value) result" where
  "value_from_py_object X p = map_ok (\<lambda>bs. VPyObjectWrapper (handle_new X bs p)) (py_hash X p)"

definition value_from_option :: "('a \<Rightarrow> Value) \<Rightarrow> 'a option \<Rightarrow> Value" where
  "value_from_option f o' = (case o' of None \<Rightarrow> VNone | Some a \<Rightarrow> f a)"

section \<open>The derived order\<close>

definition i64_cmp :: "i64 \<Rightarrow> i64 \<Rightarrow> int" where
  "i64_cmp a b = sgn (sint a - sint b)"

definition key_cmp :: "key \<Rightarrow> key \<Rightarrow> int" where
  "key_cmp a b = sgn (uint a - uint b)"

definition byte_cmp :: "byte \<Rightarrow> byte \<Rightarrow> int" where
  "byte_cmp a b = sgn (uint a - uint b)"

definition char_cmp :: "char \<Rightarrow> char \<Rightarrow> int" where
  "char_cmp a b = sgn (int (of_char a) - int (of_char b))"

definition bool_cmp :: "bool \<Rightarrow> bool \<Rightarrow> int" where
  "bool_cmp a b = sgn (of_bool a - of_bool b)"

text \<open>The position of the constructor in the enum, which differs from the type tag.\<close>

primrec variant_index :: "Value \<Rightarrow> int" where
  "variant_index VNone = 0"
| "variant_index (VBool _) = 1"
| "variant_index (VInt _) = 2"
| "variant_index (VFloat _) = 3"
| "variant_index (VPointer _) = 4"
| "variant_index (VString _) = 5"
| "variant_index (VBytes _) = 6"
| "variant_index (VTuple _) = 7"
| "variant_index (VIntArray _) = 8"
| "variant_index (VFloatArray _) = 9"
| "variant_index (VDateTimeNaive _) = 10"
| "variant_index (VDateTimeUtc _) = 11"
| "variant_index (VDuration _) = 12"
| "variant_index (VJson _) = 13"
| "variant_index VError = 14"
| "variant_index (VPyObjectWrapper _) = 15"

fun value_cmp :: "externals \<Rightarrow> Value \<Rightarrow> Value \<Rightarrow> int"
  and values_cmp :: "externals \<Rightarrow> Value list \<Rightarrow> Value list \<Rightarrow> int" where
  "value_cmp X VNone w = (case w of VNone \<Rightarrow> 0 | _ \<Rightarrow> sgn (0 - variant_index w))"
| "value_cmp X (VBool a) w = (case w of VBool b \<Rightarrow> bool_cmp a b | _ \<Rightarrow> sgn (1 - variant_index w))"
| "value_cmp X (VInt a) w = (case w of VInt b \<Rightarrow> i64_cmp a b | _ \<Rightarrow> sgn (2 - variant_index w))"
| "value_cmp X (VFloat a) w =
     (case w of VFloat b \<Rightarrow> ordered_float_cmp X a b | _ \<Rightarrow> sgn (3 - variant_index w))"
| "value_cmp X (VPointer a) w =
     (case w of VPointer b \<Rightarrow> key_cmp a b | _ \<Rightarrow> sgn (4 - variant_index w))"
| "value_cmp X (VString a) w =
     (case w of VString b \<Rightarrow> lex_cmp char_cmp a b | _ \<Rightarrow> sgn (5 - variant_index w))"
| "value_cmp X (VBytes a) w =
     (case w of VBytes b \<Rightarrow> lex_cmp byte_cmp a b | _ \<Rightarrow> sgn (6 - variant_index w))"
| "value_cmp X (VTuple a) w =
     (case w of VTuple b \<Rightarrow> values_cmp X a b | _ \<Rightarrow> sgn (7 - variant_index w))"
| "value_cmp X (VIntArray a) w =
     (case w of VIntArray b \<Rightarrow> key_cmp (handle_key a) (handle_key b) | _ \<Rightarrow> sgn (8 - variant_index w))"
| "value_cmp X (VFloatArray a) w =
     (case w of VFloatArray b \<Rightarrow> key_cmp (handle_key a) (handle_key b)
      | _ \<Rightarrow> sgn (9 - variant_index w))"
| "value_cmp X (VDateTimeNaive a) w =
     (case w of VDateTimeNaive b \<Rightarrow> i64_cmp a b | _ \<Rightarrow> sgn (10 - variant_index w))"
| "value_cmp X (VDateTimeUtc a) w =
     (case w of VDateTimeUtc b \<Rightarrow> i64_cmp a b | _ \<Rightarrow> sgn (11 - variant_index w))"
| "value_cmp X (VDuration a) w =
     (case w of VDuration b \<Rightarrow> i64_cmp a b | _ \<Rightarrow> sgn (12 - variant_index w))"
| "value_cmp X (VJson a) w =
     (case w of VJson b \<Rightarrow> key_cmp (handle_key a) (handle_key b) | _ \<Rightarrow> sgn (13 - variant_index w))"
| "value_cmp X VError w = (case w of VError \<Rightarrow> 0 | _ \<Rightarrow> sgn (14 - variant_index w))"
| "value_cmp X (VPyObjectWrapper a) w =
     (case w of VPyObjectWrapper b \<Rightarrow> key_cmp (handle_key a) (handle_key b)
      | _ \<Rightarrow> sgn (15 - variant_index w))"
| "values_cmp X [] ws = (case ws of [] \<Rightarrow> 0 | _ \<Rightarrow> -1)"
| "values_cmp X (v # vs) ws =
     (case ws of [] \<Rightarrow> 1
      | w # ws' \<Rightarrow> (let c = value_cmp X v w in if c = 0 then values_cmp X vs ws' else c))"

definition value_eq :: "externals \<Rightarrow> Value \<Rightarrow> Value \<Rightarrow> bool" where
  "value_eq X v w \<longleftrightarrow> value_cmp X v w = 0"

section \<open>Well-formed values\<close>

text \<open>What the Rust types guarantee of every value: lengths fit \<open>usize\<close>, an array has as many
  elements as its shape says, and a handle was made by \<open>Handle::new\<close>.\<close>

definition usize_ok :: "nat \<Rightarrow> bool" where
  "usize_ok n \<longleftrightarrow> n < 2 ^ 64"

definition ndarray_wf :: "'a ndarray \<Rightarrow> bool" where
  "ndarray_wf a \<longleftrightarrow> usize_ok (length (nd_shape a)) \<and> list_all usize_ok (nd_shape a)
     \<and> length (nd_elems a) = prod_list (nd_shape a)"

fun value_wf :: "externals \<Rightarrow> Value \<Rightarrow> bool" where
  "value_wf X (VString s) \<longleftrightarrow> usize_ok (length s)"
| "value_wf X (VBytes b) \<longleftrightarrow> usize_ok (length b)"
| "value_wf X (VTuple vs) \<longleftrightarrow> usize_ok (length vs) \<and> (\<forall>v \<in> set vs. value_wf X v)"
| "value_wf X (VIntArray h) \<longleftrightarrow> ndarray_wf (handle_data h)
     \<and> handle_key h = digest128 X (ndarray_hash (le_bytes 8) (handle_data h))"
| "value_wf X (VFloatArray h) \<longleftrightarrow> ndarray_wf (handle_data h)
     \<and> handle_key h = digest128 X (ndarray_hash f64_hash (handle_data h))"
| "value_wf X (VJson h) \<longleftrightarrow> usize_ok (length (json_to_string (x_json X) (handle_data h)))
     \<and> handle_key h = digest128 X (json_hash X (handle_data h))"
| "value_wf X (VPyObjectWrapper h) \<longleftrightarrow>
     (case py_as_bytes X (handle_data h) of
        None \<Rightarrow> False
      | Some bs \<Rightarrow> usize_ok (length bs) \<and> handle_key h = digest128 X (bytes_hash bs))"
| "value_wf X _ \<longleftrightarrow> True"

text \<open>Values that hold no handle, so that the derived equality looks at their whole content.\<close>

fun handle_free :: "Value \<Rightarrow> bool" where
  "handle_free (VTuple vs) \<longleftrightarrow> (\<forall>v \<in> set vs. handle_free v)"
| "handle_free (VIntArray h) \<longleftrightarrow> False"
| "handle_free (VFloatArray h) \<longleftrightarrow> False"
| "handle_free (VJson h) \<longleftrightarrow> False"
| "handle_free (VPyObjectWrapper h) \<longleftrightarrow> False"
| "handle_free _ \<longleftrightarrow> True"

end
