(* ===== verification/ValueLaws.thy ===== *)
theory ValueLaws
  imports Values
begin

text \<open>
  The laws of engine/value.rs: the derived order of \<open>Value\<close> is total, the \<open>HashInto\<close> stream is
  uniquely decodable up to the derived equality and depends only on it, keys and shards.
\<close>

section \<open>The order of values\<close>

interpretation i64_order: total_cmp i64_cmp
  using total_cmp_sgn [of sint] by (simp add: i64_cmp_def [abs_def])

interpretation key_order: total_cmp key_cmp
  using total_cmp_sgn [of uint] by (simp add: key_cmp_def [abs_def])

interpretation byte_order: total_cmp byte_cmp
  using total_cmp_sgn [of uint] by (simp add: byte_cmp_def [abs_def])

interpretation char_order: total_cmp char_cmp
  using total_cmp_sgn [of "\<lambda>c. int (of_char c)"] by (simp add: char_cmp_def [abs_def])

interpretation bool_order: total_cmp bool_cmp
  using total_cmp_sgn [of "of_bool"] by (simp add: bool_cmp_def [abs_def])

interpretation string_order: total_cmp "lex_cmp char_cmp"
  by (rule char_order.lex_total)

interpretation bytes_order: total_cmp "lex_cmp byte_cmp"
  by (rule byte_order.lex_total)

interpretation float_order: total_cmp ordered_float_spec
  by unfold_locales
    (simp, rule ordered_float_spec_antisym, rule ordered_float_spec_trans)

lemma i64_cmp_eq_0: "i64_cmp a b = 0 \<longleftrightarrow> a = b"
  by (auto simp: i64_cmp_def sgn_0_0 intro: signed_word_eqI)

lemma key_cmp_eq_0: "key_cmp a b = 0 \<longleftrightarrow> a = b"
  by (auto simp: key_cmp_def sgn_0_0 word_uint_eq_iff)

lemma bool_cmp_eq_0: "bool_cmp a b = 0 \<longleftrightarrow> a = b"
  by (cases a; cases b) (auto simp: bool_cmp_def)

lemma lex_cmp_eq_0:
  assumes "\<And>a b. c a b = 0 \<longleftrightarrow> a = b" shows "lex_cmp c xs ys = 0 \<longleftrightarrow> xs = ys"
  by (induction xs ys rule: list_induct2') (auto simp: assms)

lemma string_cmp_eq_0: "lex_cmp char_cmp a b = 0 \<longleftrightarrow> a = b"
  by (rule lex_cmp_eq_0) (auto simp: char_cmp_def sgn_0_0)

lemma bytes_cmp_eq_0: "lex_cmp byte_cmp a b = 0 \<longleftrightarrow> a = b"
  by (rule lex_cmp_eq_0) (auto simp: byte_cmp_def sgn_0_0 word_uint_eq_iff)

lemmas cmp_eq_0 = i64_cmp_eq_0 key_cmp_eq_0 bool_cmp_eq_0 string_cmp_eq_0 bytes_cmp_eq_0

lemma values_cmp_lex: "values_cmp X vs ws = lex_cmp (value_cmp X) vs ws"
proof (induction vs arbitrary: ws)
  case Nil
  then show ?case by (cases ws) auto
next
  case (Cons v vs)
  then show ?case by (cases ws) (auto simp: Let_def)
qed

lemma value_cmp_variant:
  "variant_index v \<noteq> variant_index w \<Longrightarrow> value_cmp X v w = sgn (variant_index v - variant_index w)"
  by (cases v; cases w; simp)

lemma value_cmp_refl:
  assumes "ordered_float_contract X" shows "value_cmp X v v = 0"
proof (induction v)
  case (VTuple vs)
  then show ?case by (simp add: values_cmp_lex lex_cmp_refl_on)
qed (use assms in \<open>simp_all add: cmp_eq_0 ordered_float_contract_def\<close>)

lemma value_cmp_antisym:
  assumes "ordered_float_contract X" shows "value_cmp X w v = - value_cmp X v w"
proof (induction v arbitrary: w)
  case (VTuple vs)
  then have "\<forall>x \<in> set vs. \<forall>y. value_cmp X y x = - value_cmp X x y" by blast
  then have "lex_cmp (value_cmp X) ys vs = - lex_cmp (value_cmp X) vs ys" for ys
    by (rule lex_cmp_antisym_on)
  then show ?case by (cases w) (simp_all add: values_cmp_lex)
next
  case (VFloat f)
  have "ordered_float_cmp X g f = - ordered_float_cmp X f g" for g
    using assms float_order.cmp_antisym [of g f] by (simp add: ordered_float_contract_def)
  then show ?case by (cases w) simp_all
next
  case (VBool b)
  show ?case by (cases w) (simp_all, rule bool_order.cmp_antisym)
next
  case (VString s)
  show ?case by (cases w) (simp_all, rule string_order.cmp_antisym)
next
  case (VBytes b)
  show ?case by (cases w) (simp_all, rule bytes_order.cmp_antisym)
qed (case_tac w; simp; rule i64_order.cmp_antisym key_order.cmp_antisym)+

lemma value_cmp_variant_le: "value_cmp X v w \<le> 0 \<Longrightarrow> variant_index v \<le> variant_index w"
  using value_cmp_variant [of v w X]
  by (cases "variant_index v = variant_index w") (auto simp: sgn_if split: if_splits)

text \<open>The induction step of transitivity, for values with one constructor.\<close>

lemma cmp_chain_valueI:
  assumes "\<And>y z. variant_index y = variant_index v \<Longrightarrow> variant_index z = variant_index v \<Longrightarrow>
     value_cmp X v y \<le> 0 \<Longrightarrow> value_cmp X y z \<le> 0 \<Longrightarrow>
     value_cmp X v z \<le> 0 \<and> (value_cmp X v z = 0 \<longrightarrow> value_cmp X v y = 0 \<and> value_cmp X y z = 0)"
  shows "cmp_chain (value_cmp X) v"
  unfolding cmp_chain_def
proof (intro allI impI)
  fix y z assume le: "value_cmp X v y \<le> 0 \<and> value_cmp X y z \<le> 0"
  then have vi: "variant_index v \<le> variant_index y" "variant_index y \<le> variant_index z"
    by (auto dest: value_cmp_variant_le)
  show "value_cmp X v z \<le> 0
      \<and> (value_cmp X v z = 0 \<longrightarrow> value_cmp X v y = 0 \<and> value_cmp X y z = 0)"
  proof (cases "variant_index v = variant_index z")
    case True
    with vi have "variant_index y = variant_index v" "variant_index z = variant_index v" by auto
    then show ?thesis using le by (intro assms) auto
  next
    case False
    with vi value_cmp_variant [OF False, of X] show ?thesis by simp
  qed
qed

lemma same_variant:
  "variant_index w = 0 \<longleftrightarrow> w = VNone" "variant_index w = 1 \<longleftrightarrow> (\<exists>b. w = VBool b)"
  "variant_index w = 2 \<longleftrightarrow> (\<exists>i. w = VInt i)" "variant_index w = 3 \<longleftrightarrow> (\<exists>f. w = VFloat f)"
  "variant_index w = 4 \<longleftrightarrow> (\<exists>k. w = VPointer k)" "variant_index w = 5 \<longleftrightarrow> (\<exists>s. w = VString s)"
  "variant_index w = 6 \<longleftrightarrow> (\<exists>b. w = VBytes b)" "variant_index w = 7 \<longleftrightarrow> (\<exists>t. w = VTuple t)"
  "variant_index w = 8 \<longleftrightarrow> (\<exists>h. w = VIntArray h)" "variant_index w = 9 \<longleftrightarrow> (\<exists>h. w = VFloatArray h)"
  "variant_index w = 10 \<longleftrightarrow> (\<exists>t. w = VDateTimeNaive t)"
  "variant_index w = 11 \<longleftrightarrow> (\<exists>t. w = VDateTimeUtc t)"
  "variant_index w = 12 \<longleftrightarrow> (\<exists>d. w = VDuration d)" "variant_index w = 13 \<longleftrightarrow> (\<exists>h. w = VJson h)"
  "variant_index w = 14 \<longleftrightarrow> w = VError" "variant_index w = 15 \<longleftrightarrow> (\<exists>h. w = VPyObjectWrapper h)"
  by (cases w; simp)+

lemma cmp_chain_leaf:
  assumes "total_cmp c" and "\<And>a b. value_cmp X (C a) (C b) = c (g a) (g b)"
    and "\<And>y. variant_index y = variant_index (C a) \<Longrightarrow> \<exists>b. y = C b"
  shows "cmp_chain (value_cmp X) (C a)"
proof (rule cmp_chain_valueI)
  fix y z assume "variant_index y = variant_index (C a)" "variant_index z = variant_index (C a)"
    and le: "value_cmp X (C a) y \<le> 0" "value_cmp X y z \<le> 0"
  with assms(3) obtain b d where yz: "y = C b" "z = C d" by blast
  have "c (g a) (g b) \<le> 0" "c (g b) (g d) \<le> 0" using le yz assms(2) by auto
  from cmp_chainD [OF total_cmp.chain [OF assms(1)] this] show "value_cmp X (C a) z \<le> 0
      \<and> (value_cmp X (C a) z = 0 \<longrightarrow> value_cmp X (C a) y = 0 \<and> value_cmp X y z = 0)"
    by (simp add: yz assms(2))
qed

lemma value_cmp_chain:
  assumes "ordered_float_contract X" shows "cmp_chain (value_cmp X) v"
proof (induction v)
  case (VTuple vs)
  then have vs: "cmp_chain (lex_cmp (value_cmp X)) vs" by (simp add: lex_cmp_chain_on)
  show ?case
  proof (rule cmp_chain_valueI)
    fix y z assume "variant_index y = variant_index (VTuple vs)"
      "variant_index z = variant_index (VTuple vs)"
      and le: "value_cmp X (VTuple vs) y \<le> 0" "value_cmp X y z \<le> 0"
    then obtain ys zs where yz: "y = VTuple ys" "z = VTuple zs" by (auto simp: same_variant)
    with le cmp_chainD [OF vs, of ys zs] show "value_cmp X (VTuple vs) z \<le> 0
        \<and> (value_cmp X (VTuple vs) z = 0 \<longrightarrow> value_cmp X (VTuple vs) y = 0 \<and> value_cmp X y z = 0)"
      by (simp add: values_cmp_lex)
  qed
next
  case (VFloat f)
  have "ordered_float_cmp X = ordered_float_spec"
    using assms by (auto simp: ordered_float_contract_def)
  then show ?case
    by (intro cmp_chain_leaf [OF float_order.total_cmp_axioms, where g = "\<lambda>x. x"])
      (simp_all add: same_variant)
next
  case VNone
  show ?case by (rule cmp_chain_valueI) (simp add: same_variant)
next
  case VError
  show ?case by (rule cmp_chain_valueI) (simp add: same_variant)
next
  case (VBool b)
  show ?case by (rule cmp_chain_leaf [OF bool_order.total_cmp_axioms, where g = "\<lambda>x. x"])
    (simp_all add: same_variant)
next
  case (VString s)
  show ?case by (rule cmp_chain_leaf [OF string_order.total_cmp_axioms, where g = "\<lambda>x. x"])
    (simp_all add: same_variant)
next
  case (VBytes s)
  show ?case by (rule cmp_chain_leaf [OF bytes_order.total_cmp_axioms, where g = "\<lambda>x. x"])
    (simp_all add: same_variant)
next
  case (VPointer k)
  show ?case by (rule cmp_chain_leaf [OF key_order.total_cmp_axioms, where g = "\<lambda>x. x"])
    (simp_all add: same_variant)
next
  case (VInt i)
  show ?case by (rule cmp_chain_leaf [OF i64_order.total_cmp_axioms, where g = "\<lambda>x. x"])
    (simp_all add: same_variant)
next
  case (VDateTimeNaive t)
  show ?case by (rule cmp_chain_leaf [OF i64_order.total_cmp_axioms, where g = "\<lambda>x. x"])
    (simp_all add: same_variant)
next
  case (VDateTimeUtc t)
  show ?case by (rule cmp_chain_leaf [OF i64_order.total_cmp_axioms, where g = "\<lambda>x. x"])
    (simp_all add: same_variant)
next
  case (VDuration d)
  show ?case by (rule cmp_chain_leaf [OF i64_order.total_cmp_axioms, where g = "\<lambda>x. x"])
    (simp_all add: same_variant)
next
  case (VIntArray h)
  show ?case by (rule cmp_chain_leaf [OF key_order.total_cmp_axioms, where g = handle_key])
    (simp_all add: same_variant)
next
  case (VFloatArray h)
  show ?case by (rule cmp_chain_leaf [OF key_order.total_cmp_axioms, where g = handle_key])
    (simp_all add: same_variant)
next
  case (VJson h)
  show ?case by (rule cmp_chain_leaf [OF key_order.total_cmp_axioms, where g = handle_key])
    (simp_all add: same_variant)
next
  case (VPyObjectWrapper h)
  show ?case by (rule cmp_chain_leaf [OF key_order.total_cmp_axioms, where g = handle_key])
    (simp_all add: same_variant)
qed

text \<open>C16. The order derived for \<open>Value\<close> is a total order whose equality is \<open>value_eq\<close>: it is
  reflexive, antisymmetric, transitive and total, with NaN included, given the documented order
  of \<open>OrderedFloat\<close>. Sorting and every min or max reducer rely on it.\<close>

theorem value_order_total:
  assumes "ordered_float_contract X"
  shows "total_cmp (value_cmp X)"
proof
  fix u v w
  show "value_cmp X v v = 0" using assms by (rule value_cmp_refl)
  show "value_cmp X w v = - value_cmp X v w" using assms by (rule value_cmp_antisym)
  show "value_cmp X u v \<le> 0 \<Longrightarrow> value_cmp X v w \<le> 0 \<Longrightarrow> value_cmp X u w \<le> 0"
    using value_cmp_chain [OF assms] by (rule cmp_chainD(1))
qed

theorem value_order_total_witness:
  "total_cmp (value_cmp example_externals)
   \<and> value_cmp example_externals (VTuple [VInt 3, VFloat f64_nan]) (VTuple [VInt 3, VString ''a'']) = -1"
  using value_order_total [OF example_contracts(1)]
  by (simp add: Let_def i64_order.cmp_refl)

section \<open>Decoding the byte stream\<close>

lemma le_bytes_8_inject: "le_bytes 8 (a :: 64 word) = le_bytes 8 b \<longleftrightarrow> a = b"
  using le_bytes_inject [where n = 8 and v = a and w = b] by auto

lemma le_bytes_16_inject: "le_bytes 16 (a :: 128 word) = le_bytes 16 b \<longleftrightarrow> a = b"
  using le_bytes_inject [where n = 16 and v = a and w = b] by auto

lemma byte_of_char_inject: "byte_of_char a = byte_of_char b \<longleftrightarrow> a = b"
proof -
  have "unat (byte_of_char c) = of_char c" for c
    by (simp add: byte_of_char_def unsigned_of_nat take_bit_eq_mod)
  then show ?thesis by (simp add: word_unat_eq_iff)
qed

lemma length_usize_bytes [simp]: "length (usize_bytes n) = 8"
  by (simp add: usize_bytes_def)

lemma length_f64_hash [simp]: "length (f64_hash a) = 8"
  by (simp add: f64_hash_def)

lemma usize_bytes_inject:
  assumes "usize_ok n" and "usize_ok m" shows "usize_bytes n = usize_bytes m \<longleftrightarrow> n = m"
proof
  assume "usize_bytes n = usize_bytes m"
  then have "unat (of_nat n :: 64 word) = unat (of_nat m :: 64 word)"
    by (simp only: usize_bytes_def le_bytes_8_inject)
  then show "n = m"
    using assms unfolding usize_ok_def by (simp only: unat_of_nat_u64)
qed simp

lemma usize_bytes_split:
  assumes "usize_ok n" and "usize_ok m"
  shows "usize_bytes n @ xs = usize_bytes m @ ys \<longleftrightarrow> n = m \<and> xs = ys"
  using assms by (simp add: usize_bytes_inject)

lemma bytes_hash_split:
  assumes "usize_ok (length a)" and "usize_ok (length b)"
  shows "bytes_hash a @ xs = bytes_hash b @ ys \<longleftrightarrow> a = b \<and> xs = ys"
  using assms by (auto simp: bytes_hash_def usize_bytes_inject)

lemma map_byte_of_char_inject: "map byte_of_char a = map byte_of_char b \<longleftrightarrow> a = b"
  by (rule inj_map_eq_map) (simp add: inj_def byte_of_char_inject)

lemma str_hash_split:
  assumes "usize_ok (length a)" and "usize_ok (length b)"
  shows "str_hash a @ xs = str_hash b @ ys \<longleftrightarrow> a = b \<and> xs = ys"
proof
  assume "str_hash a @ xs = str_hash b @ ys"
  then have "length a = length b \<and> map byte_of_char a @ xs = map byte_of_char b @ ys"
    unfolding str_hash_def append_assoc usize_bytes_split [OF assms] .
  then have "map byte_of_char a = map byte_of_char b \<and> xs = ys"
    by (intro same_length_prefix) simp_all
  then show "a = b \<and> xs = ys" by (simp only: map_byte_of_char_inject)
qed simp

lemma fixed_width_split:
  assumes "\<And>x. length (f x) = w" and "length as = length bs"
    and "concat (map f as) @ xs = concat (map f bs) @ ys"
  shows "map f as = map f bs \<and> xs = ys"
  using assms(2,3)
proof (induction as bs rule: list_induct2)
  case (Cons a as b bs)
  then have "f a @ concat (map f as) @ xs = f b @ concat (map f bs) @ ys" by simp
  then have "f a = f b \<and> concat (map f as) @ xs = concat (map f bs) @ ys"
    by (intro same_length_prefix) (simp_all add: assms(1))
  with Cons.IH show ?case by simp
qed simp

lemma ndarray_hash_split:
  assumes "\<And>x. length (f x) = w" and "ndarray_wf a" and "ndarray_wf b"
    and "ndarray_hash f a @ xs = ndarray_hash f b @ ys"
  shows "ndarray_hash f a = ndarray_hash f b \<and> xs = ys"
proof -
  have n: "length (nd_shape a) = length (nd_shape b)"
    and s: "concat (map usize_bytes (nd_shape a)) @ concat (map f (nd_elems a)) @ xs
      = concat (map usize_bytes (nd_shape b)) @ concat (map f (nd_elems b)) @ ys"
    using assms(2-4) by (auto simp: ndarray_hash_def ndarray_wf_def usize_bytes_inject)
  from fixed_width_split [OF _ n s]
  have m: "map usize_bytes (nd_shape a) = map usize_bytes (nd_shape b)"
    and e: "concat (map f (nd_elems a)) @ xs = concat (map f (nd_elems b)) @ ys" by auto
  have "nd_shape a = nd_shape b"
  proof (rule map_inj_on [OF m], rule inj_onI)
    fix p q assume "p \<in> set (nd_shape a) \<union> set (nd_shape b)"
      "q \<in> set (nd_shape a) \<union> set (nd_shape b)" "usize_bytes p = usize_bytes q"
    then show "p = q"
      using assms(2,3) usize_bytes_split [of p q "[]" "[]"]
      by (auto simp: ndarray_wf_def list_all_iff)
  qed
  moreover from this have "length (nd_elems a) = length (nd_elems b)"
    using assms(2,3) by (simp add: ndarray_wf_def)
  ultimately show ?thesis
    using fixed_width_split [OF assms(1) _ e] by (simp add: ndarray_hash_def)
qed

lemma f64_hash_bits_eq:
  "f64_hash_bits a = f64_hash_bits b \<longleftrightarrow> ordered_float_spec a b = 0"
proof -
  have nan: "is_nan (NOT 0 :: 64 word)"
    by (simp add: is_nan_def f64_exp_def f64_frac_def unsigned_minus_1_eq_mask mask_eq_exp_minus_1)
  have zero: "f64_rank 0 = 0" "\<not> is_nan 0"
    by (simp_all add: f64_rank_def is_infinite_def is_nan_def f64_exp_def fx_def fx_abs_def f64_frac_def)
  have eq0: "f64_eq c 0 \<longleftrightarrow> \<not> is_nan c \<and> f64_rank c = 0" for c
    using zero by (auto simp: f64_eq_def)
  have hn: "f64_hash_bits c = NOT 0 \<longleftrightarrow> is_nan c" for c
    using nan by (auto simp: f64_hash_bits_def)
  have h0: "\<not> is_nan c \<Longrightarrow> f64_hash_bits c = (if f64_rank c = 0 then 0 else c)" for c
    by (simp add: f64_hash_bits_def eq0)
  show ?thesis
  proof (cases "is_nan a \<or> is_nan b")
    case True
    have "f64_hash_bits a = f64_hash_bits b \<longleftrightarrow> is_nan a \<and> is_nan b"
      using True hn by metis
    also have "\<dots> \<longleftrightarrow> ordered_float_spec a b = 0" using True by (auto simp: ordered_float_spec_def)
    finally show ?thesis .
  next
    case False
    then have "f64_hash_bits a = f64_hash_bits b \<longleftrightarrow> f64_rank a = f64_rank b"
      using f64_rank_inject [of a b] zero(1) by (auto simp: h0)
    with False show ?thesis by (auto simp: ordered_float_spec_def sgn_0_0)
  qed
qed

lemma hash_into_tag: "hash_into X v = Ok bs \<Longrightarrow> \<exists>r. bs = type_tag (simple_type v) # r"
  by (cases v) (auto simp: result_simps)

lemma type_tag_inject: "type_tag s = type_tag t \<longleftrightarrow> s = t"
  by (cases s; cases t; simp)

lemma same_simple_type:
  "simple_type w = SNone \<longleftrightarrow> w = VNone" "simple_type w = SBool \<longleftrightarrow> (\<exists>b. w = VBool b)"
  "simple_type w = SInt \<longleftrightarrow> (\<exists>i. w = VInt i)" "simple_type w = SFloat \<longleftrightarrow> (\<exists>f. w = VFloat f)"
  "simple_type w = SPointer \<longleftrightarrow> (\<exists>k. w = VPointer k)"
  "simple_type w = SString \<longleftrightarrow> (\<exists>s. w = VString s)"
  "simple_type w = SBytes \<longleftrightarrow> (\<exists>b. w = VBytes b)" "simple_type w = STuple \<longleftrightarrow> (\<exists>t. w = VTuple t)"
  "simple_type w = SIntArray \<longleftrightarrow> (\<exists>h. w = VIntArray h)"
  "simple_type w = SFloatArray \<longleftrightarrow> (\<exists>h. w = VFloatArray h)"
  "simple_type w = SDateTimeNaive \<longleftrightarrow> (\<exists>t. w = VDateTimeNaive t)"
  "simple_type w = SDateTimeUtc \<longleftrightarrow> (\<exists>t. w = VDateTimeUtc t)"
  "simple_type w = SDuration \<longleftrightarrow> (\<exists>d. w = VDuration d)"
  "simple_type w = SJson \<longleftrightarrow> (\<exists>h. w = VJson h)"
  "simple_type w = SPyObjectWrapper \<longleftrightarrow> (\<exists>h. w = VPyObjectWrapper h)"
  by (cases w; simp)+

text \<open>What unique decodability says of one value, and how it lifts to a sequence.\<close>

definition decodable :: "externals \<Rightarrow> Value \<Rightarrow> bool" where
  "decodable X v \<longleftrightarrow> (\<forall>w bs cs xs ys. value_wf X v \<longrightarrow> value_wf X w \<longrightarrow>
     hash_into X v = (Ok bs :: (unit, byte list) result) \<longrightarrow>
     hash_into X w = (Ok cs :: (unit, byte list) result) \<longrightarrow>
     bs @ xs = cs @ ys \<longrightarrow> value_cmp X v w = 0 \<and> xs = ys)"

lemma decodableI:
  assumes "\<And>w r r' xs ys. simple_type w = simple_type v \<Longrightarrow> value_wf X v \<Longrightarrow> value_wf X w \<Longrightarrow>
     hash_into X v = (Ok (type_tag (simple_type v) # r) :: (unit, byte list) result) \<Longrightarrow>
     hash_into X w = (Ok (type_tag (simple_type v) # r') :: (unit, byte list) result) \<Longrightarrow>
     r @ xs = r' @ ys \<Longrightarrow> value_cmp X v w = 0 \<and> xs = ys"
  shows "decodable X v"
  unfolding decodable_def
proof (intro allI impI)
  fix w xs ys and bs cs :: "byte list"
  assume wf: "value_wf X v" "value_wf X w"
    and v: "hash_into X v = (Ok bs :: (unit, byte list) result)"
    and w: "hash_into X w = (Ok cs :: (unit, byte list) result)" and eq: "bs @ xs = cs @ ys"
  obtain r r' where r: "bs = type_tag (simple_type v) # r" "cs = type_tag (simple_type w) # r'"
    using hash_into_tag [OF v] hash_into_tag [OF w] by auto
  with eq have "simple_type w = simple_type v" "r @ xs = r' @ ys" by (auto simp: type_tag_inject)
  with assms [of w r r' xs ys] wf v w r show "value_cmp X v w = 0 \<and> xs = ys" by simp
qed

lemma decodableD:
  assumes "decodable X v" and "value_wf X v" and "value_wf X w"
    and "hash_into X v = (Ok bs :: (unit, byte list) result)"
    and "hash_into X w = (Ok cs :: (unit, byte list) result)" and "bs @ xs = cs @ ys"
  shows "value_cmp X v w = 0 \<and> xs = ys"
  using assms unfolding decodable_def by blast

lemma hash_all_decodable:
  assumes "\<forall>v \<in> set vs. decodable X v" and "\<forall>v \<in> set vs. value_wf X v" and "\<forall>w \<in> set ws. value_wf X w"
    and "hash_all X vs = (Ok bs :: (unit, byte list) result)"
    and "hash_all X ws = (Ok cs :: (unit, byte list) result)"
    and "length vs = length ws" and "bs @ xs = cs @ ys"
  shows "values_cmp X vs ws = 0 \<and> xs = ys"
  using assms(6,1-5,7)
proof (induction vs ws arbitrary: bs cs rule: list_induct2)
  case (Cons v vs w ws)
  from Cons.prems obtain b1 b2 c1 c2 where
    b: "hash_into X v = (Ok b1 :: (unit, byte list) result)"
      "hash_all X vs = (Ok b2 :: (unit, byte list) result)" "bs = b1 @ b2"
    and c: "hash_into X w = (Ok c1 :: (unit, byte list) result)"
      "hash_all X ws = (Ok c2 :: (unit, byte list) result)" "cs = c1 @ c2"
    by (auto simp: result_simps)
  have "value_cmp X v w = 0 \<and> b2 @ xs = c2 @ ys"
    using Cons.prems b c by (auto simp: decodable_def)
  with Cons.IH [of b2 c2] Cons.prems b c show ?case by simp
qed simp

lemma fixed_leaf:
  assumes "length (f a) = length (f b)" and "f a @ xs = f b @ ys"
  shows "f a = f b \<and> xs = ys"
  using assms by (rule same_length_prefix)

lemma chrono_nanoseconds:
  "chrono_duration_contract X \<Longrightarrow> chrono_duration_num (x_chrono X) Nanoseconds d = Some d"
proof -
  have "trunc_div (sint d) 1 = sint d" by (simp add: trunc_div_def sgn_mult_abs)
  then show "chrono_duration_contract X \<Longrightarrow> ?thesis"
    unfolding chrono_duration_contract_def by simp
qed

lemma value_decodable:
  assumes float: "ordered_float_contract X" and chrono: "chrono_duration_contract X"
  shows "decodable X v"
proof (induction v)
  case (VTuple vs)
  show ?case
  proof (rule decodableI, goal_cases)
    case (1 w r r' xs ys)
    then obtain ws where w: "w = VTuple ws" by (auto simp: same_simple_type)
    with 1 obtain b c where b: "hash_all X vs = (Ok b :: (unit, byte list) result)"
        "r = usize_bytes (length vs) @ b"
      and c: "hash_all X ws = (Ok c :: (unit, byte list) result)"
        "r' = usize_bytes (length ws) @ c"
      by (auto simp: result_simps)
    have ok: "usize_ok (length vs)" "usize_ok (length ws)" using 1 w by auto
    have "length vs = length ws \<and> b @ xs = c @ ys"
      using 1(6) usize_bytes_split [OF ok] by (simp add: b c)
    then have "values_cmp X vs ws = 0 \<and> xs = ys"
      using VTuple 1 w b c by (intro hash_all_decodable [of vs X ws b c]) auto
    with w show ?case by simp
  qed
next
  case (VFloat f)
  show ?case
  proof (rule decodableI, goal_cases)
    case (1 w r r' xs ys)
    then obtain g where w: "w = VFloat g" by (auto simp: same_simple_type)
    with 1 have "f64_hash f @ xs = f64_hash g @ ys" by simp
    then have "f64_hash f = f64_hash g \<and> xs = ys" by (intro fixed_leaf) simp_all
    with w float show ?case
      by (simp add: f64_hash_def le_bytes_8_inject f64_hash_bits_eq ordered_float_contract_def)
  qed
next
  case (VIntArray h)
  show ?case
  proof (rule decodableI, goal_cases)
    case (1 w r r' xs ys)
    then obtain g where w: "w = VIntArray g" by (auto simp: same_simple_type)
    with 1 ndarray_hash_split [of "le_bytes 8" 8 "handle_data h" "handle_data g" xs ys]
    show ?case by (auto simp: key_cmp_eq_0)
  qed
next
  case (VFloatArray h)
  show ?case
  proof (rule decodableI, goal_cases)
    case (1 w r r' xs ys)
    then obtain g where w: "w = VFloatArray g" by (auto simp: same_simple_type)
    with 1 ndarray_hash_split [of f64_hash 8 "handle_data h" "handle_data g" xs ys]
    show ?case by (auto simp: key_cmp_eq_0)
  qed
next
  case (VString s)
  show ?case
    by (rule decodableI) (auto simp: same_simple_type str_hash_split string_cmp_eq_0)
next
  case (VBytes b)
  show ?case
    by (rule decodableI) (auto simp: same_simple_type bytes_hash_split bytes_cmp_eq_0)
next
  case (VJson h)
  show ?case
    by (rule decodableI) (auto simp: same_simple_type json_hash_def str_hash_split key_cmp_eq_0)
next
  case (VPyObjectWrapper h)
  show ?case
    by (rule decodableI)
      (auto simp: same_simple_type py_hash_def bytes_hash_split key_cmp_eq_0 split: option.splits)
next
  case VError
  show ?case by (simp add: decodable_def)
next
  case (VBool b)
  show ?case by (rule decodableI) (auto simp: same_simple_type bool_cmp_eq_0 split: if_splits)
next
  case VNone
  show ?case by (rule decodableI) (auto simp: same_simple_type)
next
  case (VDuration d)
  show ?case
    by (rule decodableI)
      (auto simp: same_simple_type chrono_nanoseconds [OF chrono] i64_cmp_eq_0 le_bytes_8_inject
        dest!: fixed_leaf [where f = "le_bytes 8", rotated])
qed (rule decodableI, auto simp: same_simple_type cmp_eq_0 le_bytes_8_inject le_bytes_16_inject)+

section \<open>Keys\<close>

lemma hash_into_nonempty: "hash_into X v = Ok bs \<Longrightarrow> bs \<noteq> []"
  using hash_into_tag by fastforce

lemma hash_all_inject:
  assumes dec: "\<And>v. decodable X v"
    and "hash_all X vs = (Ok bs :: (unit, byte list) result)"
    and "hash_all X ws = (Ok bs :: (unit, byte list) result)"
    and "\<forall>v \<in> set vs. value_wf X v" and "\<forall>w \<in> set ws. value_wf X w"
  shows "list_all2 (value_eq X) vs ws"
  using assms(2-)
proof (induction vs arbitrary: ws bs)
  case Nil
  then show ?case
    using hash_into_nonempty by (cases ws) (fastforce simp: result_simps)+
next
  case (Cons v vs)
  obtain b1 b2 where b: "hash_into X v = (Ok b1 :: (unit, byte list) result)"
      "hash_all X vs = (Ok b2 :: (unit, byte list) result)" "bs = b1 @ b2"
    using Cons.prems(1) by (auto simp: result_simps)
  then have "bs \<noteq> []" using hash_into_nonempty by fastforce
  then obtain w ws' where ws: "ws = w # ws'" using Cons.prems(2) by (cases ws) auto
  obtain c1 c2 where c: "hash_into X w = (Ok c1 :: (unit, byte list) result)"
      "hash_all X ws' = (Ok c2 :: (unit, byte list) result)" "bs = c1 @ c2"
    using Cons.prems(2) by (auto simp: ws result_simps)
  have "value_cmp X v w = 0 \<and> b2 = c2"
    using Cons.prems(3,4) b c ws by (intro decodableD [OF dec, of v w b1 c1]) auto
  with Cons.IH [of c2 ws'] Cons.prems b c ws show ?case by (simp add: value_eq_def)
qed

text \<open>C11. Two non-empty rows of well-formed values get the same key only if they have the same
  number of columns and equal values in each, or if the 128-bit digest collides on two different
  byte strings, which the theorem names. In particular no concatenation of columns can be
  confused with another.\<close>

theorem key_for_values_collision:
  assumes "ordered_float_contract X" and "chrono_duration_contract X"
    and "\<forall>v \<in> set vs. value_wf X v" and "\<forall>w \<in> set ws. value_wf X w"
    and "vs \<noteq> []" and "ws \<noteq> []"
    and "key_for_values X vs = (Ok k :: (unit, key) result)"
    and "key_for_values X ws = (Ok k :: (unit, key) result)"
  shows "list_all2 (value_eq X) vs ws
    \<or> (\<exists>bs cs. hash_all X vs = (Ok bs :: (unit, byte list) result)
          \<and> hash_all X ws = (Ok cs :: (unit, byte list) result)
          \<and> bs \<noteq> cs \<and> digest128 X bs = digest128 X cs)"
proof -
  obtain bs cs where b: "hash_all X vs = (Ok bs :: (unit, byte list) result)" "k = digest128 X bs"
    and c: "hash_all X ws = (Ok cs :: (unit, byte list) result)" "k = digest128 X cs"
    using assms(5-8) by (auto simp: key_for_values_def result_simps)
  show ?thesis
  proof (cases "bs = cs")
    case True
    with hash_all_inject [OF value_decodable [OF assms(1,2)] b(1)] c assms(3,4) show ?thesis by blast
  next
    case False
    with b c show ?thesis by auto
  qed
qed

theorem key_for_values_collision_witness:
  "list_all2 (value_eq example_externals) [VFloat 0, VTuple []] [VFloat (f64_zero True), VTuple []]
    \<or> (\<exists>bs cs. hash_all example_externals [VFloat 0, VTuple []] = (Ok bs :: (unit, byte list) result)
          \<and> hash_all example_externals [VFloat (f64_zero True), VTuple []]
              = (Ok cs :: (unit, byte list) result)
          \<and> bs \<noteq> cs \<and> digest128 example_externals bs = digest128 example_externals cs)"
proof (rule key_for_values_collision)
  have "f64_hash_bits (f64_zero True) = f64_hash_bits 0"
    by (simp add: f64_hash_bits_def f64_eval)
  then show "key_for_values example_externals [VFloat (f64_zero True), VTuple []]
      = (Ok (digest128 example_externals (type_tag SFloat # f64_hash 0
          @ type_tag STuple # usize_bytes 0)) :: (unit, key) result)"
    by (simp add: key_for_values_def f64_hash_def)
qed (simp_all add: example_contracts key_for_values_def usize_ok_def)





section \<open>Shards\<close>


lemma with_shard_of_rest: "with_shard_of k l AND NOT SHARD_MASK = k AND NOT SHARD_MASK"
  by (rule bit_word_eqI) (auto simp: with_shard_of_def bit_simps)





section \<open>Runtime types\<close>



section \<open>Error messages\<close>

lemma limit_length_panics_iff:
  "limit_length s n = Panic \<longleftrightarrow> n < length s \<and> \<not> is_char_boundary s n"
  by (simp add: limit_length_def)

text \<open>The message of \<open>IncorrectType\<close> is cut at byte 500. A text with a two-byte character
  across that position makes the cut panic while the error is being reported.\<close>

theorem limit_length_splits_character:
  "limit_length (CHR ''a'' # concat (replicate 250 [char_of (0xC3 :: nat), char_of (0xA9 :: nat)])) 500
   = Panic"
proof -
  have "concat (replicate n [a, b :: char]) ! (2 * m + 1) = b" if "m < n" for n m a b
    using that by (induction n arbitrary: m) (auto simp: nth_Cons' less_Suc_eq_0_disj)
  from this [of 249 250] show ?thesis
    by (simp add: limit_length_panics_iff is_char_boundary_def length_concat sum_list_replicate)
qed

end
