(* ===== verification/Times.thy ===== *)
theory Times
  imports Values
begin

text \<open>
  engine/time.rs: the \<open>DateTime\<close> trait over a count of nanoseconds, \<open>DateTimeNaive\<close>,
  \<open>DateTimeUtc\<close> and \<open>Duration\<close>, and the \<open>Display\<close> of values, which prints them.

  A date time and a duration are their \<open>i64\<close> count of nanoseconds. Calendar computations,
  parsing, formatting and time zones are chrono's and come in through \<open>externals\<close>.

  Results: the split of a timestamp into seconds and nanoseconds is exact and never fails on
  any \<open>i64\<close>; the floored division and remainder of durations; the units a duration prints
  add up to it.
\<close>

section \<open>The DateTime trait\<close>

definition as_chrono_datetime :: "externals \<Rightarrow> i64 \<Rightarrow> ('e, naive_date_time) result" where
  "as_chrono_datetime X timestamp =
     and_then (i64_div timestamp 1000000000) (\<lambda>secs.
     and_then (i64_rem timestamp 1000000000) (\<lambda>nanos.
       let (secs, nanos) = (if sint nanos < 0 then (secs - 1, nanos + 1000000000) else (secs, nanos))
       in if 0 \<le> sint nanos \<and> sint nanos < 2 ^ 32
          then unwrap (chrono_from_timestamp (x_chrono X) secs (ucast nanos))
          else Panic))"

definition date_field_of :: "externals \<Rightarrow> date_field \<Rightarrow> i64 \<Rightarrow> ('e, u32) result" where
  "date_field_of X f t = map_ok (chrono_field (x_chrono X) f) (as_chrono_datetime X t)"

definition nanosecond :: "externals \<Rightarrow> i64 \<Rightarrow> ('e, i64) result" where
  "nanosecond X t = map_ok ucast (date_field_of X Nanosecond t)"

definition microsecond :: "externals \<Rightarrow> i64 \<Rightarrow> ('e, i64) result" where
  "microsecond X t = map_ok (\<lambda>n. ucast (n div 1000)) (date_field_of X Nanosecond t)"

definition millisecond :: "externals \<Rightarrow> i64 \<Rightarrow> ('e, i64) result" where
  "millisecond X t = map_ok (\<lambda>n. ucast (n div 1000000)) (date_field_of X Nanosecond t)"

definition second :: "externals \<Rightarrow> i64 \<Rightarrow> ('e, i64) result" where
  "second X t = map_ok ucast (date_field_of X Second t)"

definition minute :: "externals \<Rightarrow> i64 \<Rightarrow> ('e, i64) result" where
  "minute X t = map_ok ucast (date_field_of X Minute t)"

definition hour :: "externals \<Rightarrow> i64 \<Rightarrow> ('e, i64) result" where
  "hour X t = map_ok ucast (date_field_of X Hour t)"

definition day :: "externals \<Rightarrow> i64 \<Rightarrow> ('e, i64) result" where
  "day X t = map_ok ucast (date_field_of X Day t)"

definition month :: "externals \<Rightarrow> i64 \<Rightarrow> ('e, i64) result" where
  "month X t = map_ok ucast (date_field_of X Month t)"

definition year :: "externals \<Rightarrow> i64 \<Rightarrow> ('e, i64) result" where
  "year X t = map_ok (\<lambda>dt. scast (chrono_year (x_chrono X) dt)) (as_chrono_datetime X t)"

definition weekday :: "externals \<Rightarrow> i64 \<Rightarrow> ('e, i64) result" where
  "weekday X t = map_ok ucast (date_field_of X Weekday t)"

definition timestamp_microseconds :: "i64 \<Rightarrow> ('e, i64) result" where
  "timestamp_microseconds t = i64_div t 1000"

definition timestamp_milliseconds :: "i64 \<Rightarrow> ('e, i64) result" where
  "timestamp_milliseconds t = i64_div t 1000000"

definition timestamp_seconds :: "i64 \<Rightarrow> ('e, i64) result" where
  "timestamp_seconds t = i64_div t 1000000000"

definition get_unit_multiplier :: "string \<Rightarrow> i64 dyn_result" where
  "get_unit_multiplier u =
     (if u = ''s'' then Ok 1000000000
      else if u = ''ms'' then Ok 1000000
      else if u = ''us'' then Ok 1000
      else if u = ''ns'' then Ok 1
      else Err ValueError)"

definition timestamp_in_unit :: "i64 \<Rightarrow> string \<Rightarrow> f64 dyn_result" where
  "timestamp_in_unit t u =
     and_then (get_unit_multiplier u) (\<lambda>mult. Ok (f64_div (f64_of_i64 t) (f64_of_i64 mult)))"

definition get_rounded_timestamp :: "externals \<Rightarrow> i64 \<Rightarrow> i64 \<Rightarrow> ('e, i64) result" where
  "get_rounded_timestamp X t duration =
     and_then (as_chrono_datetime X t) (\<lambda>dt.
     and_then (unwrap (chrono_duration_round (x_chrono X) dt duration)) (\<lambda>dt'.
     unwrap (chrono_timestamp_nanos (x_chrono X) dt')))"

definition get_truncated_timestamp :: "externals \<Rightarrow> i64 \<Rightarrow> i64 \<Rightarrow> ('e, i64) result" where
  "get_truncated_timestamp X t duration =
     and_then (as_chrono_datetime X t) (\<lambda>dt.
     and_then (unwrap (chrono_duration_trunc (x_chrono X) dt duration)) (\<lambda>dt'.
     unwrap (chrono_timestamp_nanos (x_chrono X) dt')))"

text \<open>\<open>str::replace\<close> and \<open>str::matches(..).count()\<close> for a non-empty pattern: matches are found
  from left to right and do not overlap; the number says how many bytes of a match are left.\<close>

fun str_replace :: "string \<Rightarrow> string \<Rightarrow> nat \<Rightarrow> string \<Rightarrow> string" where
  "str_replace pat rep k [] = []"
| "str_replace pat rep (Suc k) (c # cs) = str_replace pat rep k cs"
| "str_replace pat rep 0 (c # cs) =
     (if strip_prefix pat (c # cs) \<noteq> None then rep @ str_replace pat rep (length pat - 1) cs
      else c # str_replace pat rep 0 cs)"

fun count_matches :: "string \<Rightarrow> nat \<Rightarrow> string \<Rightarrow> nat" where
  "count_matches pat k [] = 0"
| "count_matches pat (Suc k) (c # cs) = count_matches pat k cs"
| "count_matches pat 0 (c # cs) =
     (if strip_prefix pat (c # cs) \<noteq> None then Suc (count_matches pat (length pat - 1) cs)
      else count_matches pat 0 cs)"

definition sanitize_format_string :: "string \<Rightarrow> string dyn_result" where
  "sanitize_format_string format =
     (let format = str_replace ''.%f'' ''%.f'' 0 format in
      if count_matches ''%f'' 0 format = count_matches ''%%f'' 0 format then Ok format
      else Err ParseError)"

section \<open>DateTimeNaive\<close>

definition naive_from_chrono :: "externals \<Rightarrow> naive_date_time \<Rightarrow> ('e, i64) result" where
  "naive_from_chrono X dt = unwrap (chrono_timestamp_nanos (x_chrono X) dt)"

definition naive_strptime :: "externals \<Rightarrow> string \<Rightarrow> string \<Rightarrow> i64 dyn_result" where
  "naive_strptime X date_string format =
     and_then (sanitize_format_string format) (\<lambda>format.
       case parse_naive_date_time (x_parse X) date_string format of
         Some datetime \<Rightarrow> naive_from_chrono X datetime
       | None \<Rightarrow> (case parse_date_at_midnight (x_parse X) date_string format of
           Some datetime \<Rightarrow> naive_from_chrono X datetime
         | None \<Rightarrow> (case parse_time_in_1900 (x_parse X) date_string format of
             Some datetime \<Rightarrow> naive_from_chrono X datetime
           | None \<Rightarrow> Err ParseError)))"

definition half_hour_nanos :: i64 where "half_hour_nanos = 30 * 60 * 1000000000"
definition hour_nanos :: i64 where "hour_nanos = 60 * 60 * 1000000000"

definition to_utc_from_timezone :: "externals \<Rightarrow> i64 \<Rightarrow> string \<Rightarrow> i64 dyn_result" where
  "to_utc_from_timezone X t timezone =
     (case parse_timezone (x_parse X) timezone of
        Some tz \<Rightarrow>
          and_then (as_chrono_datetime X t) (\<lambda>naive_local.
          case tz_from_local (x_parse X) tz naive_local of
            LSingle localized \<Rightarrow> unwrap localized
          | LAmbiguous _ localized \<Rightarrow> unwrap localized
          | LNone \<Rightarrow>
              and_then (unwrap (chrono_add (x_chrono X) naive_local half_hour_nanos)) (\<lambda>moved.
              and_then (unwrap (chrono_duration_round (x_chrono X) moved hour_nanos)) (\<lambda>rounded.
              case tz_from_local (x_parse X) tz rounded of
                LSingle localized \<Rightarrow> unwrap localized
              | _ \<Rightarrow> Err DateTimeConversionError)))
      | None \<Rightarrow> Err ParseError)"

definition from_timestamp :: "i64 \<Rightarrow> string \<Rightarrow> i64 dyn_result" where
  "from_timestamp t u = and_then (get_unit_multiplier u) (\<lambda>mult. Ok (mult * t))"

definition from_timestamp_f64 :: "f64 \<Rightarrow> string \<Rightarrow> i64 dyn_result" where
  "from_timestamp_f64 t u =
     and_then (get_unit_multiplier u) (\<lambda>mult. Ok (f64_to_i64 (f64_mul (f64_of_i64 mult) t)))"

definition naive_strftime :: "externals \<Rightarrow> i64 \<Rightarrow> string \<Rightarrow> ('e, string) result" where
  "naive_strftime X t format =
     and_then (as_chrono_datetime X t) (\<lambda>dt. unwrap (chrono_format (x_chrono X) dt format))"

definition date_time_sub :: "i64 \<Rightarrow> i64 \<Rightarrow> i64" where
  "date_time_sub t u = t - u"

definition date_time_add_duration :: "i64 \<Rightarrow> i64 \<Rightarrow> i64" where
  "date_time_add_duration t d = t + d"

definition date_time_sub_duration :: "i64 \<Rightarrow> i64 \<Rightarrow> i64" where
  "date_time_sub_duration t d = t - d"

section \<open>DateTimeUtc\<close>

definition utc_strptime :: "externals \<Rightarrow> string \<Rightarrow> string \<Rightarrow> i64 dyn_result" where
  "utc_strptime X date_string format =
     and_then (sanitize_format_string format) (\<lambda>format.
       case parse_date_time (x_parse X) date_string format of
         Some datetime \<Rightarrow> unwrap datetime
       | None \<Rightarrow> Err ParseError)"

definition to_naive_in_timezone :: "externals \<Rightarrow> i64 \<Rightarrow> string \<Rightarrow> i64 dyn_result" where
  "to_naive_in_timezone X t timezone =
     (case parse_timezone (x_parse X) timezone of
        Some tz \<Rightarrow>
          and_then (as_chrono_datetime X t) (\<lambda>naive_utc.
            naive_from_chrono X (tz_from_utc (x_parse X) tz naive_utc))
      | None \<Rightarrow> Err ParseError)"

definition utc_strftime :: "externals \<Rightarrow> i64 \<Rightarrow> string \<Rightarrow> ('e, string) result" where
  "utc_strftime X t format = unwrap (chrono_utc_format (x_chrono X) t format)"

section \<open>Duration\<close>

definition duration_new_with_unit :: "i64 \<Rightarrow> string \<Rightarrow> i64 dyn_result" where
  "duration_new_with_unit d u = and_then (get_unit_multiplier u) (\<lambda>mult. Ok (d * mult))"

text \<open>\<open>nanoseconds()\<close> to \<open>weeks()\<close>.\<close>

definition duration_in :: "externals \<Rightarrow> duration_unit \<Rightarrow> i64 \<Rightarrow> ('e, i64) result" where
  "duration_in X u d = unwrap (chrono_duration_num (x_chrono X) u d)"

definition true_div :: "i64 \<Rightarrow> i64 \<Rightarrow> f64 dyn_result" where
  "true_div d e =
     (if e = 0 then Err DivisionByZero else Ok (f64_div (f64_of_i64 d) (f64_of_i64 e)))"

definition true_div_by_i64 :: "i64 \<Rightarrow> i64 \<Rightarrow> i64 dyn_result" where
  "true_div_by_i64 d i = (if i = 0 then Err DivisionByZero else i64_div d i)"

definition duration_neg :: "i64 \<Rightarrow> i64" where "duration_neg d = - d"
definition duration_add :: "i64 \<Rightarrow> i64 \<Rightarrow> i64" where "duration_add d e = d + e"
definition duration_sub :: "i64 \<Rightarrow> i64 \<Rightarrow> i64" where "duration_sub d e = d - e"
definition duration_mul :: "i64 \<Rightarrow> i64 \<Rightarrow> i64" where "duration_mul d i = d * i"

definition duration_mul_f64 :: "i64 \<Rightarrow> f64 \<Rightarrow> i64" where
  "duration_mul_f64 d f = f64_to_i64 (f64_mul (f64_of_i64 d) f)"

definition duration_div :: "externals \<Rightarrow> i64 \<Rightarrow> i64 \<Rightarrow> i64 dyn_result" where
  "duration_div X d e = (if e = 0 then Err DivisionByZero else unwrap (int_div_floor X d e))"

definition duration_div_by_i64 :: "externals \<Rightarrow> i64 \<Rightarrow> i64 \<Rightarrow> i64 dyn_result" where
  "duration_div_by_i64 X d i = (if i = 0 then Err DivisionByZero else unwrap (int_div_floor X d i))"

definition duration_div_by_f64 :: "i64 \<Rightarrow> f64 \<Rightarrow> i64 dyn_result" where
  "duration_div_by_f64 d f =
     (if f64_eq f 0 then Err DivisionByZero else Ok (f64_to_i64 (f64_div (f64_of_i64 d) f)))"

definition duration_rem :: "externals \<Rightarrow> i64 \<Rightarrow> i64 \<Rightarrow> i64 dyn_result" where
  "duration_rem X d e = (if e = 0 then Err DivisionByZero else unwrap (int_mod_floor X d e))"

definition timeunits :: "(i64 \<times> string) list" where
  "timeunits =
     [(1000000000 * 60 * 60 * 24, ''d''), (1000000000 * 60 * 60, ''h''), (1000000000 * 60, ''m''),
      (1000000000, ''s''), (1, ''ns'')]"

text \<open>The loop of \<open>Display for Duration\<close>: the pairs it prints, and the printed text.\<close>

fun duration_parts :: "(i64 \<times> string) list \<Rightarrow> i64 \<Rightarrow> ('e, (i64 \<times> i64 \<times> string) list) result" where
  "duration_parts [] remaining = Ok []"
| "duration_parts ((num_nanoseconds, unit_name) # us) remaining =
     and_then (i64_div remaining num_nanoseconds) (\<lambda>q.
       if q \<noteq> 0 then
         and_then (i64_rem remaining num_nanoseconds) (\<lambda>r.
           map_ok (\<lambda>ps. (q, num_nanoseconds, unit_name) # ps) (duration_parts us r))
       else duration_parts us remaining)"

definition duration_display :: "i64 \<Rightarrow> ('e, string) result" where
  "duration_display d =
     map_ok (\<lambda>ps. join_with '' '' (map (\<lambda>(q, _, u). show_int (sint q) @ u) ps))
       (duration_parts timeunits d)"

section \<open>Display for Value\<close>

fun value_display :: "externals \<Rightarrow> Value \<Rightarrow> ('e, string) result" where
  "value_display X VNone = Ok ''None''"
| "value_display X (VBool b) = Ok (if b then ''True'' else ''False'')"
| "value_display X (VInt i) = Ok (show_int (sint i))"
| "value_display X (VFloat f) = Ok (f64_debug (x_std X) f)"
| "value_display X (VPointer k) = Ok (key_display X k)"
| "value_display X (VString s) = Ok (str_debug (x_std X) s)"
| "value_display X (VBytes b) =
     Ok (''['' @ join_with '', '' (map (\<lambda>x. show_nat (unat x)) b) @ '']'')"
| "value_display X (VTuple vs) =
     map_ok (\<lambda>ss. ''('' @ join_with '', '' ss @ '')'') (try_collect (map (value_display X) vs))"
| "value_display X (VIntArray h) = Ok (i64_array_display (x_nd X) (handle_data h))"
| "value_display X (VFloatArray h) = Ok (f64_array_display (x_nd X) (handle_data h))"
| "value_display X (VDateTimeNaive t) = naive_strftime X t ''%Y-%m-%dT%H:%M:%S%.9f''"
| "value_display X (VDateTimeUtc t) = utc_strftime X t ''%Y-%m-%dT%H:%M:%S%.9f%z''"
| "value_display X (VDuration d) = duration_display d"
| "value_display X (VJson h) = Ok (json_to_string (x_json X) (handle_data h))"
| "value_display X VError = Ok ''Error''"
| "value_display X (VPyObjectWrapper h) = Ok (py_display X (handle_data h))"

section \<open>Division by a positive constant\<close>

lemma i64_div_pos:
  assumes "0 < sint b" shows "i64_div a b = Ok (word_of_int (trunc_div (sint a) (sint b)))"
  using assms by (auto simp: i64_div_def)

lemma i64_rem_pos:
  assumes "0 < sint b" shows "i64_rem a b = Ok (word_of_int (trunc_mod (sint a) (sint b)))"
  using assms by (auto simp: i64_rem_def)

lemma trunc_div_in_i64:
  assumes "in_i64 a" and "0 < b" shows "in_i64 (trunc_div a b)"
proof -
  have "\<bar>trunc_div a b\<bar> \<le> \<bar>a\<bar>"
    using assms(2) pos_imp_zdiv_nonneg_iff [of b "\<bar>a\<bar>"] zdiv_mono2 [of "\<bar>a\<bar>" 1 b]
    by (auto simp: trunc_div_def abs_mult sgn_if)
  moreover have "0 \<le> a \<Longrightarrow> 0 \<le> trunc_div a b" "a \<le> 0 \<Longrightarrow> trunc_div a b \<le> 0"
    using assms(2) pos_imp_zdiv_nonneg_iff [of b "\<bar>a\<bar>"]
    by (auto simp: trunc_div_def sgn_if)
  ultimately show ?thesis
    using assms(1) by (cases "0 \<le> a") (auto simp: in_i64_def i64_min_def i64_max_def)
qed

lemma trunc_mod_in_i64:
  assumes "in_i64 b" and "0 < b" shows "in_i64 (trunc_mod a b)"
  using trunc_mod_abs_less [of b a] assms by (auto simp: in_i64_def i64_min_def i64_max_def)

text \<open>The correction of a negative remainder turns truncated into floored division.\<close>

lemma trunc_to_floor:
  assumes "0 < b"
  shows "trunc_mod a b < 0 \<Longrightarrow> trunc_div a b - 1 = a div b \<and> trunc_mod a b + b = a mod b"
    and "\<not> trunc_mod a b < 0 \<Longrightarrow> trunc_div a b = a div b \<and> trunc_mod a b = a mod b"
proof -
  have eq: "a = trunc_div a b * b + trunc_mod a b" by (simp add: trunc_div_mod)
  have less: "\<bar>trunc_mod a b\<bar> < b" using trunc_mod_abs_less [of b a] assms by simp
  show "trunc_div a b - 1 = a div b \<and> trunc_mod a b + b = a mod b" if "trunc_mod a b < 0"
  proof -
    have "a = b * (trunc_div a b - 1) + (trunc_mod a b + b)" using eq by (simp add: algebra_simps)
    moreover have "0 \<le> trunc_mod a b + b" "trunc_mod a b + b < b" using less that by auto
    ultimately show ?thesis using assms int_div_pos_eq int_mod_pos_eq by metis
  qed
  show "trunc_div a b = a div b \<and> trunc_mod a b = a mod b" if "\<not> trunc_mod a b < 0"
  proof -
    have "a = b * trunc_div a b + trunc_mod a b" using eq by (simp add: algebra_simps)
    with less that show ?thesis using assms int_div_pos_eq int_mod_pos_eq by (metis abs_of_nonneg linorder_not_less)
  qed
qed

lemma in_i64_div: "in_i64 a \<Longrightarrow> 0 < b \<Longrightarrow> in_i64 (a div b)"
proof -
  assume a: "in_i64 a" and b: "0 < b"
  have "a div b \<le> max a 0" 
    using b zdiv_mono2 [of a 1 b] pos_imp_zdiv_neg_iff [of b a]
    by (cases "0 \<le> a") auto
  moreover have "min a 0 \<le> a div b"
    using b zdiv_mono2_neg [of a 1 b] pos_imp_zdiv_nonneg_iff [of b a] by (cases "0 \<le> a") auto
  ultimately show ?thesis using a by (auto simp: in_i64_def i64_min_def i64_max_def)
qed

lemma as_chrono_datetime_floor:
  "as_chrono_datetime X t =
     unwrap (chrono_from_timestamp (x_chrono X) (word_of_int (sint t div 1000000000))
       (word_of_int (sint t mod 1000000000)))"
proof -
  let ?b = "1000000000 :: int"
  let ?n = "trunc_mod (sint t) ?b"
  have "sint (1000000000 :: 64 word) = ?b" by simp
  note div = i64_div_pos [of 1000000000 t, unfolded this] i64_rem_pos [of 1000000000 t, unfolded this]
  have sn: "sint (word_of_int ?n :: 64 word) = ?n"
    by (intro sint_of_int_in_i64 trunc_mod_in_i64) (auto simp: in_i64_def i64_min_def i64_max_def)
  have m: "0 \<le> sint t mod ?b" "sint t mod ?b < ?b" by auto
  then have l: "sint t mod ?b < 4294967296" by linarith
  from m have sm: "sint (word_of_int (sint t mod ?b) :: 64 word) = sint t mod ?b"
    by (intro sint_of_int_in_i64) (auto simp: in_i64_def i64_min_def i64_max_def)
  have u: "(ucast (word_of_int (sint t mod ?b) :: 64 word) :: 32 word) = word_of_int (sint t mod ?b)"
    using m by (simp add: unsigned_ucast_eq ucast_eq uint_word_of_int_eq take_bit_int_eq_self)
  show ?thesis
  proof (cases "?n < 0")
    case True
    then have e: "?n + ?b = sint t mod ?b" "trunc_div (sint t) ?b - 1 = sint t div ?b"
      using trunc_to_floor(1) [of ?b "sint t"] by auto
    have "word_of_int ?n + 1000000000 = (word_of_int (?n + ?b) :: 64 word)"
      "word_of_int (trunc_div (sint t) ?b) - 1 = (word_of_int (trunc_div (sint t) ?b - 1) :: 64 word)"
      by simp_all
    then have "word_of_int ?n + 1000000000 = (word_of_int (sint t mod ?b) :: 64 word)"
      and "word_of_int (trunc_div (sint t) ?b) - 1 = (word_of_int (sint t div ?b) :: 64 word)"
      unfolding e by blast+
    then show ?thesis
      using True sn sm m u l by (simp add: as_chrono_datetime_def div)
  next
    case False
    then show ?thesis
      using trunc_to_floor(2) [of ?b "sint t", OF _ False] sn sm u l
      by (simp add: as_chrono_datetime_def div not_less [THEN iffD2, OF m(1)])
  qed
qed

text \<open>C19. Every \<open>i64\<close> timestamp has a calendar time: \<open>as_chrono_datetime\<close> never panics, its
  nanosecond field is the floored remainder (also before the epoch), and converting back
  returns the timestamp.\<close>

theorem as_chrono_datetime_exact:
  assumes "chrono_timestamp_contract X"
  shows "nanosecond X t = Ok (word_of_int (sint t mod 1000000000))
    \<and> and_then (as_chrono_datetime X t) (naive_from_chrono X) = Ok t"
proof -
  let ?b = "1000000000 :: int"
  let ?s = "word_of_int (sint t div ?b) :: 64 word" and ?n = "word_of_int (sint t mod ?b) :: 32 word"
  have m: "0 \<le> sint t mod ?b" "sint t mod ?b < ?b" by auto
  then have un: "uint ?n = sint t mod ?b"
    by (simp add: uint_word_of_int_eq take_bit_int_eq_self)
  have s: "sint ?s = sint t div ?b" by (intro sint_of_int_in_i64 in_i64_div sint_in_i64) simp
  have t: "sint ?s * 1000000000 + uint ?n = sint t" by (simp add: s un)
  have "unat ?n < 1000000000" using un m by (simp add: unat_eq_nat_uint nat_less_iff)
  then obtain dt where
    dt: "chrono_from_timestamp (x_chrono X) ?s ?n = Some dt"
      "chrono_field (x_chrono X) Nanosecond dt = ?n" "chrono_timestamp_nanos (x_chrono X) dt = Some t"
    using assms [unfolded chrono_timestamp_contract_def, rule_format, of ?n ?s] sint_in_i64 [of t]
    unfolding t by auto
  have "(ucast ?n :: 64 word) = word_of_int (sint t mod ?b)"
    using un by (simp add: ucast_eq)
  with dt show ?thesis
    by (simp add: nanosecond_def date_field_of_def as_chrono_datetime_floor naive_from_chrono_def)
qed

theorem as_chrono_datetime_exact_witness:
  "nanosecond example_externals (- 1) = (Ok 999999999 :: (unit, i64) result)
   \<and> and_then (as_chrono_datetime example_externals (- 1)) (naive_from_chrono example_externals)
       = (Ok (- 1) :: (unit, i64) result)"
  using as_chrono_datetime_exact [OF example_contracts(4), of "- 1"] by simp

section \<open>Division of durations\<close>

lemma sint_floor_div:
  fixes a b :: i64
  assumes "b \<noteq> 0" and "\<not> (sint a = i64_min \<and> sint b = -1)"
  shows "sint (word_of_int (sint a div sint b) :: 64 word) = sint a div sint b"
proof (rule sint_of_int_in_i64)
  have b0: "sint b \<noteq> 0" using assms(1) by (simp add: sint_eq_0_iff)
  have a: "in_i64 (sint a)" by (rule sint_in_i64)
  show "in_i64 (sint a div sint b)"
  proof (cases "0 < sint b")
    case True
    with a show ?thesis by (rule in_i64_div)
  next
    case False
    with b0 have neg: "sint b < 0" by simp
    have eq: "sint a div sint b = (- sint a) div (- sint b)" by simp
    have "in_i64 (- sint a) \<or> sint a = i64_min"
      using a by (auto simp: in_i64_def i64_min_def i64_max_def)
    then show ?thesis
    proof
      assume "in_i64 (- sint a)"
      with neg show ?thesis unfolding eq by (intro in_i64_div) auto
    next
      assume m: "sint a = i64_min"
      with assms(2) neg have "2 \<le> - sint b" by simp
      then have "(2 ^ 63) div (- sint b) \<le> (2 ^ 63 :: int) div 2"
        by (intro zdiv_mono2) auto
      moreover have "0 \<le> (2 ^ 63 :: int) div (- sint b)" using neg by (simp add: pos_imp_zdiv_nonneg_iff)
      ultimately show ?thesis unfolding eq by (simp add: m in_i64_def i64_min_def i64_max_def)
    qed
  qed
qed

lemma sint_floor_mod:
  fixes a b :: i64
  shows "sint (word_of_int (sint a mod sint b) :: 64 word) = sint a mod sint b"
proof (rule sint_of_int_in_i64)
  have "in_i64 (sint a)" "in_i64 (sint b)" by (rule sint_in_i64)+
  note ab = this [unfolded in_i64_def i64_min_def i64_max_def]
  show "in_i64 (sint a mod sint b)"
    unfolding in_i64_def i64_min_def i64_max_def
  proof (cases "sint b" "0 :: int" rule: linorder_cases)
    case less
    have "sint b < sint a mod sint b \<and> sint a mod sint b \<le> 0"
      using neg_mod_bound [OF less] neg_mod_sign [OF less] by blast
    with ab show "- (2 ^ 63) \<le> sint a mod sint b \<and> sint a mod sint b \<le> 2 ^ 63 - 1" by linarith
  next
    case greater
    have "0 \<le> sint a mod sint b \<and> sint a mod sint b < sint b"
      using pos_mod_bound [OF greater] pos_mod_sign [OF greater] by blast
    with ab show "- (2 ^ 63) \<le> sint a mod sint b \<and> sint a mod sint b \<le> 2 ^ 63 - 1" by linarith
  qed (use ab in simp)
qed

text \<open>C20. The quotient and remainder of two durations are floored: they recombine to the
  dividend and the remainder has the sign of the divisor. The only error is division by zero, and
  the only panic is the least duration divided by minus one nanosecond.\<close>

theorem duration_div_rem:
  assumes "num_integer_contract X"
  shows "case (duration_div X a b, duration_rem X a b) of
      (Ok q, Ok r) \<Rightarrow> b \<noteq> 0 \<and> sint q * sint b + sint r = sint a
        \<and> (0 < sint b \<longrightarrow> 0 \<le> sint r \<and> sint r < sint b) \<and> (sint b < 0 \<longrightarrow> sint b < sint r \<and> sint r \<le> 0)
    | (Err e, Err f) \<Rightarrow> b = 0 \<and> e = DivisionByZero \<and> f = DivisionByZero
    | (Panic, Panic) \<Rightarrow> sint a = i64_min \<and> sint b = -1
    | _ \<Rightarrow> False"
  using assms sint_floor_div [of b a] sint_floor_mod [of a b]
  by (auto simp: duration_div_def duration_rem_def num_integer_contract_def floor_div_spec_def
      floor_mod_spec_def pos_mod_bound neg_mod_bound neg_mod_sign)

theorem duration_div_rem_witness:
  "num_integer_contract example_externals
   \<and> duration_div example_externals (- 7) 2 = Ok (- 4) \<and> duration_rem example_externals (- 7) 2 = Ok 1
   \<and> (- 4) * 2 + 1 = (- 7 :: int)"
  using duration_div_rem [OF example_contracts(2), of "- 7" 2] example_contracts(2)
  by (simp add: duration_div_def duration_rem_def example_externals_def floor_div_spec_def
      floor_mod_spec_def i64_min_def)

section \<open>Printing durations\<close>

lemma duration_parts_units:
  "duration_parts us d = Ok ps \<Longrightarrow> set (map snd ps) \<subseteq> set us"
  by (induction us d arbitrary: ps rule: duration_parts.induct)
    (fastforce simp: result_simps split: if_splits)+

lemma duration_parts_Cons:
  assumes "0 < sint n"
  shows "\<exists>q r. sint q = trunc_div (sint d) (sint n) \<and> sint r = trunc_mod (sint d) (sint n)
    \<and> (duration_parts ((n, u) # us) d :: ('e, (i64 \<times> i64 \<times> string) list) result)
        = (if q \<noteq> 0 then map_ok (\<lambda>ps. (q, n, u) # ps) (duration_parts us r) else duration_parts us d)"
proof -
  let ?q = "word_of_int (trunc_div (sint d) (sint n)) :: 64 word"
  let ?r = "word_of_int (trunc_mod (sint d) (sint n)) :: 64 word"
  have "sint ?q = trunc_div (sint d) (sint n)"
    using assms by (intro sint_of_int_in_i64 trunc_div_in_i64 sint_in_i64)
  moreover have "sint ?r = trunc_mod (sint d) (sint n)"
    using assms by (intro sint_of_int_in_i64 trunc_mod_in_i64 sint_in_i64)
  ultimately show ?thesis
    by (intro exI [of _ ?q] exI [of _ ?r]) (simp add: i64_div_pos [OF assms] i64_rem_pos [OF assms])
qed

lemma trunc_div_pos_iff: "0 < b \<Longrightarrow> trunc_div a b \<noteq> 0 \<Longrightarrow> 0 < trunc_div a b \<longleftrightarrow> 0 < a"
proof -
  assume b: "0 < b" and n: "trunc_div a b \<noteq> 0"
  have "0 \<le> \<bar>a\<bar> div b" using b by (simp add: pos_imp_zdiv_nonneg_iff)
  with b n show ?thesis by (auto simp: trunc_div_def sgn_if split: if_splits)
qed

lemma duration_parts_zero: "\<forall>(n, u) \<in> set us. 0 < sint n \<Longrightarrow> duration_parts us 0 = Ok []"
proof (induction us)
  case (Cons nu us)
  then obtain n u where nu: "nu = (n, u)" "0 < sint n" by (cases nu) auto
  with Cons show ?case by (simp add: i64_div_pos trunc_div_def)
qed simp

lemma duration_parts_sum:
  assumes "\<forall>(n, u) \<in> set us. 0 < sint n" and "us \<noteq> []" and "fst (last us) = 1"
  shows "\<exists>ps. duration_parts us d = (Ok ps :: ('e, (i64 \<times> i64 \<times> string) list) result) \<and> (\<Sum>(q, n, u) \<leftarrow> ps. sint q * sint n) = sint d
    \<and> (\<forall>(q, n, u) \<in> set ps. q \<noteq> 0 \<and> (0 < sint q \<longleftrightarrow> 0 < sint d))"
  using assms
proof (induction us arbitrary: d)
  case (Cons nu us)
  obtain n u where nu: "nu = (n, u)" by (cases nu)
  have n: "0 < sint n" using Cons.prems nu by auto
  from duration_parts_Cons [OF n, of d u us, where 'e = 'e] obtain q r where
    q: "sint q = trunc_div (sint d) (sint n)" and r: "sint r = trunc_mod (sint d) (sint n)"
    and step: "(duration_parts ((n, u) # us) d :: ('e, (i64 \<times> i64 \<times> string) list) result)
        = (if q \<noteq> 0 then map_ok (\<lambda>ps. (q, n, u) # ps) (duration_parts us r) else duration_parts us d)"
    by blast
  have sum: "sint q * sint n + sint r = sint d" by (simp add: q r trunc_div_mod)
  have sq: "0 < sint q \<longleftrightarrow> 0 < sint d" if "q \<noteq> 0"
    using that trunc_div_pos_iff [OF n] q by (metis sint_eq_0_iff)
  have sr: "0 < sint r \<longleftrightarrow> 0 < sint d" if "sint r \<noteq> 0"
    using that trunc_mod_nonneg [of "sint d" "sint n"] trunc_mod_nonpos [of "sint d" "sint n"] r
    by (cases "0 < sint d") auto
  show ?case
  proof (cases "us = []")
    case True
    with Cons.prems nu have "n = 1" by simp
    then have "sint r = 0" "sint q = sint d"
      using q r trunc_mod_abs_less [of 1 "sint d"] sum by auto
    then show ?thesis using step True nu sq \<open>n = 1\<close> by (cases "q = 0") auto
  next
    case False
    with Cons.prems nu have us: "\<forall>(n, u) \<in> set us. 0 < sint n" "us \<noteq> []" "fst (last us) = 1" by auto
    show ?thesis
    proof (cases "q = 0")
      case True
      with Cons.IH [OF us, of d] step nu show ?thesis by simp
    next
      case False
      from Cons.IH [OF us, of r] obtain ps where
        ps: "duration_parts us r = (Ok ps :: ('e, (i64 \<times> i64 \<times> string) list) result)"
        "(\<Sum>(q, n, u) \<leftarrow> ps. sint q * sint n) = sint r"
        "\<forall>(q, n, u) \<in> set ps. q \<noteq> 0 \<and> (0 < sint q \<longleftrightarrow> 0 < sint r)" by blast
      have "ps = [] \<or> sint r \<noteq> 0"
        using ps(1) duration_parts_zero [OF us(1), where 'a = 'e] by (auto simp: sint_eq_0_iff)
      with ps False step nu sum sq sr show ?thesis by auto
    qed
  qed
qed simp

text \<open>C21. The text of a duration is exact: its parts (days, hours, minutes, seconds,
  nanoseconds) are non-zero, have the sign of the duration and add up to it.\<close>

theorem duration_display_exact:
  "\<exists>ps :: (i64 \<times> i64 \<times> string) list. duration_display d
        = (Ok (join_with '' '' (map (\<lambda>(q, n, u). show_int (sint q) @ u) ps)) :: ('e, string) result)
     \<and> set (map snd ps) \<subseteq> set timeunits
     \<and> (\<Sum>(q, n, u) \<leftarrow> ps. sint q * sint n) = sint d
     \<and> (\<forall>(q, n, u) \<in> set ps. q \<noteq> 0 \<and> (0 < sint q \<longleftrightarrow> 0 < sint d))"

proof -
  have "\<forall>(n, u) \<in> set timeunits. 0 < sint n" "timeunits \<noteq> []" "fst (last timeunits) = 1"
    by (simp_all add: timeunits_def)
  from duration_parts_sum [OF this, of d, where 'e = 'e] obtain ps where
    ps: "duration_parts timeunits d = (Ok ps :: ('e, (i64 \<times> i64 \<times> string) list) result)"
    and rest: "(\<Sum>(q, n, u) \<leftarrow> ps. sint q * sint n) = sint d"
      "\<forall>(q, n, u) \<in> set ps. q \<noteq> 0 \<and> (0 < sint q \<longleftrightarrow> 0 < sint d)"
    by blast
  show ?thesis
    by (rule exI [of _ ps])
      (use rest duration_parts_units [OF ps] in \<open>simp add: duration_display_def ps case_prod_beta\<close>)
qed

theorem duration_display_exact_witness:
  "duration_display 93784000000007 = (Ok ''1d 2h 3m 4s 7ns'' :: (unit, string) result)
   \<and> (\<exists>ps :: (i64 \<times> i64 \<times> string) list. duration_display 93784000000007
        = (Ok (join_with '' '' (map (\<lambda>(q, n, u). show_int (sint q) @ u) ps)) :: (unit, string) result)
     \<and> set (map snd ps) \<subseteq> set timeunits
     \<and> (\<Sum>(q, n, u) \<leftarrow> ps. sint q * sint n) = 93784000000007
     \<and> (\<forall>(q, n, u) \<in> set ps. q \<noteq> 0 \<and> (0 < sint q \<longleftrightarrow> (0 :: int) < 93784000000007)))"
proof
  show "duration_display 93784000000007 = (Ok ''1d 2h 3m 4s 7ns'' :: (unit, string) result)"
    by code_simp
qed (use duration_display_exact [of 93784000000007] in simp)

text \<open>A zero duration prints as the empty string.\<close>

lemma duration_display_zero: "duration_display 0 = Ok []"
  by (simp add: duration_display_def timeunits_def i64_div_def trunc_div_def i64_min_def)

section \<open>Format strings\<close>

text \<open>The rejection of a bare fraction directive compares two counts of substrings, and a percent
  escape in front of the directive makes them equal: the format below is a literal percent
  sign followed by the directive that the check is meant to refuse.\<close>

theorem sanitize_accepts_bare_fraction:
  "sanitize_format_string ''%f'' = Err ParseError
   \<and> sanitize_format_string ''%%%f'' = Ok ''%%%f''"
  by (simp add: sanitize_format_string_def Let_def)

end
