(* ===== verification/Expressions.thy ===== *)
theory Expressions
  imports Times
begin

text \<open>
  The syntax of engine/expression.rs.

  The nine expression enums of the source are datatypes over the type \<open>'e\<close> of their children,
  and \<open>expression\<close> ties the knot. Families of source constructors that differ only in an
  operator or an operand type carry it as an argument: \<open>Compare KInt CLt\<close> is \<open>IntLt\<close>,
  \<open>IntArith IAdd\<close> is \<open>Add\<close>, \<open>IntNaiveField FHour\<close> is \<open>DateTimeNaiveHour\<close>.
\<close>

section \<open>Expressions\<close>

datatype cmp_op = CEq | CNe | CLt | CLe | CGt | CGe

datatype cmp_kind =
  KInt | KFloat | KString | KPtr | KBool | KDateTimeNaive | KDateTimeUtc | KDuration | KTuple

datatype int_op =
  IAdd | ISub | IMul | IFloorDiv | IMod | IPow | ILshift | IRshift | IAnd | IOr | IXor

datatype float_op = FAdd | FSub | FMul | FFloorDiv | FTrueDiv | FMod | FPow

datatype duration_op =
    DAdd | DSub | DMulByInt | DDivByInt | DTrueDivByInt | DMulByFloat | DDivByFloat | DMod
  | DDateTimeNaiveSub | DDateTimeUtcSub

datatype field =
    FNanosecond | FMicrosecond | FMillisecond | FSecond | FMinute | FHour | FDay | FMonth | FYear
  | FTimestampNs | FWeekday

text \<open>\<open>Expressions\<close>: a list of expressions, or the range of the row it stands for.\<close>

datatype 'e exprs = Explicit "'e list" | Arguments nat nat

datatype 'e bool_expression =
    BoolConst bool
  | IsNone 'e
  | Not 'e
  | And 'e 'e
  | Or 'e 'e
  | Xor 'e 'e
  | Compare cmp_kind cmp_op 'e 'e
  | AnyEq 'e 'e
  | AnyNe 'e 'e
  | BoolCastFromInt 'e
  | BoolCastFromFloat 'e
  | BoolCastFromString 'e

datatype 'e int_expression =
    IntConst i64
  | IntNeg 'e
  | IntAbs 'e
  | IntArith int_op 'e 'e
  | IntNaiveField field 'e
  | IntUtcField field 'e
  | IntDurationFloorDiv 'e 'e
  | IntDurationIn duration_unit 'e
  | IntCastFromFloat 'e
  | IntCastFromBool 'e
  | IntCastFromString 'e

datatype 'e float_expression =
    FloatConst f64
  | FloatNeg 'e
  | FloatAbs 'e
  | FloatArith float_op 'e 'e
  | IntTrueDiv 'e 'e
  | FloatNaiveTimestamp 'e 'e
  | FloatUtcTimestamp 'e 'e
  | FloatDurationTrueDiv 'e 'e
  | FloatCastFromBool 'e
  | FloatCastFromInt 'e
  | FloatCastFromString 'e

datatype 'e pointer_expression =
    PointerFrom "'e exprs"
  | PointerWithInstanceFrom "'e exprs" 'e

datatype 'e string_expression =
    StringAdd 'e 'e
  | StringMul 'e 'e
  | StringCastFromBool 'e
  | StringCastFromFloat 'e
  | StringCastFromInt 'e
  | DateTimeNaiveStrftime 'e 'e
  | DateTimeUtcStrftime 'e 'e
  | ToString 'e

datatype 'e naive_expression =
    NaiveAddDuration 'e 'e
  | NaiveSubDuration 'e 'e
  | NaiveStrptime 'e 'e
  | FromUtc 'e 'e
  | NaiveRound 'e 'e
  | NaiveFloor 'e 'e
  | FromTimestamp 'e 'e
  | FromFloatTimestamp 'e 'e

datatype 'e utc_expression =
    UtcAddDuration 'e 'e
  | UtcSubDuration 'e 'e
  | UtcStrptime 'e 'e
  | FromNaive 'e 'e
  | UtcRound 'e 'e
  | UtcFloor 'e 'e

datatype 'e duration_expression =
    DurationNeg 'e
  | DurationArith duration_op 'e 'e

datatype 'e any_expression =
    Argument nat
  | AnyConst Value
  | Apply "Value list \<Rightarrow> Value dyn_result" "'e exprs"
  | OptionalApply "Value list \<Rightarrow> Value dyn_result" "'e exprs"
  | IfElse 'e 'e 'e
  | OptionalPointerFrom "'e exprs"
  | OptionalPointerWithInstanceFrom "'e exprs" 'e
  | MakeTuple "'e exprs"
  | TupleGetItemChecked 'e 'e 'e
  | TupleGetItemUnchecked 'e 'e
  | JsonGetItem 'e 'e 'e
  | JsonToOptional 'e ptype
  | ParseStringToInt 'e bool
  | ParseStringToFloat 'e bool
  | ParseStringToBool 'e "string list" "string list" bool
  | Unwrap 'e
  | CastToOptionalIntFromOptionalFloat 'e
  | CastToOptionalFloatFromOptionalInt 'e
  | MatMul 'e 'e
  | FillError 'e 'e

datatype expression =
    EBool "expression bool_expression"
  | EInt "expression int_expression"
  | EFloat "expression float_expression"
  | EPointer "expression pointer_expression"
  | EString "expression string_expression"
  | EDateTimeNaive "expression naive_expression"
  | EDateTimeUtc "expression utc_expression"
  | EDuration "expression duration_expression"
  | EAny "expression any_expression"

end
