(* ===== verification/Evaluator.thy ===== *)
theory Evaluator
  imports Expressions
begin

text \<open>
  The evaluator of engine/expression.rs, with the matrix product of mat\_mul.rs.

  An evaluated child is an \<open>operand\<close>: which enum it came from, and the result of its \<open>eval\<close>.
  The \<open>eval\<close> of each enum is a function of the operands, sequenced by \<open>and_then\<close> in the order in
  which the source evaluates its children; evaluation has no effect besides its result, so
  short-circuiting is the choice of which operands the result depends on. \<open>eval_operand\<close>
  maps the children of an expression to operands and applies the function of its enum.

  A \<open>usize\<close> index is a \<open>nat\<close>: no row has \<open>2 ^ 64\<close> columns.
\<close>

section \<open>Operands\<close>

datatype expression_kind =
    XBool | XInt | XFloat | XPointer | XString | XDateTimeNaive | XDateTimeUtc | XDuration | XAny

type_synonym operand = "expression_kind \<times> Value dyn_result"

primrec kind_name :: "expression_kind \<Rightarrow> string" where
  "kind_name XBool = ''bool''"
| "kind_name XInt = ''int''"
| "kind_name XFloat = ''float''"
| "kind_name XPointer = ''pointer''"
| "kind_name XString = ''string''"
| "kind_name XDateTimeNaive = ''DateTimeNaive''"
| "kind_name XDateTimeUtc = ''DateTimeUtc''"
| "kind_name XDuration = ''Duration''"
| "kind_name XAny = ''unknown type''"

definition type_error :: "operand \<Rightarrow> string \<Rightarrow> data_error" where
  "type_error e expected = ColumnTypeMismatch expected (kind_name (fst e))"

definition eval_as_bool :: "operand \<Rightarrow> bool dyn_result" where
  "eval_as_bool e = (if fst e \<in> {XBool, XAny} then and_then (snd e) as_bool
     else Err (type_error e ''bool''))"

definition eval_as_int :: "operand \<Rightarrow> i64 dyn_result" where
  "eval_as_int e = (if fst e \<in> {XInt, XAny} then and_then (snd e) as_int
     else Err (type_error e ''int''))"

definition eval_as_float :: "operand \<Rightarrow> f64 dyn_result" where
  "eval_as_float e = (if fst e \<in> {XFloat, XAny} then and_then (snd e) as_float
     else Err (type_error e ''float''))"

definition eval_as_pointer :: "operand \<Rightarrow> key dyn_result" where
  "eval_as_pointer e = (if fst e \<in> {XPointer, XAny} then and_then (snd e) as_pointer
     else Err (type_error e ''pointer''))"

definition eval_as_string :: "operand \<Rightarrow> string dyn_result" where
  "eval_as_string e = (if fst e \<in> {XString, XAny} then and_then (snd e) as_string
     else Err (type_error e ''string''))"

definition eval_as_date_time_naive :: "operand \<Rightarrow> i64 dyn_result" where
  "eval_as_date_time_naive e = (if fst e \<in> {XDateTimeNaive, XAny}
     then and_then (snd e) as_date_time_naive else Err (type_error e ''DateTimeNaive''))"

definition eval_as_date_time_utc :: "operand \<Rightarrow> i64 dyn_result" where
  "eval_as_date_time_utc e = (if fst e \<in> {XDateTimeUtc, XAny}
     then and_then (snd e) as_date_time_utc else Err (type_error e ''DateTimeUtc''))"

definition eval_as_duration :: "operand \<Rightarrow> i64 dyn_result" where
  "eval_as_duration e = (if fst e \<in> {XDuration, XAny} then and_then (snd e) as_duration
     else Err (type_error e ''Duration''))"

definition eval_as_tuple :: "operand \<Rightarrow> Value list dyn_result" where
  "eval_as_tuple e = (if fst e = XAny then and_then (snd e) as_tuple
     else Err (type_error e ''Tuple''))"

text \<open>Left then right, and a function of both.\<close>

definition both :: "('e, 'a) result \<Rightarrow> ('e, 'b) result \<Rightarrow> ('a \<Rightarrow> 'b \<Rightarrow> ('e, 'c) result) \<Rightarrow> ('e, 'c) result" where
  "both l r f = and_then l (\<lambda>a. and_then r (\<lambda>b. f a b))"

section \<open>Argument lists\<close>

fun eval_exprs :: "Value list \<Rightarrow> operand exprs \<Rightarrow> Value list dyn_result" where
  "eval_exprs values (Explicit es) = try_collect (map snd es)"
| "eval_exprs values (Arguments lo hi) =
     (if lo \<le> hi \<and> hi \<le> length values then
        (let vs = take (hi - lo) (drop lo values) in
         if VError \<in> set vs then Err ErrorInValue else Ok vs)
      else Panic)"

fun argument_index :: "expression \<Rightarrow> nat option" where
  "argument_index e = (case e of EAny (Argument i) \<Rightarrow> Some i | _ \<Rightarrow> None)"

fun slice_loop :: "nat \<Rightarrow> expression list \<Rightarrow> nat option" where
  "slice_loop next_index [] = Some next_index"
| "slice_loop next_index (current # source) =
     (case argument_index current of
        None \<Rightarrow> None
      | Some current_index \<Rightarrow>
          if current_index \<noteq> next_index then None else slice_loop (current_index + 1) source)"

fun maybe_argument_slice :: "expression list \<Rightarrow> (nat \<times> nat) option" where
  "maybe_argument_slice [] = None"
| "maybe_argument_slice (first # source) =
     (case argument_index first of
        None \<Rightarrow> None
      | Some first_index \<Rightarrow>
          map_option (\<lambda>next_index. (first_index, next_index)) (slice_loop (first_index + 1) source))"

definition expressions_from :: "expression list \<Rightarrow> expression exprs" where
  "expressions_from source =
     (case maybe_argument_slice source of
        Some (lo, hi) \<Rightarrow> Arguments lo hi
      | None \<Rightarrow> Explicit source)"

section \<open>Elements of tuples, arrays and JSON\<close>

definition get_ndarray_element ::
    "('a \<Rightarrow> Value) \<Rightarrow> ('a ndarray \<Rightarrow> Value) \<Rightarrow> ('a ndarray \<Rightarrow> nat \<Rightarrow> 'a ndarray) \<Rightarrow> 'a ndarray \<Rightarrow> i64
      \<Rightarrow> Value option dyn_result" where
  "get_ndarray_element from_elem from_array index_axis array index =
     (case nd_shape array of
        [] \<Rightarrow> Panic
      | n # _ \<Rightarrow>
          if int n > i64_max then Err OtherError
          else let len = of_nat n; index = (if sint index < 0 then index + len else index) in
          if sint index < 0 \<or> sint len \<le> sint index then Ok None
          else let row = index_axis array (nat (sint index)) in
          if nd_shape row = [] then
            (case nd_elems row of [] \<Rightarrow> Panic | x # _ \<Rightarrow> Ok (Some (from_elem x)))
          else Ok (Some (from_array row)))"

definition get_tuple_element :: "Value list \<Rightarrow> i64 \<Rightarrow> Value option dyn_result" where
  "get_tuple_element tuple index =
     (if int (length tuple) > i64_max then Err OtherError
      else let len = of_nat (length tuple); index = (if sint index < 0 then index + len else index) in
      if sint index < 0 \<or> sint len \<le> sint index then Ok None
      else Ok (nth_opt tuple (nat (sint index))))"

definition get_array_element :: "externals \<Rightarrow> operand \<Rightarrow> operand \<Rightarrow> Value option dyn_result" where
  "get_array_element X expr index =
     both (eval_as_int index) (snd expr) (\<lambda>index v.
       case v of
         VIntArray h \<Rightarrow> get_ndarray_element VInt (value_from_int_array X) (i64_index_axis0 (x_nd X))
             (handle_data h) index
       | VFloatArray h \<Rightarrow> get_ndarray_element VFloat (value_from_float_array X)
             (f64_index_axis0 (x_nd X)) (handle_data h) index
       | VTuple t \<Rightarrow> get_tuple_element t index
       | _ \<Rightarrow> Err ValueError)"

definition get_json_item :: "externals \<Rightarrow> operand \<Rightarrow> operand \<Rightarrow> Value option dyn_result" where
  "get_json_item X expr index =
     both (snd index) (snd expr) (\<lambda>index v.
       and_then (as_json v) (\<lambda>json.
         case index of
           VInt i \<Rightarrow> Ok (map_option (value_from_json X)
               (if 0 \<le> sint i then json_get_index (x_json X) json (nat (sint i)) else None))
         | VString s \<Rightarrow> Ok (map_option (value_from_json X) (json_get_key (x_json X) json s))
         | _ \<Rightarrow> Err ValueError))"

definition mat_mul ::
    "('a ndarray \<Rightarrow> 'a ndarray \<Rightarrow> 'a ndarray) \<Rightarrow> 'a ndarray \<Rightarrow> 'a ndarray \<Rightarrow> 'a ndarray option" where
  "mat_mul dot a b =
     (let da = length (nd_shape a); db = length (nd_shape b) in
      if da < 1 \<or> 2 < da \<or> db < 1 \<or> 2 < db then None
      else if da = 2 then (if nd_shape a ! 1 \<noteq> nd_shape b ! 0 then None else Some (dot a b))
      else if nd_shape a ! 0 \<noteq> nd_shape b ! 0 then None
      else Some (dot a b))"

definition mat_mul_wrapper ::
    "('a ndarray \<Rightarrow> Value) \<Rightarrow> ('a ndarray \<Rightarrow> 'a ndarray \<Rightarrow> 'a ndarray) \<Rightarrow> 'a ndarray \<Rightarrow> 'a ndarray
      \<Rightarrow> Value dyn_result" where
  "mat_mul_wrapper from_array dot lhs rhs =
     (case mat_mul dot lhs rhs of Some r \<Rightarrow> Ok (from_array r) | None \<Rightarrow> Err ValueError)"

section \<open>Comparing tuples\<close>

text \<open>The arms of \<open>are_tuples_equal\<close> and \<open>compare_tuples\<close> for two elements that are not both
  tuples.\<close>

definition flat_equal :: "externals \<Rightarrow> Value \<Rightarrow> Value \<Rightarrow> bool dyn_result" where
  "flat_equal X l r =
     (let same = (if simple_type l = simple_type r then Ok (value_eq X l r) else Err ValueError) in
      if l = VNone \<or> r = VNone then Ok (l = VNone \<and> r = VNone)
      else case l of
          VFloat f \<Rightarrow> (case r of VInt i \<Rightarrow> Ok (ordered_float_cmp X f (f64_of_i64 i) = 0) | _ \<Rightarrow> same)
        | VInt i \<Rightarrow> (case r of VFloat f \<Rightarrow> Ok (ordered_float_cmp X (f64_of_i64 i) f = 0) | _ \<Rightarrow> same)
        | _ \<Rightarrow> same)"

definition flat_compare :: "externals \<Rightarrow> Value \<Rightarrow> Value \<Rightarrow> int dyn_result" where
  "flat_compare X l r =
     (let same = (if simple_type l \<noteq> simple_type r \<or> simple_type l \<in> {SJson, SIntArray, SFloatArray}
                  then Err ValueError else Ok (value_cmp X l r)) in
      case l of
          VFloat f \<Rightarrow> (case r of VInt i \<Rightarrow> Ok (ordered_float_cmp X f (f64_of_i64 i)) | _ \<Rightarrow> same)
        | VInt i \<Rightarrow> (case r of VFloat f \<Rightarrow> Ok (ordered_float_cmp X (f64_of_i64 i) f) | _ \<Rightarrow> same)
        | _ \<Rightarrow> same)"

fun tuples_equal_loop :: "externals \<Rightarrow> Value list \<Rightarrow> Value list \<Rightarrow> bool \<Rightarrow> bool dyn_result"
  and elements_equal :: "externals \<Rightarrow> Value \<Rightarrow> Value \<Rightarrow> bool dyn_result" where
  "tuples_equal_loop X [] rs acc = Ok acc"
| "tuples_equal_loop X (l # ls) rs acc =
     (case rs of [] \<Rightarrow> Ok acc
      | r # rs' \<Rightarrow> and_then (elements_equal X l r) (\<lambda>e. tuples_equal_loop X ls rs' (acc \<and> e)))"
| "elements_equal X (VTuple a) r =
     (case r of VTuple b \<Rightarrow> tuples_equal_loop X a b (length a = length b)
      | _ \<Rightarrow> flat_equal X (VTuple a) r)"
| "elements_equal X l r = flat_equal X l r"

definition are_tuples_equal :: "externals \<Rightarrow> Value list \<Rightarrow> Value list \<Rightarrow> bool dyn_result" where
  "are_tuples_equal X lhs rhs = tuples_equal_loop X lhs rhs (length lhs = length rhs)"

definition finish_compare :: "Value list \<Rightarrow> Value list \<Rightarrow> int \<Rightarrow> int" where
  "finish_compare lhs rhs c =
     (if c = 0 then sgn (int (length lhs) - int (length rhs)) else c)"

fun compare_loop :: "externals \<Rightarrow> Value list \<Rightarrow> Value list \<Rightarrow> int \<Rightarrow> int dyn_result"
  and compare_elements :: "externals \<Rightarrow> Value \<Rightarrow> Value \<Rightarrow> int dyn_result" where
  "compare_loop X [] rs acc = Ok acc"
| "compare_loop X (l # ls) rs acc =
     (case rs of [] \<Rightarrow> Ok acc
      | r # rs' \<Rightarrow> and_then (compare_elements X l r)
          (\<lambda>c. compare_loop X ls rs' (if acc = 0 then c else acc)))"
| "compare_elements X (VTuple a) r =
     (case r of VTuple b \<Rightarrow> map_ok (finish_compare a b) (compare_loop X a b 0)
      | _ \<Rightarrow> flat_compare X (VTuple a) r)"
| "compare_elements X l r = flat_compare X l r"

definition compare_tuples :: "externals \<Rightarrow> Value list \<Rightarrow> Value list \<Rightarrow> int dyn_result" where
  "compare_tuples X lhs rhs = map_ok (finish_compare lhs rhs) (compare_loop X lhs rhs 0)"

section \<open>Boolean expressions\<close>

fun cmp_holds :: "cmp_op \<Rightarrow> int \<Rightarrow> bool" where
  "cmp_holds CEq c = (c = 0)"
| "cmp_holds CNe c = (c \<noteq> 0)"
| "cmp_holds CLt c = (c < 0)"
| "cmp_holds CLe c = (c \<le> 0)"
| "cmp_holds CGt c = (c > 0)"
| "cmp_holds CGe c = (c \<ge> 0)"

fun float_cmp_holds :: "cmp_op \<Rightarrow> f64 \<Rightarrow> f64 \<Rightarrow> bool" where
  "float_cmp_holds CEq a b = f64_eq a b"
| "float_cmp_holds CNe a b = (\<not> f64_eq a b)"
| "float_cmp_holds CLt a b = f64_lt a b"
| "float_cmp_holds CLe a b = f64_le a b"
| "float_cmp_holds CGt a b = f64_lt b a"
| "float_cmp_holds CGe a b = f64_le b a"

fun bool_cmp_holds :: "cmp_op \<Rightarrow> bool \<Rightarrow> bool \<Rightarrow> bool" where
  "bool_cmp_holds CLt a b = (\<not> a \<and> b)"
| "bool_cmp_holds CGt a b = (a \<and> \<not> b)"
| "bool_cmp_holds c a b = cmp_holds c (bool_cmp a b)"

fun tuple_cmp :: "externals \<Rightarrow> cmp_op \<Rightarrow> Value list \<Rightarrow> Value list \<Rightarrow> bool dyn_result" where
  "tuple_cmp X CEq a b = are_tuples_equal X a b"
| "tuple_cmp X CNe a b = map_ok HOL.Not (are_tuples_equal X a b)"
| "tuple_cmp X c a b = map_ok (cmp_holds c) (compare_tuples X a b)"

fun eval_compare :: "externals \<Rightarrow> cmp_kind \<Rightarrow> cmp_op \<Rightarrow> operand \<Rightarrow> operand \<Rightarrow> bool dyn_result" where
  "eval_compare X KInt c l r =
     both (eval_as_int l) (eval_as_int r) (\<lambda>a b. Ok (cmp_holds c (i64_cmp a b)))"
| "eval_compare X KFloat c l r =
     both (eval_as_float l) (eval_as_float r) (\<lambda>a b. Ok (float_cmp_holds c a b))"
| "eval_compare X KString c l r =
     both (eval_as_string l) (eval_as_string r) (\<lambda>a b. Ok (cmp_holds c (lex_cmp char_cmp a b)))"
| "eval_compare X KPtr c l r =
     both (eval_as_pointer l) (eval_as_pointer r) (\<lambda>a b. Ok (cmp_holds c (key_cmp a b)))"
| "eval_compare X KBool c l r =
     both (eval_as_bool l) (eval_as_bool r) (\<lambda>a b. Ok (bool_cmp_holds c a b))"
| "eval_compare X KDateTimeNaive c l r =
     both (eval_as_date_time_naive l) (eval_as_date_time_naive r)
       (\<lambda>a b. Ok (cmp_holds c (i64_cmp a b)))"
| "eval_compare X KDateTimeUtc c l r =
     both (eval_as_date_time_utc l) (eval_as_date_time_utc r)
       (\<lambda>a b. Ok (cmp_holds c (i64_cmp a b)))"
| "eval_compare X KDuration c l r =
     both (eval_as_duration l) (eval_as_duration r) (\<lambda>a b. Ok (cmp_holds c (i64_cmp a b)))"
| "eval_compare X KTuple c l r = both (eval_as_tuple l) (eval_as_tuple r) (tuple_cmp X c)"

fun eval_bool :: "externals \<Rightarrow> operand bool_expression \<Rightarrow> bool dyn_result" where
  "eval_bool X (BoolConst c) = Ok c"
| "eval_bool X (IsNone e) = map_ok (\<lambda>v. v = VNone) (snd e)"
| "eval_bool X (Not e) = map_ok HOL.Not (eval_as_bool e)"
| "eval_bool X (And l r) = and_then (eval_as_bool l) (\<lambda>a. if a then eval_as_bool r else Ok False)"
| "eval_bool X (Or l r) = and_then (eval_as_bool l) (\<lambda>a. if a then Ok True else eval_as_bool r)"
| "eval_bool X (Xor l r) = both (eval_as_bool l) (eval_as_bool r) (\<lambda>a b. Ok (a \<noteq> b))"
| "eval_bool X (Compare k c l r) = eval_compare X k c l r"
| "eval_bool X (AnyEq l r) = both (snd l) (snd r) (\<lambda>a b. Ok (value_eq X a b))"
| "eval_bool X (AnyNe l r) = both (snd l) (snd r) (\<lambda>a b. Ok (\<not> value_eq X a b))"
| "eval_bool X (BoolCastFromInt e) = map_ok (\<lambda>i. i \<noteq> 0) (eval_as_int e)"
| "eval_bool X (BoolCastFromFloat e) = map_ok (\<lambda>f. \<not> f64_eq f 0) (eval_as_float e)"
| "eval_bool X (BoolCastFromString e) = map_ok (\<lambda>s. s \<noteq> []) (eval_as_string e)"

section \<open>Integer and float expressions\<close>

text \<open>Rust masks the shift distance to six bits; a left shift drops the high bits and a right
  shift of \<open>i64\<close> copies the sign. The exponent of \<open>pow\<close> is cut to 32 bits.\<close>

definition shift_amount :: "i64 \<Rightarrow> nat" where
  "shift_amount d = unat (d AND 63)"

definition i64_pow :: "i64 \<Rightarrow> i64 \<Rightarrow> i64" where
  "i64_pow a e = a ^ unat (ucast e :: u32)"

fun int_arith :: "externals \<Rightarrow> int_op \<Rightarrow> operand \<Rightarrow> operand \<Rightarrow> i64 dyn_result" where
  "int_arith X IAdd l r = both (eval_as_int l) (eval_as_int r) (\<lambda>a b. Ok (a + b))"
| "int_arith X ISub l r = both (eval_as_int l) (eval_as_int r) (\<lambda>a b. Ok (a - b))"
| "int_arith X IMul l r = both (eval_as_int l) (eval_as_int r) (\<lambda>a b. Ok (a * b))"
| "int_arith X IFloorDiv l r = and_then (eval_as_int r) (\<lambda>b.
     if b = 0 then Err DivisionByZero
     else and_then (eval_as_int l) (\<lambda>a. unwrap (int_div_floor X a b)))"
| "int_arith X IMod l r = and_then (eval_as_int r) (\<lambda>b.
     if b = 0 then Err DivisionByZero
     else and_then (eval_as_int l) (\<lambda>a. unwrap (int_mod_floor X a b)))"
| "int_arith X IPow l r =
     and_then (snd l) (\<lambda>v. and_then (as_int v) (\<lambda>a. and_then (eval_as_int r) (\<lambda>b. Ok (i64_pow a b))))"
| "int_arith X ILshift l r =
     both (eval_as_int l) (eval_as_int r) (\<lambda>a b. Ok (push_bit (shift_amount b) a))"
| "int_arith X IRshift l r =
     both (eval_as_int l) (eval_as_int r) (\<lambda>a b. Ok (signed_drop_bit (shift_amount b) a))"
| "int_arith X IAnd l r = both (eval_as_int l) (eval_as_int r) (\<lambda>a b. Ok (a AND b))"
| "int_arith X IOr l r = both (eval_as_int l) (eval_as_int r) (\<lambda>a b. Ok (a OR b))"
| "int_arith X IXor l r = both (eval_as_int l) (eval_as_int r) (\<lambda>a b. Ok (a XOR b))"

fun date_time_field :: "externals \<Rightarrow> field \<Rightarrow> i64 \<Rightarrow> i64 dyn_result" where
  "date_time_field X FNanosecond t = nanosecond X t"
| "date_time_field X FMicrosecond t = microsecond X t"
| "date_time_field X FMillisecond t = millisecond X t"
| "date_time_field X FSecond t = second X t"
| "date_time_field X FMinute t = minute X t"
| "date_time_field X FHour t = hour X t"
| "date_time_field X FDay t = day X t"
| "date_time_field X FMonth t = month X t"
| "date_time_field X FYear t = year X t"
| "date_time_field X FTimestampNs t = Ok t"
| "date_time_field X FWeekday t = weekday X t"

definition parse_i64 :: "string \<Rightarrow> i64 option" where
  "parse_i64 s = map_option word_of_int (parse_signed 64 s)"

fun eval_int :: "externals \<Rightarrow> operand int_expression \<Rightarrow> i64 dyn_result" where
  "eval_int X (IntConst c) = Ok c"
| "eval_int X (IntNeg e) = map_ok uminus (eval_as_int e)"
| "eval_int X (IntAbs e) = map_ok (\<lambda>a. if sint a < 0 then - a else a) (eval_as_int e)"
| "eval_int X (IntArith op l r) = int_arith X op l r"
| "eval_int X (IntNaiveField f e) = and_then (eval_as_date_time_naive e) (date_time_field X f)"
| "eval_int X (IntUtcField f e) = and_then (eval_as_date_time_utc e) (date_time_field X f)"
| "eval_int X (IntDurationFloorDiv l r) =
     both (eval_as_duration l) (eval_as_duration r) (duration_div X)"
| "eval_int X (IntDurationIn u e) = and_then (eval_as_duration e) (duration_in X u)"
| "eval_int X (IntCastFromFloat e) = map_ok f64_to_i64 (eval_as_float e)"
| "eval_int X (IntCastFromBool e) = map_ok (\<lambda>b. if b then 1 else 0) (eval_as_bool e)"
| "eval_int X (IntCastFromString e) =
     and_then (snd e) (\<lambda>v. and_then (as_string v) (\<lambda>s. ok_or ParseError (parse_i64 (trim s))))"

definition float_mod :: "f64 \<Rightarrow> f64 \<Rightarrow> f64" where
  "float_mod a b =
     (let modulo = f64_rem a b in
      if f64_eq modulo 0 then f64_copysign modulo b
      else if f64_lt b 0 \<noteq> f64_lt modulo 0 then f64_add modulo b
      else modulo)"

fun float_arith :: "externals \<Rightarrow> float_op \<Rightarrow> operand \<Rightarrow> operand \<Rightarrow> f64 dyn_result" where
  "float_arith X FAdd l r = both (eval_as_float l) (eval_as_float r) (\<lambda>a b. Ok (f64_add a b))"
| "float_arith X FSub l r = both (eval_as_float l) (eval_as_float r) (\<lambda>a b. Ok (f64_sub a b))"
| "float_arith X FMul l r = both (eval_as_float l) (eval_as_float r) (\<lambda>a b. Ok (f64_mul a b))"
| "float_arith X FFloorDiv l r = and_then (eval_as_float r) (\<lambda>b.
     if f64_eq b 0 then Err DivisionByZero
     else and_then (eval_as_float l) (\<lambda>a. Ok (f64_floor (f64_div a b))))"
| "float_arith X FTrueDiv l r = and_then (eval_as_float r) (\<lambda>b.
     if f64_eq b 0 then Err DivisionByZero
     else and_then (eval_as_float l) (\<lambda>a. Ok (f64_div a b)))"
| "float_arith X FMod l r = both (eval_as_float l) (eval_as_float r) (\<lambda>a b.
     if f64_eq b 0 then Err DivisionByZero else Ok (float_mod a b))"
| "float_arith X FPow l r =
     both (eval_as_float l) (eval_as_float r) (\<lambda>a b. Ok (f64_powf (x_std X) a b))"

fun eval_float :: "externals \<Rightarrow> operand float_expression \<Rightarrow> f64 dyn_result" where
  "eval_float X (FloatConst c) = Ok c"
| "eval_float X (FloatNeg e) = map_ok f64_neg (eval_as_float e)"
| "eval_float X (FloatAbs e) = map_ok f64_abs (eval_as_float e)"
| "eval_float X (FloatArith op l r) = float_arith X op l r"
| "eval_float X (IntTrueDiv l r) = and_then (eval_as_int r) (\<lambda>b.
     if b = 0 then Err DivisionByZero
     else and_then (eval_as_int l) (\<lambda>a. Ok (f64_div (f64_of_i64 a) (f64_of_i64 b))))"
| "eval_float X (FloatNaiveTimestamp e u) =
     both (eval_as_date_time_naive e) (eval_as_string u) timestamp_in_unit"
| "eval_float X (FloatUtcTimestamp e u) =
     both (eval_as_date_time_utc e) (eval_as_string u) timestamp_in_unit"
| "eval_float X (FloatDurationTrueDiv l r) =
     both (eval_as_duration l) (eval_as_duration r) true_div"
| "eval_float X (FloatCastFromBool e) =
     map_ok (\<lambda>b. if b then f64_of_int 1 else f64_of_int 0) (eval_as_bool e)"
| "eval_float X (FloatCastFromInt e) = map_ok f64_of_i64 (eval_as_int e)"
| "eval_float X (FloatCastFromString e) =
     and_then (snd e) (\<lambda>v. and_then (as_string v)
       (\<lambda>s. ok_or ParseError (f64_from_str (x_std X) (trim s))))"

section \<open>Pointer, string, date time and duration expressions\<close>

fun eval_pointer :: "externals \<Rightarrow> Value list \<Rightarrow> operand pointer_expression \<Rightarrow> key dyn_result" where
  "eval_pointer X values (PointerFrom args) = and_then (eval_exprs values args) (key_for_values X)"
| "eval_pointer X values (PointerWithInstanceFrom args i) =
     both (eval_exprs values args) (snd i)
       (\<lambda>vs v. generate_key X LastKeyColumn (vs @ [v]))"

fun eval_string :: "externals \<Rightarrow> operand string_expression \<Rightarrow> string dyn_result" where
  "eval_string X (StringAdd l r) = both (eval_as_string l) (eval_as_string r) (\<lambda>a b.
     if a = [] then Ok b else if b = [] then Ok a else Ok (a @ b))"
| "eval_string X (StringMul l r) = and_then (eval_as_int r) (\<lambda>n.
     if sint n < 0 then Ok []
     else and_then (eval_as_string l) (\<lambda>s. Ok (concat (replicate (nat (sint n)) s))))"
| "eval_string X (StringCastFromInt e) = map_ok (\<lambda>i. show_int (sint i)) (eval_as_int e)"
| "eval_string X (StringCastFromFloat e) = map_ok (f64_display (x_std X)) (eval_as_float e)"
| "eval_string X (StringCastFromBool e) =
     map_ok (\<lambda>b. if b then ''True'' else ''False'') (eval_as_bool e)"
| "eval_string X (DateTimeNaiveStrftime e f) =
     both (eval_as_date_time_naive e) (eval_as_string f) (naive_strftime X)"
| "eval_string X (DateTimeUtcStrftime e f) =
     both (eval_as_date_time_utc e) (eval_as_string f) (utc_strftime X)"
| "eval_string X (ToString e) =
     and_then (snd e) (\<lambda>v. case v of VString s \<Rightarrow> Ok s | _ \<Rightarrow> value_display X v)"

fun eval_date_time_naive :: "externals \<Rightarrow> operand naive_expression \<Rightarrow> i64 dyn_result" where
  "eval_date_time_naive X (NaiveAddDuration l r) =
     both (eval_as_date_time_naive l) (eval_as_duration r) (\<lambda>t d. Ok (date_time_add_duration t d))"
| "eval_date_time_naive X (NaiveSubDuration l r) =
     both (eval_as_date_time_naive l) (eval_as_duration r) (\<lambda>t d. Ok (date_time_sub_duration t d))"
| "eval_date_time_naive X (NaiveStrptime e f) =
     both (eval_as_string e) (eval_as_string f) (naive_strptime X)"
| "eval_date_time_naive X (FromUtc e tz) =
     both (eval_as_date_time_utc e) (eval_as_string tz) (to_naive_in_timezone X)"
| "eval_date_time_naive X (NaiveRound e d) =
     both (eval_as_date_time_naive e) (eval_as_duration d) (get_rounded_timestamp X)"
| "eval_date_time_naive X (NaiveFloor e d) =
     both (eval_as_date_time_naive e) (eval_as_duration d) (get_truncated_timestamp X)"
| "eval_date_time_naive X (FromTimestamp e u) =
     both (eval_as_int e) (eval_as_string u) from_timestamp"
| "eval_date_time_naive X (FromFloatTimestamp e u) =
     both (eval_as_float e) (eval_as_string u) from_timestamp_f64"

fun eval_date_time_utc :: "externals \<Rightarrow> operand utc_expression \<Rightarrow> i64 dyn_result" where
  "eval_date_time_utc X (UtcAddDuration l r) =
     both (eval_as_date_time_utc l) (eval_as_duration r) (\<lambda>t d. Ok (date_time_add_duration t d))"
| "eval_date_time_utc X (UtcSubDuration l r) =
     both (eval_as_date_time_utc l) (eval_as_duration r) (\<lambda>t d. Ok (date_time_sub_duration t d))"
| "eval_date_time_utc X (UtcStrptime e f) =
     both (eval_as_string e) (eval_as_string f) (utc_strptime X)"
| "eval_date_time_utc X (FromNaive e tz) =
     both (eval_as_date_time_naive e) (eval_as_string tz) (to_utc_from_timezone X)"
| "eval_date_time_utc X (UtcRound e d) =
     both (eval_as_date_time_utc e) (eval_as_duration d) (get_rounded_timestamp X)"
| "eval_date_time_utc X (UtcFloor e d) =
     both (eval_as_date_time_utc e) (eval_as_duration d) (get_truncated_timestamp X)"

fun duration_arith :: "externals \<Rightarrow> duration_op \<Rightarrow> operand \<Rightarrow> operand \<Rightarrow> i64 dyn_result" where
  "duration_arith X DAdd l r =
     both (eval_as_duration l) (eval_as_duration r) (\<lambda>d e. Ok (duration_add d e))"
| "duration_arith X DSub l r =
     both (eval_as_duration l) (eval_as_duration r) (\<lambda>d e. Ok (duration_sub d e))"
| "duration_arith X DMulByInt l r =
     both (eval_as_duration l) (eval_as_int r) (\<lambda>d i. Ok (duration_mul d i))"
| "duration_arith X DDivByInt l r =
     both (eval_as_duration l) (eval_as_int r) (duration_div_by_i64 X)"
| "duration_arith X DTrueDivByInt l r = both (eval_as_duration l) (eval_as_int r) true_div_by_i64"
| "duration_arith X DMulByFloat l r =
     both (eval_as_duration l) (eval_as_float r) (\<lambda>d f. Ok (duration_mul_f64 d f))"
| "duration_arith X DDivByFloat l r =
     both (eval_as_duration l) (eval_as_float r) duration_div_by_f64"
| "duration_arith X DMod l r = both (eval_as_duration l) (eval_as_duration r) (duration_rem X)"
| "duration_arith X DDateTimeNaiveSub l r =
     both (eval_as_date_time_naive l) (eval_as_date_time_naive r) (\<lambda>a b. Ok (date_time_sub a b))"
| "duration_arith X DDateTimeUtcSub l r =
     both (eval_as_date_time_utc l) (eval_as_date_time_utc r) (\<lambda>a b. Ok (date_time_sub a b))"

fun eval_duration :: "externals \<Rightarrow> operand duration_expression \<Rightarrow> i64 dyn_result" where
  "eval_duration X (DurationNeg e) = map_ok duration_neg (eval_as_duration e)"
| "eval_duration X (DurationArith op l r) = duration_arith X op l r"

section \<open>Untyped expressions\<close>

text \<open>\<open>try_parse\<close> is the common tail of the two number parsers.\<close>

definition try_parse :: "bool \<Rightarrow> Value option \<Rightarrow> Value dyn_result" where
  "try_parse optional parsed =
     (case parsed of Some v \<Rightarrow> Ok v | None \<Rightarrow> if optional then Ok VNone else Err ParseError)"

fun json_to_optional :: "externals \<Rightarrow> json \<Rightarrow> ptype \<Rightarrow> Value dyn_result" where
  "json_to_optional X json t =
     (if json_is_null (x_json X) json then Ok VNone
      else case t of
          TInt \<Rightarrow> ok_or ValueError (map_option VInt (json_as_i64 (x_json X) json))
        | TFloat \<Rightarrow> ok_or ValueError (map_option VFloat (json_as_f64 (x_json X) json))
        | TBool \<Rightarrow> ok_or ValueError (map_option VBool (json_as_bool (x_json X) json))
        | TString \<Rightarrow> ok_or ValueError (map_option VString (json_as_str (x_json X) json))
        | _ \<Rightarrow> Err ValueError)"

definition eval_mat_mul :: "externals \<Rightarrow> Value \<Rightarrow> Value \<Rightarrow> Value dyn_result" where
  "eval_mat_mul X l r =
     (case l of
        VFloatArray a \<Rightarrow> (case r of
            VFloatArray b \<Rightarrow> mat_mul_wrapper (value_from_float_array X) (f64_dot (x_nd X))
              (handle_data a) (handle_data b)
          | _ \<Rightarrow> Err ValueError)
      | VIntArray a \<Rightarrow> (case r of
            VIntArray b \<Rightarrow> mat_mul_wrapper (value_from_int_array X) (i64_dot (x_nd X))
              (handle_data a) (handle_data b)
          | _ \<Rightarrow> Err ValueError)
      | _ \<Rightarrow> Err ValueError)"

definition or_else :: "('e, 'a) result \<Rightarrow> ('e, 'a) result \<Rightarrow> ('e, 'a) result" where
  "or_else r s = (case r of Ok a \<Rightarrow> Ok a | Err _ \<Rightarrow> s | Panic \<Rightarrow> Panic)"

fun eval_any :: "externals \<Rightarrow> Value list \<Rightarrow> operand any_expression \<Rightarrow> Value dyn_result" where
  "eval_any X values (Argument i) = and_then (ok_or IndexOutOfBounds (nth_opt values i)) into_result"
| "eval_any X values (AnyConst v) = Ok v"
| "eval_any X values (Apply f args) = and_then (eval_exprs values args) f"
| "eval_any X values (OptionalApply f args) =
     and_then (eval_exprs values args) (\<lambda>vs. if VNone \<in> set vs then Ok VNone else f vs)"
| "eval_any X values (IfElse i t e) = and_then (eval_as_bool i) (\<lambda>b. if b then snd t else snd e)"
| "eval_any X values (OptionalPointerFrom args) =
     and_then (eval_exprs values args) (\<lambda>vs.
       if VNone \<in> set vs then Ok VNone else map_ok VPointer (key_for_values X vs))"
| "eval_any X values (OptionalPointerWithInstanceFrom args i) =
     both (eval_exprs values args) (snd i) (\<lambda>vs v.
       if VNone \<in> set (vs @ [v]) then Ok VNone
       else map_ok VPointer (generate_key X LastKeyColumn (vs @ [v])))"
| "eval_any X values (MakeTuple args) = map_ok VTuple (eval_exprs values args)"
| "eval_any X values (TupleGetItemChecked t i d) =
     and_then (get_array_element X t i) (\<lambda>entry. case entry of Some v \<Rightarrow> Ok v | None \<Rightarrow> snd d)"
| "eval_any X values (TupleGetItemUnchecked t i) =
     and_then (get_array_element X t i) (\<lambda>entry. ok_or IndexOutOfBounds entry)"
| "eval_any X values (JsonGetItem j i d) =
     and_then (get_json_item X j i) (\<lambda>entry. case entry of Some v \<Rightarrow> Ok v | None \<Rightarrow> snd d)"
| "eval_any X values (JsonToOptional e t) =
     and_then (snd e) (\<lambda>v. case v of
         VJson h \<Rightarrow> json_to_optional X (handle_data h) t
       | VNone \<Rightarrow> Ok VNone
       | _ \<Rightarrow> Err ValueError)"
| "eval_any X values (ParseStringToInt e optional) =
     and_then (eval_as_string e) (\<lambda>s. try_parse optional (map_option VInt (parse_i64 (trim s))))"
| "eval_any X values (ParseStringToFloat e optional) =
     and_then (eval_as_string e)
       (\<lambda>s. try_parse optional (map_option VFloat (f64_from_str (x_std X) (trim s))))"
| "eval_any X values (ParseStringToBool e true_list false_list optional) =
     and_then (eval_as_string e) (\<lambda>s. let s = str_to_lowercase (x_std X) (trim s) in
       if s \<in> set true_list then Ok (VBool True)
       else if s \<in> set false_list then Ok (VBool False)
       else if optional then Ok VNone
       else Err ParseError)"
| "eval_any X values (Unwrap e) =
     and_then (snd e) (\<lambda>v. if v = VNone then Err ValueError else Ok v)"
| "eval_any X values (CastToOptionalIntFromOptionalFloat e) =
     and_then (snd e) (\<lambda>v. case v of
         VFloat f \<Rightarrow> Ok (VInt (f64_to_i64 f)) | VNone \<Rightarrow> Ok VNone | _ \<Rightarrow> Err ValueError)"
| "eval_any X values (CastToOptionalFloatFromOptionalInt e) =
     and_then (snd e) (\<lambda>v. case v of
         VInt i \<Rightarrow> Ok (VFloat (f64_of_i64 i)) | VNone \<Rightarrow> Ok VNone | _ \<Rightarrow> Err ValueError)"
| "eval_any X values (MatMul l r) = both (snd l) (snd r) (eval_mat_mul X)"
| "eval_any X values (FillError e replacement) = or_else (snd e) (snd replacement)"

section \<open>Expressions\<close>

primrec eval_operand :: "externals \<Rightarrow> Value list \<Rightarrow> expression \<Rightarrow> operand" where
  "eval_operand X values (EBool e) =
     (XBool, map_ok VBool (eval_bool X (map_bool_expression (eval_operand X values) e)))"
| "eval_operand X values (EInt e) =
     (XInt, map_ok VInt (eval_int X (map_int_expression (eval_operand X values) e)))"
| "eval_operand X values (EFloat e) =
     (XFloat, map_ok VFloat (eval_float X (map_float_expression (eval_operand X values) e)))"
| "eval_operand X values (EPointer e) =
     (XPointer, map_ok VPointer
       (eval_pointer X values (map_pointer_expression (eval_operand X values) e)))"
| "eval_operand X values (EString e) =
     (XString, map_ok VString (eval_string X (map_string_expression (eval_operand X values) e)))"
| "eval_operand X values (EDateTimeNaive e) =
     (XDateTimeNaive, map_ok VDateTimeNaive
       (eval_date_time_naive X (map_naive_expression (eval_operand X values) e)))"
| "eval_operand X values (EDateTimeUtc e) =
     (XDateTimeUtc, map_ok VDateTimeUtc
       (eval_date_time_utc X (map_utc_expression (eval_operand X values) e)))"
| "eval_operand X values (EDuration e) =
     (XDuration, map_ok VDuration
       (eval_duration X (map_duration_expression (eval_operand X values) e)))"
| "eval_operand X values (EAny e) =
     (XAny, eval_any X values (map_any_expression (eval_operand X values) e))"


definition eval_expressions :: "externals \<Rightarrow> Value list \<Rightarrow> expression exprs \<Rightarrow> Value list dyn_result" where
  "eval_expressions X values es = eval_exprs values (map_exprs (eval_operand X values) es)"

fun new_const :: "Value \<Rightarrow> expression" where
  "new_const v = (case v of
       VBool b \<Rightarrow> EBool (BoolConst b)
     | VInt i \<Rightarrow> EInt (IntConst i)
     | VFloat f \<Rightarrow> EFloat (FloatConst f)
     | other \<Rightarrow> EAny (AnyConst other))"

section \<open>The argument slice\<close>










text \<open>Outside the row the two forms differ: the list reports an index error, the slice panics.\<close>

theorem argument_slice_panics:
  "eval_expressions X [] (Explicit [EAny (Argument 0)]) = Err IndexOutOfBounds
   \<and> eval_expressions X [] (expressions_from [EAny (Argument 0)]) = Panic"
  by (simp add: expressions_from_def eval_expressions_def nth_opt_def)

section \<open>Comparing tuples\<close>

lemma flat_compare_equal:
  "flat_compare X l r = Ok c \<Longrightarrow> flat_equal X l r = Ok (c = 0)"
  by (cases l; cases r)
    (simp_all add: flat_compare_def flat_equal_def value_eq_def split: if_splits)

lemma compare_loop_equal:
  "compare_loop X ls rs acc = Ok c \<Longrightarrow> tuples_equal_loop X ls rs (b \<and> acc = 0) = Ok (b \<and> c = 0)"
  "compare_elements X l r = Ok d \<Longrightarrow> elements_equal X l r = Ok (d = 0)"
proof (induction X ls rs acc and X l r arbitrary: c b and d
    rule: compare_loop_compare_elements.induct)
  case (2 X l ls rs acc)
  show ?case
  proof (cases rs)
    case Nil
    with 2 show ?thesis by simp
  next
    case (Cons r rs')
    with 2 obtain d where d: "compare_elements X l r = Ok d"
      and c: "compare_loop X ls rs' (if acc = 0 then d else acc) = Ok c"
      by (auto simp: result_simps)
    have "elements_equal X l r = Ok (d = 0)" using 2(1) Cons d by blast
    moreover have "tuples_equal_loop X ls rs' (b \<and> (if acc = 0 then d else acc) = 0) = Ok (b \<and> c = 0)"
      using 2(2) Cons d c by blast
    moreover have "(b \<and> (if acc = 0 then d else acc) = 0) = ((b \<and> acc = 0) \<and> d = 0)" by auto
    ultimately show ?thesis using Cons by simp
  qed
next
  case (3 X a r)
  show ?case
  proof (cases r)
    case (VTuple b)
    with 3 obtain c where c: "compare_loop X a b 0 = Ok c" "d = finish_compare a b c"
      by (auto simp: result_simps)
    with 3(1) VTuple have "tuples_equal_loop X a b (length a = length b \<and> (0 :: int) = 0)
        = Ok (length a = length b \<and> c = 0)" by blast
    with VTuple c show ?thesis by (auto simp: finish_compare_def sgn_0_0)
  qed (use 3 in \<open>auto dest: flat_compare_equal\<close>)
qed (auto dest: flat_compare_equal)

text \<open>C25. Tuple ordering and tuple equality agree: whenever two tuples can be compared, the
  equality test succeeds too and holds exactly when the comparison says \<open>Equal\<close>, nested tuples and
  mixed integers and floats included.\<close>

theorem compare_tuples_equal:
  assumes "compare_tuples X ls rs = Ok c"
  shows "are_tuples_equal X ls rs = Ok (c = 0)"
proof -
  from assms obtain d where d: "compare_loop X ls rs 0 = Ok d" "c = finish_compare ls rs d"
    by (auto simp: compare_tuples_def result_simps)
  from compare_loop_equal(1) [OF d(1), of "length ls = length rs"] d(2) show ?thesis
    by (auto simp: are_tuples_equal_def finish_compare_def sgn_0_0)
qed

theorem compare_tuples_equal_witness:
  "compare_tuples example_externals [VInt 1, VTuple [VBool True]] [VInt 1, VTuple []] = Ok 1
   \<and> are_tuples_equal example_externals [VInt 1, VTuple [VBool True]] [VInt 1, VTuple []] = Ok False"
proof -
  have "compare_tuples example_externals [VInt 1, VTuple [VBool True]] [VInt 1, VTuple []] = Ok 1"
    by (simp add: compare_tuples_def flat_compare_def finish_compare_def i64_cmp_def)
  from compare_tuples_equal [OF this] this show ?thesis by simp
qed

section \<open>Error values\<close>






















end
