(* ===== verification/Sessions.thy ===== *)
theory Sessions
  imports Values
begin

text \<open>
  Input sessions: connectors/adaptors.rs and the \<open>InputSession\<close> of the vendored
  external/differential-dataflow/src/input.rs.

  A session holds the time of its next update, a buffer, and the timely handle, of which the model
  keeps the epoch it has been advanced to and the messages pushed so far, each with the epoch at
  which it was pushed. The allocation state of the buffer (\<open>len == capacity\<close>) is the argument
  \<open>full\<close> of the operations that push, so that every lemma holds for any growth of the vector.

  The trait \<open>InputAdaptor\<close> is the locale \<open>input_adaptor\<close>, interpreted on its two implementations.
\<close>

section \<open>Sessions\<close>

record 'u session =
  s_time :: u64
  s_buffer :: "'u list"
  h_epoch :: u64
  h_sent :: "(u64 \<times> 'u list) list"

definition session_new :: "'u session" where
  "session_new = \<lparr>s_time = 0, s_buffer = [], h_epoch = 0, h_sent = []\<rparr>"

definition send_batch :: "'u session \<Rightarrow> 'u session" where
  "send_batch s = (if s_buffer s \<noteq> []
     then s\<lparr>h_sent := h_sent s @ [(h_epoch s, s_buffer s)], s_buffer := []\<rparr> else s)"

definition session_push :: "bool \<Rightarrow> 'u \<Rightarrow> 'u session \<Rightarrow> 'u session" where
  "session_push full u s =
     (let s = (if full \<and> 0 < length (s_buffer s) then send_batch s else s)
      in s\<lparr>s_buffer := s_buffer s @ [u]\<rparr>)"

definition session_flush :: "'u session \<Rightarrow> 'u session" where
  "session_flush s =
     (let s = send_batch s in if h_epoch s < s_time s then s\<lparr>h_epoch := s_time s\<rparr> else s)"

definition session_advance_to :: "u64 \<Rightarrow> 'u session \<Rightarrow> ('e, 'u session) result" where
  "session_advance_to t s =
     (if h_epoch s \<le> t then if s_time s \<le> t then Ok (s\<lparr>s_time := t\<rparr>) else Panic else Panic)"

definition session_log :: "'u session \<Rightarrow> 'u list" where
  "session_log s = concat (map snd (h_sent s)) @ s_buffer s"

section \<open>The native session\<close>

type_synonym native_session = "((key \<times> Value) \<times> u64 \<times> int) session"

definition native_insert :: "bool \<Rightarrow> key \<Rightarrow> Value \<Rightarrow> native_session \<Rightarrow> ('e, native_session) result" where
  "native_insert full k v s = Ok (session_push full ((k, v), s_time s, 1) s)"

definition native_remove :: "bool \<Rightarrow> key \<Rightarrow> Value \<Rightarrow> native_session \<Rightarrow> ('e, native_session) result" where
  "native_remove full k v s = Ok (session_push full ((k, v), s_time s, -1) s)"

definition native_upsert ::
    "bool \<Rightarrow> key \<Rightarrow> Value option \<Rightarrow> native_session \<Rightarrow> ('e, native_session) result" where
  "native_upsert full k v s = Panic"

section \<open>The upsert session\<close>

type_synonym upsert_session = "(key \<times> Value option \<times> u64) session"

definition upsert_insert :: "bool \<Rightarrow> key \<Rightarrow> Value \<Rightarrow> upsert_session \<Rightarrow> ('e, upsert_session) result" where
  "upsert_insert full k v s = Panic"

definition upsert_remove :: "bool \<Rightarrow> key \<Rightarrow> Value \<Rightarrow> upsert_session \<Rightarrow> ('e, upsert_session) result" where
  "upsert_remove full k v s = Panic"

definition upsert_upsert ::
    "bool \<Rightarrow> key \<Rightarrow> Value option \<Rightarrow> upsert_session \<Rightarrow> ('e, upsert_session) result" where
  "upsert_upsert full k v s = Ok (session_push full (k, v, s_time s) s)"

section \<open>The invariant of a session\<close>

text \<open>\<open>time_of\<close> reads the time of an update. The epoch never passes the session's time, the times
  of the updates never decrease and are not ahead of the session, and no message holds an
  update that is behind the epoch it was pushed at.\<close>

definition session_wf :: "('u \<Rightarrow> u64) \<Rightarrow> 'u session \<Rightarrow> bool" where
  "session_wf time_of s \<longleftrightarrow>
     h_epoch s \<le> s_time s
     \<and> sorted (map time_of (session_log s))
     \<and> (\<forall>u \<in> set (session_log s). time_of u \<le> s_time s)
     \<and> (\<forall>u \<in> set (s_buffer s). h_epoch s \<le> time_of u)
     \<and> (\<forall>(e, us) \<in> set (h_sent s). e \<le> h_epoch s \<and> (\<forall>u \<in> set us. e \<le> time_of u))"

named_theorems session_simps \<open>the effect of the operations of a session\<close>

lemma log_send_batch [session_simps]: "session_log (send_batch s) = session_log s"
  by (simp add: session_log_def send_batch_def)

lemma fields_send_batch [session_simps]:
  "s_time (send_batch s) = s_time s" "h_epoch (send_batch s) = h_epoch s"
  "s_buffer (send_batch s) = []"
  by (simp_all add: send_batch_def)

lemma log_session_push [session_simps]: "session_log (session_push full u s) = session_log s @ [u]"
  by (simp add: session_push_def session_log_def send_batch_def Let_def)

lemma fields_session_push [session_simps]:
  "s_time (session_push full u s) = s_time s" "h_epoch (session_push full u s) = h_epoch s"
  by (simp_all add: session_push_def send_batch_def Let_def)

lemma log_session_flush [session_simps]: "session_log (session_flush s) = session_log s"
  by (simp add: session_flush_def send_batch_def Let_def session_log_def)

lemma fields_session_flush [session_simps]:
  "s_time (session_flush s) = s_time s" "s_buffer (session_flush s) = []"
  "h_epoch (session_flush s) = (if h_epoch s < s_time s then s_time s else h_epoch s)"
  by (simp_all add: session_flush_def session_simps Let_def)

lemma advance_eq_Ok [session_simps]:
  "session_advance_to t s = Ok s' \<longleftrightarrow> h_epoch s \<le> t \<and> s_time s \<le> t \<and> s' = s\<lparr>s_time := t\<rparr>"
  by (auto simp: session_advance_to_def)

lemma log_time_update [session_simps]: "session_log (s\<lparr>s_time := t\<rparr>) = session_log s"
  by (simp add: session_log_def)

lemma wf_session_new: "session_wf time_of session_new"
  by (simp add: session_wf_def session_new_def session_log_def)

lemma wf_send_batch: "session_wf time_of s \<Longrightarrow> session_wf time_of (send_batch s)"
  unfolding session_wf_def session_simps by (auto simp: send_batch_def)

lemma wf_session_push:
  assumes "session_wf time_of s" and "time_of u = s_time s"
  shows "session_wf time_of (session_push full u s)"
proof -
  have "h_epoch s \<le> time_of u" using assms by (simp add: session_wf_def)
  with assms show ?thesis
    unfolding session_wf_def session_simps
    by (auto simp: session_push_def send_batch_def Let_def sorted_append)
qed

lemma wf_session_flush:
  assumes "session_wf time_of s" shows "session_wf time_of (session_flush s)"
proof -
  have "session_wf time_of (send_batch s)" using assms by (rule wf_send_batch)
  then show ?thesis
    by (auto simp: session_flush_def session_wf_def session_log_def Let_def session_simps)
qed

lemma wf_session_advance:
  assumes "session_wf time_of s" and "session_advance_to t s = Ok s'"
  shows "session_wf time_of s'"
  using assms by (auto simp: session_wf_def session_simps)

lemma advance_if_later:
  assumes "session_wf time_of s" and "s_time s \<le> t"
  shows "\<exists>s'. session_advance_to t s = Ok s'"
  using assms order_trans [of "h_epoch s" "s_time s" t] by (simp add: session_wf_def session_simps)

lemma advance_back_panics: "\<not> s_time s \<le> t \<Longrightarrow> session_advance_to t s = Panic"
  by (simp add: session_advance_to_def)

section \<open>The adaptor trait\<close>

datatype change = Insert key Value | Remove key Value | Upsert key "Value option"

primrec native_apply :: "bool \<Rightarrow> change \<Rightarrow> native_session \<Rightarrow> (data_error, native_session) result" where
  "native_apply full (Insert k v) s = native_insert full k v s"
| "native_apply full (Remove k v) s = native_remove full k v s"
| "native_apply full (Upsert k v) s = native_upsert full k v s"

primrec upsert_apply :: "bool \<Rightarrow> change \<Rightarrow> upsert_session \<Rightarrow> (data_error, upsert_session) result" where
  "upsert_apply full (Insert k v) s = upsert_insert full k v s"
| "upsert_apply full (Remove k v) s = upsert_remove full k v s"
| "upsert_apply full (Upsert k v) s = upsert_upsert full k v s"

primrec is_upsert :: "change \<Rightarrow> bool" where
  "is_upsert (Insert k v) = False"
| "is_upsert (Remove k v) = False"
| "is_upsert (Upsert k v) = True"

definition native_log :: "native_session \<Rightarrow> (change \<times> u64) list" where
  "native_log s = map (\<lambda>((k, v), t, d). (if d = 1 then Insert k v else Remove k v, t)) (session_log s)"

definition upsert_log :: "upsert_session \<Rightarrow> (change \<times> u64) list" where
  "upsert_log s = map (\<lambda>(k, v, t). (Upsert k v, t)) (session_log s)"

text \<open>What a connector relies on: every operation keeps the invariant, an update the adaptor
  supports is logged at the current time behind the earlier ones, only \<open>advance_to\<close> changes the
  time, and it fails its assertion exactly when the time would go back.\<close>

locale input_adaptor =
  fixes push :: "bool \<Rightarrow> change \<Rightarrow> 's \<Rightarrow> (data_error, 's) result"
    and advance :: "u64 \<Rightarrow> 's \<Rightarrow> (data_error, 's) result"
    and flush :: "'s \<Rightarrow> 's"
    and now :: "'s \<Rightarrow> u64"
    and entries :: "'s \<Rightarrow> (change \<times> u64) list"
    and wf :: "'s \<Rightarrow> bool"
    and supports :: "change \<Rightarrow> bool"
  assumes apply_supported: "supports c \<Longrightarrow> \<exists>s'. push full c s = Ok s'"
    and apply_unsupported: "\<not> supports c \<Longrightarrow> push full c s = Panic"
    and apply_inv: "wf s \<Longrightarrow> push full c s = Ok s' \<Longrightarrow> wf s'"
    and apply_log: "push full c s = Ok s' \<Longrightarrow> entries s' = entries s @ [(c, now s)]"
    and apply_time: "push full c s = Ok s' \<Longrightarrow> now s' = now s"
    and advance_ok: "wf s \<Longrightarrow> now s \<le> t \<Longrightarrow> \<exists>s'. advance t s = Ok s'"
    and advance_panic: "\<not> now s \<le> t \<Longrightarrow> advance t s = Panic"
    and advance_inv: "wf s \<Longrightarrow> advance t s = Ok s' \<Longrightarrow> wf s'"
    and advance_log: "advance t s = Ok s' \<Longrightarrow> entries s' = entries s"
    and advance_time: "advance t s = Ok s' \<Longrightarrow> now s' = t"
    and flush_inv: "wf s \<Longrightarrow> wf (flush s)"
    and flush_log: "entries (flush s) = entries s"
    and flush_time: "now (flush s) = now s"
    and log_sorted: "wf s \<Longrightarrow> sorted (map snd (entries s))"
    and log_le: "wf s \<Longrightarrow> u \<in> set (entries s) \<Longrightarrow> snd u \<le> now s"
begin

lemma advance_eq_Ok_iff:
  "wf s \<Longrightarrow> (\<exists>s'. advance t s = Ok s') \<longleftrightarrow> now s \<le> t"
  using advance_ok advance_panic by fastforce

lemma apply_safe: "supports c \<Longrightarrow> push full c s \<noteq> Panic"
  using apply_supported [of c full s] by auto

end

abbreviation native_wf :: "native_session \<Rightarrow> bool" where
  "native_wf \<equiv> session_wf (\<lambda>(kv, t, d). t)"

abbreviation upsert_wf :: "upsert_session \<Rightarrow> bool" where
  "upsert_wf \<equiv> session_wf (\<lambda>(k, v, t). t)"

lemmas native_defs = native_insert_def native_remove_def native_upsert_def
lemmas upsert_defs = upsert_insert_def upsert_remove_def upsert_upsert_def

lemma times_native_log: "map snd (native_log s) = map (\<lambda>(kv, t, d). t) (session_log s)"
  by (auto simp: native_log_def)

lemma times_upsert_log: "map snd (upsert_log s) = map (\<lambda>(k, v, t). t) (session_log s)"
  by (auto simp: upsert_log_def)

interpretation native: input_adaptor native_apply session_advance_to session_flush s_time native_log
  native_wf "\<lambda>c. \<not> is_upsert c"
proof (unfold_locales, goal_cases)
  case (1 c full s)
  then show ?case by (cases c) (simp_all add: native_defs)
next
  case (2 c full s)
  then show ?case by (cases c) (simp_all add: native_defs)
next
  case (3 s full c s')
  then show ?case by (cases c) (auto simp: native_defs intro: wf_session_push)
next
  case (4 full c s s')
  then show ?case by (cases c) (auto simp: native_defs native_log_def session_simps)
next
  case (5 full c s s')
  then show ?case by (cases c) (auto simp: native_defs session_simps)
next
  case (14 s)
  then show ?case by (simp add: times_native_log session_wf_def)
next
  case (15 s u)
  then have "snd u \<in> set (map snd (native_log s))" by auto
  with 15 show ?case unfolding times_native_log by (auto simp: session_wf_def)
next
  case (6 s t)
  then show ?case by (rule advance_if_later)
next
  case (7 s t)
  then show ?case by (rule advance_back_panics)
next
  case (8 s t s')
  then show ?case by (rule wf_session_advance)
next
  case (11 s)
  then show ?case by (rule wf_session_flush)
qed (auto simp: session_simps native_log_def)

interpretation upsert: input_adaptor upsert_apply session_advance_to session_flush s_time upsert_log
  upsert_wf is_upsert
proof (unfold_locales, goal_cases)
  case (1 c full s)
  then show ?case by (cases c) (simp_all add: upsert_defs)
next
  case (2 c full s)
  then show ?case by (cases c) (simp_all add: upsert_defs)
next
  case (3 s full c s')
  then show ?case by (cases c) (auto simp: upsert_defs intro: wf_session_push)
next
  case (4 full c s s')
  then show ?case by (cases c) (auto simp: upsert_defs upsert_log_def session_simps)
next
  case (5 full c s s')
  then show ?case by (cases c) (auto simp: upsert_defs session_simps)
next
  case (14 s)
  then show ?case by (simp add: times_upsert_log session_wf_def)
next
  case (15 s u)
  then have "snd u \<in> set (map snd (upsert_log s))" by auto
  with 15 show ?case unfolding times_upsert_log by (auto simp: session_wf_def)
next
  case (6 s t)
  then show ?case by (rule advance_if_later)
next
  case (7 s t)
  then show ?case by (rule advance_back_panics)
next
  case (8 s t s')
  then show ?case by (rule wf_session_advance)
next
  case (11 s)
  then show ?case by (rule wf_session_flush)
qed (auto simp: session_simps upsert_log_def)

end
