(* ===== verification/ErrorLog.thy ===== *)
theory ErrorLog
  imports Sessions
begin

text \<open>
  The error log: \<open>ErrorLogInner\<close>, \<open>ErrorLog\<close>, \<open>ErrorLogger\<close> and \<open>create_error_logger\<close> of
  engine/dataflow.rs and the logging traits of engine/report\_error.rs.

  The log is an input session of its own. The clock readings are arguments: \<open>now\<close> is
  \<open>SystemTime::now()\<close> in nanoseconds since the epoch, \<open>ms\<close> the reading of
  \<open>current_unix_timestamp_ms\<close>. A computation that may log is a \<open>run\<close>: its result with the rows
  it has written to the log. The text of an error is the argument \<open>text\<close>.
\<close>

section \<open>The log\<close>

record error_log =
  el_session :: native_session
  el_last_flush :: "nat option"

definition ERROR_LOG_FLUSH_PERIOD :: nat where
  "ERROR_LOG_FLUSH_PERIOD = 1000000000"

text \<open>The second component is the time of the next flush.\<close>

definition maybe_flush :: "nat \<Rightarrow> nat \<Rightarrow> error_log \<Rightarrow> (data_error, error_log \<times> nat) result" where
  "maybe_flush now ms l =
     and_then
       (if (case el_last_flush l of None \<Rightarrow> True | Some f \<Rightarrow> f + ERROR_LOG_FLUSH_PERIOD \<le> now) then
          if ms < 2 ^ 64 then
            map_ok (\<lambda>s. \<lparr>el_session = session_flush s, el_last_flush = Some now\<rparr>)
              (session_advance_to (of_nat ms div 2 * 2) (el_session l))
          else Panic
        else Ok l)
       (\<lambda>l. map_ok (\<lambda>f. (l, f + ERROR_LOG_FLUSH_PERIOD)) (unwrap (el_last_flush l)))"

definition error_log_new :: "native_session \<Rightarrow> nat \<Rightarrow> nat \<Rightarrow> (data_error, error_log) result" where
  "error_log_new session now ms =
     map_ok fst (maybe_flush now ms \<lparr>el_session = session, el_last_flush = None\<rparr>)"

definition error_log_insert ::
    "bool \<Rightarrow> key \<Rightarrow> Value \<Rightarrow> nat \<Rightarrow> nat \<Rightarrow> error_log \<Rightarrow> (data_error, error_log) result" where
  "error_log_insert full random_key v now ms l =
     and_then (native_insert full random_key v (el_session l))
       (\<lambda>s. map_ok fst (maybe_flush now ms (l\<lparr>el_session := s\<rparr>)))"

text \<open>A sequence of insertions, each with its random key and its clock readings.\<close>

record log_step =
  ls_full :: bool
  ls_key :: key
  ls_value :: Value
  ls_now :: nat
  ls_ms :: nat

fun error_log_run :: "log_step list \<Rightarrow> error_log \<Rightarrow> (data_error, error_log) result" where
  "error_log_run [] l = Ok l"
| "error_log_run (st # steps) l =
     and_then (error_log_insert (ls_full st) (ls_key st) (ls_value st) (ls_now st) (ls_ms st) l)
       (error_log_run steps)"

section \<open>Loggers\<close>

type_synonym log_row = "i64 \<times> data_error \<times> string"

datatype error_logger = ErrorReporter | ErrorLogger i64 bool

definition inner_log :: "i64 \<Rightarrow> bool \<Rightarrow> data_error \<Rightarrow> string option \<Rightarrow> log_row list" where
  "inner_log operator_id has_log e trace =
     (if e = ErrorInValue then []
      else if has_log then [(operator_id, e, case trace of None \<Rightarrow> [] | Some t \<Rightarrow> t)]
      else [])"

definition log_row_value :: "(data_error \<Rightarrow> string) \<Rightarrow> log_row \<Rightarrow> Value" where
  "log_row_value text row = (case row of (operator_id, e, trace) \<Rightarrow>
     VTuple [VInt operator_id, VString (text e), VString trace])"

type_synonym 'a run = "(data_error, 'a \<times> log_row list) result"

definition run_return :: "'a \<Rightarrow> 'a run" where
  "run_return a = Ok (a, [])"

definition run_bind :: "'a run \<Rightarrow> ('a \<Rightarrow> 'b run) \<Rightarrow> 'b run" where
  "run_bind r f = and_then r (\<lambda>(a, l). map_ok (\<lambda>(b, m). (b, l @ m)) (f a))"

definition log_error :: "error_logger \<Rightarrow> data_error \<Rightarrow> unit run" where
  "log_error logger e = (case logger of
       ErrorReporter \<Rightarrow> Panic
     | ErrorLogger operator_id has_log \<Rightarrow> Ok ((), inner_log operator_id has_log e None))"

definition log_error_with_trace :: "error_logger \<Rightarrow> data_error \<Rightarrow> string \<Rightarrow> unit run" where
  "log_error_with_trace logger e trace = (case logger of
       ErrorReporter \<Rightarrow> Panic
     | ErrorLogger operator_id has_log \<Rightarrow> Ok ((), inner_log operator_id has_log e (Some trace)))"

definition unwrap_or_else_log :: "error_logger \<Rightarrow> 'a \<Rightarrow> 'a dyn_result \<Rightarrow> 'a run" where
  "unwrap_or_else_log logger fallback r = (case r of
       Ok a \<Rightarrow> run_return a
     | Err e \<Rightarrow> run_bind (log_error logger e) (\<lambda>_. run_return fallback)
     | Panic \<Rightarrow> Panic)"

definition unwrap_or_log_with_trace :: "error_logger \<Rightarrow> string \<Rightarrow> 'a \<Rightarrow> 'a dyn_result \<Rightarrow> 'a run" where
  "unwrap_or_log_with_trace logger trace fallback r = (case r of
       Ok a \<Rightarrow> run_return a
     | Err e \<Rightarrow> run_bind (log_error_with_trace logger e trace) (\<lambda>_. run_return fallback)
     | Panic \<Rightarrow> Panic)"

definition ok_with_logger :: "error_logger \<Rightarrow> 'a dyn_result \<Rightarrow> 'a option run" where
  "ok_with_logger logger r = unwrap_or_else_log logger None (map_ok Some r)"

text \<open>A \<open>ReportError\<close> passes the error on and panics; \<open>unwrap_with_reporter\<close> does so for any error.\<close>

definition unwrap_with_reporter :: "'a dyn_result \<Rightarrow> 'a run" where
  "unwrap_with_reporter r = (case r of Ok a \<Rightarrow> run_return a | Err e \<Rightarrow> Panic | Panic \<Rightarrow> Panic)"

fun run_map :: "('a \<Rightarrow> 'b run) \<Rightarrow> 'a list \<Rightarrow> 'b list run" where
  "run_map f [] = run_return []"
| "run_map f (x # xs) = run_bind (f x) (\<lambda>y. run_bind (run_map f xs) (\<lambda>ys. run_return (y # ys)))"

record operator_properties =
  op_id :: nat
  op_depends_on_error_log :: bool

datatype engine_error = OperatorIdNotSet | NotSupportedInIteration | OtherEngineError

definition create_error_logger ::
    "bool \<Rightarrow> operator_properties option \<Rightarrow> bool \<Rightarrow> bool \<Rightarrow> (engine_error, error_logger) result" where
  "create_error_logger terminate_on_error properties current_log default_log =
     (if terminate_on_error then Ok ErrorReporter
      else case properties of
        None \<Rightarrow> Err OperatorIdNotSet
      | Some p \<Rightarrow>
          if int (op_id p) \<le> i64_max
          then Ok (ErrorLogger (of_nat (op_id p))
                 (\<not> op_depends_on_error_log p \<and> (current_log \<or> default_log)))
          else Err OtherEngineError)"

section \<open>Laws of logged computations\<close>

named_theorems run_simps \<open>results of logged computations\<close>

lemma run_return_eq [run_simps]: "run_return a = Ok (b, l) \<longleftrightarrow> b = a \<and> l = []"
  by (auto simp: run_return_def)

lemma run_return_ne [simp]: "run_return a \<noteq> Panic" "run_return a \<noteq> Err e"
  by (simp_all add: run_return_def)

lemma run_bind_eq_Ok [run_simps]:
  "run_bind r f = Ok (b, l) \<longleftrightarrow> (\<exists>a m n. r = Ok (a, m) \<and> f a = Ok (b, n) \<and> l = m @ n)"
  by (auto simp: run_bind_def result_simps split: prod.splits)

lemma run_bind_eq_Panic [run_simps]:
  "run_bind r f = Panic \<longleftrightarrow> r = Panic \<or> (\<exists>a m. r = Ok (a, m) \<and> f a = Panic)"
  by (auto simp: run_bind_def result_simps split: prod.splits)

lemma run_bind_return [simp]: "run_bind (run_return a) f = f a"
  by (cases "f a") (auto simp: run_bind_def run_return_def)

lemma run_map_eq_Ok:
  "run_map f xs = Ok (ys, l) \<Longrightarrow> list_all2 (\<lambda>x y. \<exists>m. f x = Ok (y, m)) xs ys"
  by (induction xs arbitrary: ys l) (auto simp: run_simps)

lemma run_map_safe:
  "(\<And>x. x \<in> set xs \<Longrightarrow> \<exists>p. f x = Ok p) \<Longrightarrow> \<exists>p. run_map f xs = Ok p"
proof (induction xs)
  case (Cons x xs)
  then obtain a m b n where "f x = Ok (a, m)" "run_map f xs = Ok (b, n)" by (metis list.set_intros surj_pair)
  then show ?case by (simp add: run_bind_def run_return_def)
qed (simp add: run_return_def)

section \<open>The times of the log\<close>











text \<open>A clock that goes back behind the last flush makes the assertion of \<open>advance_to\<close> fail.\<close>

lemma error_log_clock_back_panics:
  "and_then (error_log_new session_new 5 1001) (error_log_run
     [\<lparr>ls_full = False, ls_key = 1, ls_value = VInt 7, ls_now = 2000000000, ls_ms = 900\<rparr>]) = Panic"
  by (simp add: error_log_new_def maybe_flush_def session_new_def session_advance_to_def
      session_flush_def send_batch_def error_log_insert_def native_insert_def session_push_def
      ERROR_LOG_FLUSH_PERIOD_def Let_def)

end
