(* ===== verification/Orders.thy ===== *)
theory Orders
  imports Prelude "HOL-Library.Multiset"
begin

text \<open>
  The parts of the standard library that work on an \<open>Ord\<close>: the derived orders of pairs, options
  and \<open>Reverse\<close>, \<open>Iterator::min\<close> and \<open>max\<close> with their treatment of ties, and the stable
  \<open>slice::sort\<close>. An order is a comparison function with values below, at and above zero; the
  laws are those of the locale \<open>total_cmp\<close>.
\<close>

section \<open>Derived orders\<close>

definition prod_cmp :: "('a \<Rightarrow> 'a \<Rightarrow> int) \<Rightarrow> ('b \<Rightarrow> 'b \<Rightarrow> int) \<Rightarrow> 'a \<times> 'b \<Rightarrow> 'a \<times> 'b \<Rightarrow> int" where
  "prod_cmp c d p q = (let r = c (fst p) (fst q) in if r \<noteq> 0 then r else d (snd p) (snd q))"

definition reverse_cmp :: "('a \<Rightarrow> 'a \<Rightarrow> int) \<Rightarrow> 'a \<Rightarrow> 'a \<Rightarrow> int" where
  "reverse_cmp c x y = c y x"

definition key_by :: "('b \<Rightarrow> 'b \<Rightarrow> int) \<Rightarrow> ('a \<Rightarrow> 'b) \<Rightarrow> 'a \<Rightarrow> 'a \<Rightarrow> int" where
  "key_by c f x y = c (f x) (f y)"

fun option_cmp :: "('a \<Rightarrow> 'a \<Rightarrow> int) \<Rightarrow> 'a option \<Rightarrow> 'a option \<Rightarrow> int" where
  "option_cmp c None None = 0"
| "option_cmp c None (Some _) = -1"
| "option_cmp c (Some _) None = 1"
| "option_cmp c (Some a) (Some b) = c a b"

lemma total_cmp_key_by: "total_cmp c \<Longrightarrow> total_cmp (key_by c f)"
  unfolding total_cmp_def key_by_def by blast

lemma total_cmp_reverse:
  assumes "total_cmp c" shows "total_cmp (reverse_cmp c)"
proof
  fix x y z
  show "reverse_cmp c x x = 0" using total_cmp.cmp_refl [OF assms] by (simp add: reverse_cmp_def)
  show "reverse_cmp c y x = - reverse_cmp c x y"
    unfolding reverse_cmp_def by (rule total_cmp.cmp_antisym [OF assms])
  show "reverse_cmp c x y \<le> 0 \<Longrightarrow> reverse_cmp c y z \<le> 0 \<Longrightarrow> reverse_cmp c x z \<le> 0"
    unfolding reverse_cmp_def using total_cmp.cmp_trans [OF assms] by blast
qed

lemma total_cmp_prod:
  assumes "total_cmp c" and "total_cmp d"
  shows "total_cmp (prod_cmp c d)"
proof
  fix x y z :: "'a \<times> 'b"
  show "prod_cmp c d x x = 0"
    by (simp add: prod_cmp_def total_cmp.cmp_refl [OF assms(1)] total_cmp.cmp_refl [OF assms(2)])
  show "prod_cmp c d y x = - prod_cmp c d x y"
    using total_cmp.cmp_antisym [OF assms(1), of "fst x" "fst y"]
      total_cmp.cmp_antisym [OF assms(2), of "snd x" "snd y"]
    by (auto simp: prod_cmp_def Let_def)
  assume xy: "prod_cmp c d x y \<le> 0" and yz: "prod_cmp c d y z \<le> 0"
  have le: "c (fst x) (fst y) \<le> 0" "c (fst y) (fst z) \<le> 0"
    using xy yz by (auto simp: prod_cmp_def Let_def split: if_split_asm)
  note chain = cmp_chainD [OF total_cmp.chain [OF assms(1)] le]
  show "prod_cmp c d x z \<le> 0"
  proof (cases "c (fst x) (fst z) = 0")
    case True
    then have "c (fst x) (fst y) = 0" "c (fst y) (fst z) = 0" using chain by blast+
    with xy yz have "d (snd x) (snd y) \<le> 0" "d (snd y) (snd z) \<le> 0" by (auto simp: prod_cmp_def)
    with True show ?thesis
      using total_cmp.cmp_trans [OF assms(2)] by (auto simp: prod_cmp_def)
  next
    case False
    with chain(1) show ?thesis by (simp add: prod_cmp_def)
  qed
qed

lemma total_cmp_option:
  assumes "total_cmp c" shows "total_cmp (option_cmp c)"
proof
  fix x y z :: "'a option"
  show "option_cmp c x x = 0" by (cases x) (simp_all add: total_cmp.cmp_refl [OF assms])
  show "option_cmp c y x = - option_cmp c x y"
    by (cases x; cases y) (auto intro: total_cmp.cmp_antisym [OF assms])
  show "option_cmp c x y \<le> 0 \<Longrightarrow> option_cmp c y z \<le> 0 \<Longrightarrow> option_cmp c x z \<le> 0"
    by (cases x; cases y; cases z) (auto intro: total_cmp.cmp_trans [OF assms])
qed

section \<open>Minimum, maximum and sorting\<close>

text \<open>\<open>min\<close> keeps the first of several minimal elements, \<open>max\<close> the last of several maximal ones.\<close>

fun min_loop :: "('a \<Rightarrow> 'a \<Rightarrow> int) \<Rightarrow> 'a \<Rightarrow> 'a list \<Rightarrow> 'a" where
  "min_loop c x [] = x"
| "min_loop c x (y # ys) = min_loop c (if 0 < c x y then y else x) ys"

fun max_loop :: "('a \<Rightarrow> 'a \<Rightarrow> int) \<Rightarrow> 'a \<Rightarrow> 'a list \<Rightarrow> 'a" where
  "max_loop c x [] = x"
| "max_loop c x (y # ys) = max_loop c (if 0 < c x y then x else y) ys"

fun iter_min :: "('a \<Rightarrow> 'a \<Rightarrow> int) \<Rightarrow> 'a list \<Rightarrow> 'a option" where
  "iter_min c [] = None"
| "iter_min c (x # xs) = Some (min_loop c x xs)"

fun iter_max :: "('a \<Rightarrow> 'a \<Rightarrow> int) \<Rightarrow> 'a list \<Rightarrow> 'a option" where
  "iter_max c [] = None"
| "iter_max c (x # xs) = Some (max_loop c x xs)"

fun sort_insert :: "('a \<Rightarrow> 'a \<Rightarrow> int) \<Rightarrow> 'a \<Rightarrow> 'a list \<Rightarrow> 'a list" where
  "sort_insert c x [] = [x]"
| "sort_insert c x (y # ys) = (if c x y \<le> 0 then x # y # ys else y # sort_insert c x ys)"

definition slice_sort :: "('a \<Rightarrow> 'a \<Rightarrow> int) \<Rightarrow> 'a list \<Rightarrow> 'a list" where
  "slice_sort c xs = foldr (sort_insert c) xs []"

definition cmp_sorted :: "('a \<Rightarrow> 'a \<Rightarrow> int) \<Rightarrow> 'a list \<Rightarrow> bool" where
  "cmp_sorted c xs \<longleftrightarrow> sorted_wrt (\<lambda>x y. c x y \<le> 0) xs"

lemma mset_sort_insert [simp]: "mset (sort_insert c x xs) = add_mset x (mset xs)"
  by (induction xs) auto

lemma mset_slice_sort [simp]: "mset (slice_sort c xs) = mset xs"
  by (induction xs) (simp_all add: slice_sort_def)

lemma set_slice_sort [simp]: "set (slice_sort c xs) = set xs"
  using mset_slice_sort [of c xs] by (metis set_mset_mset)

lemma length_slice_sort [simp]: "length (slice_sort c xs) = length xs"
  using mset_slice_sort [of c xs] by (metis size_mset)

lemma set_sort_insert: "set (sort_insert c x xs) = insert x (set xs)"
  by (induction xs) auto

lemma min_loop_in: "min_loop c x xs \<in> insert x (set xs)"
  by (induction xs arbitrary: x) (auto split: if_splits)

lemma max_loop_in: "max_loop c x xs \<in> insert x (set xs)"
  by (induction xs arbitrary: x) (auto split: if_splits)

lemma iter_min_in: "iter_min c xs = Some m \<Longrightarrow> m \<in> set xs"
  using min_loop_in by (cases xs) fastforce+

lemma iter_max_in: "iter_max c xs = Some m \<Longrightarrow> m \<in> set xs"
  using max_loop_in by (cases xs) fastforce+

lemma iter_min_Some: "xs \<noteq> [] \<Longrightarrow> \<exists>m. iter_min c xs = Some m"
  by (cases xs) auto

lemma iter_max_Some: "xs \<noteq> [] \<Longrightarrow> \<exists>m. iter_max c xs = Some m"
  by (cases xs) auto

context total_cmp begin

lemma min_loop_le: "y \<in> insert x (set xs) \<Longrightarrow> cmp (min_loop cmp x xs) y \<le> 0"
proof (induction xs arbitrary: x y)
  case Nil
  then show ?case by (simp add: cmp_refl)
next
  case (Cons z zs)
  let ?w = "if 0 < cmp x z then z else x"
  have w: "cmp (min_loop cmp ?w zs) ?w \<le> 0" by (rule Cons.IH) simp
  have "cmp ?w x \<le> 0" "cmp ?w z \<le> 0"
    using cmp_refl [of x] cmp_refl [of z] cmp_antisym [of x z] cmp_antisym [of z x] by auto
  with w have "cmp (min_loop cmp ?w zs) x \<le> 0" "cmp (min_loop cmp ?w zs) z \<le> 0"
    using cmp_trans by blast+
  moreover have "y \<in> set zs \<Longrightarrow> cmp (min_loop cmp ?w zs) y \<le> 0" by (rule Cons.IH) simp
  ultimately show ?case using Cons.prems by auto
qed

lemma max_loop_ge: "y \<in> insert x (set xs) \<Longrightarrow> cmp y (max_loop cmp x xs) \<le> 0"
proof (induction xs arbitrary: x y)
  case Nil
  then show ?case by (simp add: cmp_refl)
next
  case (Cons z zs)
  let ?w = "if 0 < cmp x z then x else z"
  have w: "cmp ?w (max_loop cmp ?w zs) \<le> 0" by (rule Cons.IH) simp
  have "cmp x ?w \<le> 0" "cmp z ?w \<le> 0"
    using cmp_refl [of x] cmp_refl [of z] cmp_antisym [of x z] cmp_antisym [of z x] by auto
  with w have "cmp x (max_loop cmp ?w zs) \<le> 0" "cmp z (max_loop cmp ?w zs) \<le> 0"
    using cmp_trans by blast+
  moreover have "y \<in> set zs \<Longrightarrow> cmp y (max_loop cmp ?w zs) \<le> 0" by (rule Cons.IH) simp
  ultimately show ?case using Cons.prems by auto
qed

lemma iter_min_le: "iter_min cmp xs = Some m \<Longrightarrow> x \<in> set xs \<Longrightarrow> cmp m x \<le> 0"
  using min_loop_le by (cases xs) fastforce+

lemma iter_max_ge: "iter_max cmp xs = Some m \<Longrightarrow> x \<in> set xs \<Longrightarrow> cmp x m \<le> 0"
  using max_loop_ge by (cases xs) fastforce+

lemma cmp_le_antisym: "cmp x y \<le> 0 \<Longrightarrow> cmp y x \<le> 0 \<Longrightarrow> cmp x y = 0"
  using cmp_antisym [of x y] by linarith

lemma iter_min_set:
  "set xs = set ys \<Longrightarrow> iter_min cmp xs = Some m \<Longrightarrow> iter_min cmp ys = Some n \<Longrightarrow> cmp m n = 0"
  by (rule cmp_le_antisym) (auto intro: iter_min_le dest: iter_min_in)

lemma iter_max_set:
  "set xs = set ys \<Longrightarrow> iter_max cmp xs = Some m \<Longrightarrow> iter_max cmp ys = Some n \<Longrightarrow> cmp m n = 0"
  by (rule cmp_le_antisym) (auto intro: iter_max_ge dest: iter_max_in)

lemma sort_insert_sorted: "cmp_sorted cmp xs \<Longrightarrow> cmp_sorted cmp (sort_insert cmp x xs)"
proof (induction xs)
  case Nil
  then show ?case by (simp add: cmp_sorted_def)
next
  case (Cons y ys)
  then have ys: "cmp_sorted cmp (sort_insert cmp x ys)" and y: "\<forall>z \<in> set ys. cmp y z \<le> 0"
    by (auto simp: cmp_sorted_def)
  show ?case
  proof (cases "cmp x y \<le> 0")
    case True
    then have "\<forall>z \<in> set ys. cmp x z \<le> 0" using y cmp_trans by blast
    with True Cons.prems show ?thesis by (simp add: cmp_sorted_def)
  next
    case False
    then have "cmp y x \<le> 0" using cmp_total by blast
    with False ys y show ?thesis by (auto simp: cmp_sorted_def set_sort_insert)
  qed
qed

lemma slice_sort_sorted: "cmp_sorted cmp (slice_sort cmp xs)"
proof (induction xs)
  case Nil
  then show ?case by (simp add: slice_sort_def cmp_sorted_def)
next
  case (Cons x xs)
  then show ?case by (simp add: slice_sort_def sort_insert_sorted)
qed

lemma sorted_mset_unique:
  assumes "cmp_sorted cmp xs" and "cmp_sorted cmp ys" and "mset xs = mset ys"
  shows "list_all2 (\<lambda>x y. cmp x y = 0) xs ys"
  using assms
proof (induction xs arbitrary: ys)
  case Nil
  then show ?case by simp
next
  case (Cons x xs)
  then obtain y ys' where ys: "ys = y # ys'" by (cases ys) auto
  have "x \<in># mset ys" "y \<in># mset (x # xs)" using Cons.prems(3) ys by (metis list.set_intros(1) set_mset_mset)+
  then have "cmp y x \<le> 0" "cmp x y \<le> 0"
    using Cons.prems(1,2) ys cmp_refl by (auto simp: cmp_sorted_def)
  then have xy: "cmp x y = 0" by (rule cmp_le_antisym [rotated])
  show ?case
  proof (cases "x = y")
    case True
    with Cons ys xy show ?thesis by (auto simp: cmp_sorted_def)
  next
    case False
    with \<open>x \<in># mset ys\<close> ys have "x \<in># mset ys'" by simp
    then obtain l r where s: "ys' = l @ x # r" by (metis set_mset_mset split_list)
    define zs where "zs = l @ y # r"
    have l: "\<forall>z \<in> set l. cmp y z = 0"
    proof
      fix z assume "z \<in> set l"
      then have "cmp y z \<le> 0" "cmp z x \<le> 0"
        using Cons.prems(2) ys s by (auto simp: cmp_sorted_def sorted_wrt_append)
      then show "cmp y z = 0" using xy cmp_antisym [of x y] cmp_trans cmp_le_antisym by (metis neg_0_le_iff_le order_refl)
    qed
    have r: "\<forall>z \<in> set r. cmp y z \<le> 0" using Cons.prems(2) ys s by (auto simp: cmp_sorted_def)
    have lr: "cmp_sorted cmp (l @ r)"
      using Cons.prems(2) ys s by (auto simp: cmp_sorted_def sorted_wrt_append)
    have "\<forall>z \<in> set l. cmp z y \<le> 0" using l cmp_antisym [of y] by simp
    with lr r have "cmp_sorted cmp zs" by (auto simp: zs_def cmp_sorted_def sorted_wrt_append)
    moreover have "mset xs = mset zs" using Cons.prems(3) ys s by (simp add: zs_def)
    ultimately have IH: "list_all2 (\<lambda>x y. cmp x y = 0) xs zs"
      using Cons.IH Cons.prems(1) by (auto simp: cmp_sorted_def)
    have "list_all2 (\<lambda>a b. cmp a b = 0) zs ys'"
      using xy cmp_eq_sym by (auto simp: zs_def s cmp_refl intro!: list_all2_appendI list.rel_refl)
    with IH have "list_all2 (\<lambda>x y. cmp x y = 0) xs ys'"
      by (rule list_all2_trans [rotated]) (blast intro: cmp_eq_trans)
    with xy ys show ?thesis by simp
  qed
qed

lemma slice_sort_perm:
  "mset xs = mset ys \<Longrightarrow> list_all2 (\<lambda>x y. cmp x y = 0) (slice_sort cmp xs) (slice_sort cmp ys)"
  by (rule sorted_mset_unique) (simp_all add: slice_sort_sorted)

lemma cmp_le_cong:
  assumes "cmp a a' = 0" and "cmp b b' = 0" shows "cmp a b \<le> 0 \<longleftrightarrow> cmp a' b' \<le> 0"
proof -
  have "cmp a' a \<le> 0" "cmp a a' \<le> 0" "cmp b' b \<le> 0" "cmp b b' \<le> 0"
    using assms cmp_antisym [of a a'] cmp_antisym [of b b'] by simp_all
  then show ?thesis using cmp_trans [of a' a b] cmp_trans [of a' b b'] cmp_trans [of a a' b']
      cmp_trans [of a b' b] by blast
qed

lemma cmp_less_cong:
  assumes "cmp a a' = 0" and "cmp b b' = 0" shows "0 < cmp a b \<longleftrightarrow> 0 < cmp a' b'"
  using cmp_le_cong [OF assms] by linarith

lemma iter_min_cong:
  assumes "list_all2 (\<lambda>x y. cmp x y = 0) xs ys" and "xs \<noteq> []"
  shows "\<exists>m n. iter_min cmp xs = Some m \<and> iter_min cmp ys = Some n \<and> cmp m n = 0"
proof -
  have loop: "cmp (min_loop cmp x xs) (min_loop cmp y ys) = 0"
    if "list_all2 (\<lambda>x y. cmp x y = 0) xs ys" "cmp x y = 0" for x y xs ys
    using that
  proof (induction xs ys arbitrary: x y rule: list_all2_induct)
    case (Cons a xs b ys)
    then show ?case using cmp_less_cong [of x y a b] by simp
  qed simp
  from assms show ?thesis by (cases xs; cases ys) (auto intro: loop)
qed

lemma iter_max_cong:
  assumes "list_all2 (\<lambda>x y. cmp x y = 0) xs ys" and "xs \<noteq> []"
  shows "\<exists>m n. iter_max cmp xs = Some m \<and> iter_max cmp ys = Some n \<and> cmp m n = 0"
proof -
  have loop: "cmp (max_loop cmp x xs) (max_loop cmp y ys) = 0"
    if "list_all2 (\<lambda>x y. cmp x y = 0) xs ys" "cmp x y = 0" for x y xs ys
    using that
  proof (induction xs ys arbitrary: x y rule: list_all2_induct)
    case (Cons a xs b ys)
    then show ?case using cmp_less_cong [of x y a b] by simp
  qed simp
  from assms show ?thesis by (cases xs; cases ys) (auto intro: loop)
qed

lemma slice_sort_cong:
  "list_all2 (\<lambda>x y. cmp x y = 0) xs ys
   \<Longrightarrow> list_all2 (\<lambda>x y. cmp x y = 0) (slice_sort cmp xs) (slice_sort cmp ys)"
proof -
  have ins: "list_all2 (\<lambda>x y. cmp x y = 0) (sort_insert cmp a xs) (sort_insert cmp b ys)"
    if "list_all2 (\<lambda>x y. cmp x y = 0) xs ys" "cmp a b = 0" for a b xs ys
    using that
  proof (induction xs ys rule: list_all2_induct)
    case (Cons x xs y ys)
    then show ?case using cmp_le_cong [of a b x y] by simp
  qed simp
  show "list_all2 (\<lambda>x y. cmp x y = 0) xs ys
    \<Longrightarrow> list_all2 (\<lambda>x y. cmp x y = 0) (slice_sort cmp xs) (slice_sort cmp ys)"
    by (induction xs ys rule: list_all2_induct) (simp_all add: slice_sort_def ins)
qed

lemma lex_eq_0_iff: "lex_cmp cmp xs ys = 0 \<longleftrightarrow> list_all2 (\<lambda>x y. cmp x y = 0) xs ys"
  by (induction xs ys rule: list_induct2') auto

end

lemma prod_cmp_eq_0: "prod_cmp c d p q = 0 \<longleftrightarrow> c (fst p) (fst q) = 0 \<and> d (snd p) (snd q) = 0"
  by (simp add: prod_cmp_def Let_def)

end
