(* ===== verification/Consolidation.thy ===== *)
theory Consolidation
  imports Orders
begin

text \<open>
  Differences and their consolidation, as the engine's vendored differential dataflow computes
  them: external/differential-dataflow/src/difference.rs and consolidation.rs.

  The trait \<open>Semigroup\<close> is the locale \<open>difference\<close>, interpreted here on \<open>isize\<close> and in the theory
  of the reducers on the state of the integer sum. The two consolidation routines work in
  place through raw pointers; the model updates a list by index, and an access outside the slice, like
  the assertion of the source, is \<open>Panic\<close>.
\<close>

section \<open>Differences\<close>

definition isize_plus_equals :: "i64 \<Rightarrow> i64 \<Rightarrow> i64" where
  "isize_plus_equals a b = a + b"

definition isize_is_zero :: "i64 \<Rightarrow> bool" where
  "isize_is_zero a \<longleftrightarrow> a = 0"

definition isize_multiply :: "i64 \<Rightarrow> i64 \<Rightarrow> i64" where
  "isize_multiply a b = a * b"

locale difference =
  fixes plus_equals :: "'r \<Rightarrow> 'r \<Rightarrow> 'r"
    and is_zero :: "'r \<Rightarrow> bool"
    and zero :: 'r
  assumes assoc: "plus_equals (plus_equals a b) c = plus_equals a (plus_equals b c)"
    and commute: "plus_equals a b = plus_equals b a"
    and zero_left: "plus_equals zero a = a"
    and is_zero_iff: "is_zero a \<longleftrightarrow> a = zero"

interpretation isize: difference isize_plus_equals isize_is_zero 0
  by unfold_locales (simp_all add: isize_plus_equals_def isize_is_zero_def)

section \<open>Consolidation in place\<close>

definition swap :: "nat \<Rightarrow> nat \<Rightarrow> 'a list \<Rightarrow> 'a list" where
  "swap i j xs = xs[i := xs ! j, j := xs ! i]"

text \<open>The loop shared by the two routines: \<open>same\<close> compares the data of two entries, \<open>add\<close> adds the
  difference of the second to the first, \<open>zero\<close> tests the difference.\<close>

definition consolidate_step ::
    "('a \<Rightarrow> 'a \<Rightarrow> bool) \<Rightarrow> ('a \<Rightarrow> 'a \<Rightarrow> 'a) \<Rightarrow> ('a \<Rightarrow> bool) \<Rightarrow> nat \<Rightarrow> 'a list \<times> nat
      \<Rightarrow> (unit, 'a list \<times> nat) result" where
  "consolidate_step same add zero index p = (case p of (entries, offset) \<Rightarrow>
     if \<not> (offset < index \<and> index < length entries) then Panic
     else if same (entries ! offset) (entries ! index)
     then Ok (entries[offset := add (entries ! offset) (entries ! index)], offset)
     else (let offset = (if \<not> zero (entries ! offset) then offset + 1 else offset)
           in Ok (swap offset index entries, offset)))"

fun consolidate_loop ::
    "('a \<Rightarrow> 'a \<Rightarrow> bool) \<Rightarrow> ('a \<Rightarrow> 'a \<Rightarrow> 'a) \<Rightarrow> ('a \<Rightarrow> bool) \<Rightarrow> nat list \<Rightarrow> 'a list \<times> nat
      \<Rightarrow> (unit, 'a list \<times> nat) result" where
  "consolidate_loop same add zero [] p = Ok p"
| "consolidate_loop same add zero (index # indices) p =
     and_then (consolidate_step same add zero index p) (consolidate_loop same add zero indices)"

definition consolidate_sorted ::
    "('a \<Rightarrow> 'a \<Rightarrow> bool) \<Rightarrow> ('a \<Rightarrow> 'a \<Rightarrow> 'a) \<Rightarrow> ('a \<Rightarrow> bool) \<Rightarrow> 'a list \<Rightarrow> (unit, 'a list \<times> nat) result" where
  "consolidate_sorted same add zero entries =
     and_then (consolidate_loop same add zero [1 ..< length entries] (entries, 0)) (\<lambda>(entries, offset).
       Ok (entries, if offset < length entries \<and> \<not> zero (entries ! offset) then offset + 1 else offset))"

definition consolidate_slice ::
    "('t \<Rightarrow> 't \<Rightarrow> int) \<Rightarrow> ('r \<Rightarrow> 'r \<Rightarrow> 'r) \<Rightarrow> ('r \<Rightarrow> bool) \<Rightarrow> ('t \<times> 'r) list
      \<Rightarrow> (unit, ('t \<times> 'r) list \<times> nat) result" where
  "consolidate_slice cmp plus_equals is_zero entries =
     consolidate_sorted (\<lambda>p q. cmp (fst p) (fst q) = 0) (\<lambda>p q. (fst p, plus_equals (snd p) (snd q)))
       (\<lambda>p. is_zero (snd p)) (slice_sort (key_by cmp fst) entries)"

definition consolidate_from ::
    "('t \<Rightarrow> 't \<Rightarrow> int) \<Rightarrow> ('r \<Rightarrow> 'r \<Rightarrow> 'r) \<Rightarrow> ('r \<Rightarrow> bool) \<Rightarrow> ('t \<times> 'r) list \<Rightarrow> nat
      \<Rightarrow> (unit, ('t \<times> 'r) list) result" where
  "consolidate_from cmp plus_equals is_zero vec offset =
     (if offset \<le> length vec then
        map_ok (\<lambda>(entries, n). take (offset + n) (take offset vec @ entries))
          (consolidate_slice cmp plus_equals is_zero (drop offset vec))
      else Panic)"

definition consolidate ::
    "('t \<Rightarrow> 't \<Rightarrow> int) \<Rightarrow> ('r \<Rightarrow> 'r \<Rightarrow> 'r) \<Rightarrow> ('r \<Rightarrow> bool) \<Rightarrow> ('t \<times> 'r) list
      \<Rightarrow> (unit, ('t \<times> 'r) list) result" where
  "consolidate cmp plus_equals is_zero vec = consolidate_from cmp plus_equals is_zero vec 0"

text \<open>The routine for updates with a time sorts by \<open>sort_unstable_by\<close>, which is the argument \<open>sort_by\<close>.\<close>

definition consolidate_updates_slice ::
    "(('d \<times> 't \<times> 'r) list \<Rightarrow> ('d \<times> 't \<times> 'r) list) \<Rightarrow> ('d \<Rightarrow> 'd \<Rightarrow> int) \<Rightarrow> ('t \<Rightarrow> 't \<Rightarrow> int) \<Rightarrow> ('r \<Rightarrow> 'r \<Rightarrow> 'r)
      \<Rightarrow> ('r \<Rightarrow> bool) \<Rightarrow> ('d \<times> 't \<times> 'r) list \<Rightarrow> (unit, ('d \<times> 't \<times> 'r) list \<times> nat) result" where
  "consolidate_updates_slice sort_by data_cmp time_cmp plus_equals is_zero entries =
     consolidate_sorted
       (\<lambda>(d, t, r) (e, u, s). data_cmp d e = 0 \<and> time_cmp t u = 0)
       (\<lambda>(d, t, r) (e, u, s). (d, t, plus_equals r s)) (\<lambda>(d, t, r). is_zero r) (sort_by entries)"

section \<open>The runs of a sorted list\<close>

text \<open>The reference: adjacent equal entries are added up and zero sums are dropped.\<close>

fun merge_runs :: "('a \<Rightarrow> 'a \<Rightarrow> bool) \<Rightarrow> ('a \<Rightarrow> 'a \<Rightarrow> 'a) \<Rightarrow> ('a \<Rightarrow> bool) \<Rightarrow> 'a list \<Rightarrow> 'a list" where
  "merge_runs same add zero [] = []"
| "merge_runs same add zero [p] = (if zero p then [] else [p])"
| "merge_runs same add zero (p # q # ps) =
     (if same p q then merge_runs same add zero (add p q # ps)
      else (if zero p then [] else [p]) @ merge_runs same add zero (q # ps))"

lemma swap_split:
  assumes "offset = length xs" and "index = length xs + length ys + 1"
  shows "swap offset index (xs @ p # ys @ q # zs) = xs @ q # ys @ p # zs"
  using assms by (simp add: swap_def nth_append list_update_append)

definition consolidated_prefix :: "('a \<Rightarrow> bool) \<Rightarrow> 'a list \<Rightarrow> nat \<Rightarrow> 'a list" where
  "consolidated_prefix zero entries offset =
     take offset entries @ (if zero (entries ! offset) then [] else [entries ! offset])"

text \<open>The invariant: the finished prefix and the current entry, some used-up entries, and the
  unread suffix; the prefix and the runs of the rest make the runs of the whole.\<close>

lemma consolidate_loop_runs:
  assumes "index = length finished + 1 + length used"
  shows "\<exists>entries' offset'. consolidate_loop same add zero [index ..< index + length rest]
      (finished @ p # used @ rest, length finished) = Ok (entries', offset')
    \<and> offset' < length entries' \<and> length entries' = length finished + 1 + length used + length rest
    \<and> finished @ merge_runs same add zero (p # rest)
      = consolidated_prefix zero entries' offset'"
  using assms
proof (induction rest arbitrary: finished p used index)
  case Nil
  then show ?case by (simp add: nth_append consolidated_prefix_def)
next
  case (Cons q rest)
  let ?entries = "finished @ p # used @ q # rest"
  have upt: "[index ..< index + length (q # rest)]
      = index # [Suc index ..< Suc index + length rest]"
    using upt_conv_Cons [of index "index + length (q # rest)"] by (simp del: upt_Suc)
  have nths: "?entries ! length finished = p" "?entries ! index = q" "index < length ?entries"
    "length finished < index" using Cons.prems by (simp_all add: nth_append)
  show ?case
  proof (cases "same p q")
    case True
    then have step: "consolidate_step same add zero index (?entries, length finished)
        = Ok (finished @ add p q # (used @ [q]) @ rest, length finished)"
      using nths by (simp add: consolidate_step_def list_update_append)
    show ?thesis
      unfolding upt consolidate_loop.simps step and_then.simps
      using Cons.IH [of "Suc index" finished "used @ [q]" "add p q"] Cons.prems True by (simp del: upt_Suc)
  next
    case False
    show ?thesis
    proof (cases "zero p")
      case True
      have step: "consolidate_step same add zero index (?entries, length finished)
          = Ok (finished @ q # (used @ [p]) @ rest, length finished)"
        using nths False True Cons.prems
        by (simp add: consolidate_step_def swap_split)
      show ?thesis
        unfolding upt consolidate_loop.simps step and_then.simps
        using Cons.IH [of "Suc index" finished "used @ [p]" q] Cons.prems True False by (simp del: upt_Suc)
    next
      case nz: False
      show ?thesis
      proof (cases used)
        case Nil
        have "swap (Suc (length finished)) index ?entries = (finished @ [p]) @ q # rest"
          using Cons.prems Nil by (simp add: swap_def nth_append list_update_append)
        then have step: "consolidate_step same add zero index (?entries, length finished)
            = Ok ((finished @ [p]) @ q # [] @ rest, length (finished @ [p]))"
          using nths False nz by (simp add: consolidate_step_def)
        show ?thesis
          unfolding upt consolidate_loop.simps step and_then.simps
          using Cons.IH [of "Suc index" "finished @ [p]" "[]" q] Cons.prems nz False Nil by (simp del: upt_Suc)
      next
        case u: (Cons w ws)
        have "swap (Suc (length finished)) index ((finished @ [p]) @ w # ws @ q # rest)
            = (finished @ [p]) @ q # ws @ w # rest"
          by (rule swap_split) (use Cons.prems u in simp_all)
        then have step: "consolidate_step same add zero index (?entries, length finished)
            = Ok ((finished @ [p]) @ q # (ws @ [w]) @ rest, length (finished @ [p]))"
          using nths False nz u by (simp add: consolidate_step_def)
        show ?thesis
          unfolding upt consolidate_loop.simps step and_then.simps
          using Cons.IH [of "Suc index" "finished @ [p]" "ws @ [w]" q] Cons.prems nz False u by (simp del: upt_Suc)
      qed
    qed
  qed
qed

lemma consolidate_sorted_runs:
  "\<exists>entries' n. consolidate_sorted same add zero entries = Ok (entries', n)
     \<and> n \<le> length entries' \<and> length entries' = length entries
     \<and> take n entries' = merge_runs same add zero entries"
proof (cases entries)
  case Nil
  then show ?thesis by (simp add: consolidate_sorted_def)
next
  case (Cons p rest)
  from consolidate_loop_runs [where finished = "[]" and used = "[]" and p = p and rest = rest
      and index = 1 and same = same and add = add and zero = zero]
  obtain entries' offset' where "consolidate_loop same add zero [1 ..< 1 + length rest]
      (p # rest, 0) = Ok (entries', offset')" "offset' < length entries'"
    "length entries' = length entries"
    "merge_runs same add zero entries
      = consolidated_prefix zero entries' offset'"
    by (auto simp: Cons)
  then show ?thesis
    by (auto simp: consolidate_sorted_def Cons take_Suc_conv_app_nth consolidated_prefix_def)
qed

section \<open>Consolidation keeps every total\<close>

text \<open>The total of the differences of the entries for \<open>t\<close>.\<close>

fun total :: "('r \<Rightarrow> 'r \<Rightarrow> 'r) \<Rightarrow> 'r \<Rightarrow> ('t \<Rightarrow> 't \<Rightarrow> int) \<Rightarrow> 't \<Rightarrow> ('t \<times> 'r) list \<Rightarrow> 'r" where
  "total add zero cmp t [] = zero"
| "total add zero cmp t ((u, r) # xs) =
     (if cmp u t = 0 then add r (total add zero cmp t xs) else total add zero cmp t xs)"

definition strictly_sorted :: "('t \<Rightarrow> 't \<Rightarrow> int) \<Rightarrow> ('t \<times> 'r) list \<Rightarrow> bool" where
  "strictly_sorted cmp xs \<longleftrightarrow> sorted_wrt (\<lambda>p q. cmp (fst p) (fst q) < 0) xs"

locale ordered_difference = difference plus_equals is_zero zero + total_cmp cmp
  for plus_equals :: "'r \<Rightarrow> 'r \<Rightarrow> 'r" and is_zero zero and cmp :: "'t \<Rightarrow> 't \<Rightarrow> int"
begin

abbreviation runs :: "('t \<times> 'r) list \<Rightarrow> ('t \<times> 'r) list" where
  "runs \<equiv> merge_runs (\<lambda>p q. cmp (fst p) (fst q) = 0) (\<lambda>p q. (fst p, plus_equals (snd p) (snd q)))
     (\<lambda>p. is_zero (snd p))"

abbreviation net :: "'t \<Rightarrow> ('t \<times> 'r) list \<Rightarrow> 'r" where
  "net \<equiv> total plus_equals zero cmp"

lemma left_commute: "plus_equals a (plus_equals b c) = plus_equals b (plus_equals a c)"
  by (metis assoc commute)

lemma zero_right: "plus_equals a zero = a"
  using zero_left [of a] commute [of a zero] by simp

lemma cmp_cong_left: "cmp a b = 0 \<Longrightarrow> cmp a t = 0 \<longleftrightarrow> cmp b t = 0"
  using cmp_eq_trans [of a b t] cmp_eq_trans [of b a t] cmp_eq_sym [of a b] by blast

lemma runs_induct [case_names Nil single Cons]:
  assumes nil: "P []" and single: "\<And>p. P [p]"
    and cons: "\<And>p q ps. (cmp (fst p) (fst q) = 0 \<Longrightarrow> P ((fst p, plus_equals (snd p) (snd q)) # ps))
      \<Longrightarrow> (cmp (fst p) (fst q) \<noteq> 0 \<Longrightarrow> P (q # ps)) \<Longrightarrow> P (p # q # ps)"
  shows "P (xs :: ('t \<times> 'r) list)"
proof (induction "length xs" arbitrary: xs rule: less_induct)
  case less
  show ?case
  proof (cases xs)
    case Nil
    with nil show ?thesis by simp
  next
    case c: (Cons p ys)
    then show ?thesis using single cons less by (cases ys) auto
  qed
qed

lemma net_runs: "net t (runs xs) = net t xs"
proof (induction xs rule: runs_induct)
  case (single p)
  then show ?case by (cases p) (simp add: is_zero_iff zero_right)
next
  case (Cons p q ps)
  obtain a r b s where pq: "p = (a, r)" "q = (b, s)" by (cases p; cases q)
  show ?case
  proof (cases "cmp a b = 0")
    case True
    then have "cmp a t = 0 \<longleftrightarrow> cmp b t = 0" by (rule cmp_cong_left)
    with Cons(1) True pq show ?thesis by (simp add: assoc)
  next
    case False
    with Cons(2) pq show ?thesis by (auto simp: is_zero_iff zero_left)
  qed
qed simp

lemma runs_keys: "p \<in> set (runs xs) \<Longrightarrow> \<exists>q \<in> set xs. fst q = fst p"
proof (induction xs rule: runs_induct)
  case (Cons p' q ps)
  then show ?case by (fastforce split: if_split_asm)
qed (auto split: if_split_asm)

lemma runs_nonzero: "p \<in> set (runs xs) \<Longrightarrow> \<not> is_zero (snd p)"
proof (induction xs rule: runs_induct)
  case (Cons p' q ps)
  then show ?case by (auto split: if_split_asm)
qed (auto split: if_split_asm)

lemma runs_strictly_sorted:
  "cmp_sorted (key_by cmp fst) xs \<Longrightarrow> strictly_sorted cmp (runs xs)"
proof (induction xs rule: runs_induct)
  case (Cons p q ps)
  show ?case
  proof (cases "cmp (fst p) (fst q) = 0")
    case True
    have "cmp_sorted (key_by cmp fst) ((fst p, plus_equals (snd p) (snd q)) # ps)"
      using Cons.prems by (simp add: cmp_sorted_def key_by_def)
    with Cons(1) True show ?thesis by simp
  next
    case False
    have tail: "cmp_sorted (key_by cmp fst) (q # ps)" using Cons.prems by (simp add: cmp_sorted_def)
    have less: "cmp (fst p) (fst u) < 0" if "u \<in> set (runs (q # ps))" for u
    proof -
      from runs_keys [OF that] obtain w where w: "w \<in> set (q # ps)" "fst w = fst u" by blast
      have pq: "cmp (fst p) (fst q) \<le> 0" and qw: "cmp (fst q) (fst w) \<le> 0"
        using Cons.prems w(1) cmp_refl by (auto simp: cmp_sorted_def key_by_def)
      then have "cmp (fst p) (fst w) \<le> 0" by (rule cmp_trans)
      moreover have "cmp (fst p) (fst w) \<noteq> 0"
        using cmp_chainD [OF chain pq qw] False by blast
      ultimately show ?thesis using w(2) by simp
    qed
    with Cons(2) [OF False tail] False show ?thesis
      by (simp add: strictly_sorted_def)
  qed
qed (auto simp: strictly_sorted_def)

lemma net_remove: "p \<in> set xs \<Longrightarrow> net t xs = net t (p # remove1 p xs)"
proof (induction xs)
  case (Cons x xs)
  then show ?case by (cases p; cases x) (auto simp: left_commute)
qed simp

lemma net_perm: "mset xs = mset ys \<Longrightarrow> net t xs = net t ys"
proof (induction xs arbitrary: ys)
  case (Cons p xs)
  then have p: "p \<in> set ys" by (metis list.set_intros(1) set_mset_mset)
  have "mset xs = mset (remove1 p ys)"
    using Cons.prems by (metis add_mset_remove_trivial mset.simps(2) mset_remove1)
  then have IH: "net t xs = net t (remove1 p ys)" by (rule Cons.IH)
  have "net t (p # xs) = net t (p # remove1 p ys)" using IH by (cases p) (simp only: total.simps)
  also have "\<dots> = net t ys" by (rule net_remove [OF p, symmetric])
  finally show ?case .
qed simp

lemma consolidate_sound:
  "\<exists>ys. consolidate cmp plus_equals is_zero xs = Ok ys \<and> strictly_sorted cmp ys
     \<and> (\<forall>p \<in> set ys. \<not> is_zero (snd p)) \<and> (\<forall>t. net t ys = net t xs)"
proof -
  let ?sorted = "slice_sort (key_by cmp fst) xs"
  have key: "total_cmp (key_by cmp (fst :: 't \<times> 'r \<Rightarrow> 't))"
    by (rule total_cmp_key_by) (rule total_cmp_axioms)
  from consolidate_sorted_runs obtain entries n
    where "consolidate_slice cmp plus_equals is_zero xs = Ok (entries, n)"
      "take n entries = runs ?sorted"
    unfolding consolidate_slice_def by blast
  then have c: "consolidate cmp plus_equals is_zero xs = Ok (runs ?sorted)"
    by (simp add: consolidate_def consolidate_from_def)
  moreover have "strictly_sorted cmp (runs ?sorted)"
    by (rule runs_strictly_sorted) (rule total_cmp.slice_sort_sorted [OF key])
  moreover have "net t (runs ?sorted) = net t xs" for t
    unfolding net_runs by (rule net_perm) simp
  ultimately show ?thesis using runs_nonzero by blast
qed

lemma net_absent: "\<forall>p \<in> set xs. cmp (fst p) t \<noteq> 0 \<Longrightarrow> net t xs = zero"
  by (induction xs) auto

lemma net_before:
  assumes "strictly_sorted cmp (p # xs)" and "cmp t (fst p) \<le> 0"
  shows "net t xs = zero"
proof (rule net_absent, rule ballI, rule notI)
  fix q assume "q \<in> set xs" "cmp (fst q) t = 0"
  then have "cmp (fst q) (fst p) \<le> 0" using assms(2) cmp_trans [of "fst q" t "fst p"] by simp
  moreover have "cmp (fst p) (fst q) < 0" using assms(1) \<open>q \<in> set xs\<close> by (simp add: strictly_sorted_def)
  ultimately show False using cmp_antisym [of "fst p" "fst q"] by linarith
qed

lemma net_head: "strictly_sorted cmp (p # xs) \<Longrightarrow> cmp (fst p) t = 0 \<Longrightarrow> net t (p # xs) = snd p"
  using net_before [of p xs t] cmp_eq_sym [of "fst p" t] by (cases p) (simp add: zero_right)

lemma consolidated_unique:
  assumes "strictly_sorted cmp xs" and "strictly_sorted cmp ys"
    and "\<forall>p \<in> set xs. \<not> is_zero (snd p)" and "\<forall>p \<in> set ys. \<not> is_zero (snd p)"
    and "\<And>t. net t xs = net t ys"
  shows "list_all2 (\<lambda>p q. cmp (fst p) (fst q) = 0 \<and> snd p = snd q) xs ys"
  using assms
proof (induction xs arbitrary: ys)
  case Nil
  show ?case
  proof (cases ys)
    case (Cons q ys')
    with Nil.prems(2) have "net (fst q) ys = snd q" using net_head [OF _ cmp_refl] by blast
    moreover have "net (fst q) ys = zero" using Nil.prems(5) [of "fst q"] by simp
    ultimately show ?thesis using Nil.prems(4) Cons by (simp add: is_zero_iff)
  qed simp
next
  case (Cons p xs)
  have p: "net (fst p) (p # xs) = snd p" "snd p \<noteq> zero"
    using net_head [OF Cons.prems(1) cmp_refl] Cons.prems(3) by (auto simp: is_zero_iff)
  then obtain q ys' where ys: "ys = q # ys'" using Cons.prems(5) [of "fst p"] by (cases ys) auto
  have q: "net (fst q) ys = snd q" "snd q \<noteq> zero"
    using net_head [OF Cons.prems(2) [unfolded ys] cmp_refl] Cons.prems(4) ys by (auto simp: is_zero_iff)
  have pq: "cmp (fst p) (fst q) = 0"
  proof (rule ccontr)
    assume ne: "cmp (fst p) (fst q) \<noteq> 0"
    then have ne': "cmp (fst q) (fst p) \<noteq> 0" using cmp_eq_sym by blast
    show False
    proof (cases "cmp (fst p) (fst q) \<le> 0")
      case True
      have "net (fst p) ys' = zero" using net_before [OF Cons.prems(2) [unfolded ys] True] .
      then have "net (fst p) ys = zero" using ne' ys by (cases q) simp
      with p Cons.prems(5) show False by metis
    next
      case False
      then have "cmp (fst q) (fst p) \<le> 0" using cmp_total by blast
      from net_before [OF Cons.prems(1) this] have "net (fst q) (p # xs) = zero" using ne by (cases p) simp
      with q Cons.prems(5) show False by metis
    qed
  qed
  have "snd p = snd q"
    using p(1) Cons.prems(5) [of "fst p"] ys
      net_head [OF Cons.prems(2) [unfolded ys], of "fst p"] pq cmp_eq_sym by metis
  moreover have "net t xs = net t ys'" for t
  proof (cases "cmp (fst p) t = 0")
    case True
    then have "cmp t (fst p) \<le> 0" "cmp t (fst q) \<le> 0"
      using cmp_eq_sym [of t "fst p"] cmp_eq_trans [of t "fst p" "fst q"] pq by simp_all
    then show ?thesis using net_before Cons.prems(1,2) ys by metis
  next
    case False
    then have "cmp (fst q) t \<noteq> 0" using cmp_cong_left [OF pq] by blast
    with False Cons.prems(5) [of t] ys show ?thesis by (cases p; cases q) simp
  qed
  ultimately show ?case
    using Cons.IH [of ys'] Cons.prems ys pq by (auto simp: strictly_sorted_def)
qed

end

interpretation isize_by_key: ordered_difference isize_plus_equals isize_is_zero 0 "\<lambda>a b. sgn (uint (a :: u128) - uint b)"
  by unfold_locales (auto intro: total_cmp.cmp_refl [OF total_cmp_sgn]
      total_cmp.cmp_antisym [OF total_cmp_sgn] total_cmp.cmp_trans [OF total_cmp_sgn])

text \<open>C12. Consolidation in place is correct and safe: for any vector of updates it stays inside the
  slice and never fails its assertion, the result lists the data strictly in order, without a
  zero difference, and every datum keeps its total. The result depends only on those totals: two
  vectors with the same totals consolidate to the same list, up to the order's equality.\<close>

theorem consolidate_normal_form:
  assumes "total_cmp cmp"
  shows "\<exists>ys. consolidate cmp isize_plus_equals isize_is_zero xs = Ok ys
    \<and> strictly_sorted cmp ys \<and> (\<forall>p \<in> set ys. snd p \<noteq> 0)
    \<and> (\<forall>t. total (+) 0 cmp t ys = total (+) 0 cmp t xs)
    \<and> (\<forall>xs' ys'. (\<forall>t. total (+) 0 cmp t xs' = total (+) 0 cmp t xs)
        \<longrightarrow> consolidate cmp isize_plus_equals isize_is_zero xs' = Ok ys'
        \<longrightarrow> list_all2 (\<lambda>p q. cmp (fst p) (fst q) = 0 \<and> snd p = snd q) ys ys')"
proof -
  have loc: "ordered_difference isize_plus_equals isize_is_zero 0 cmp"
    by (intro ordered_difference.intro isize.difference_axioms assms)
  have plus: "(+) = isize_plus_equals" by (intro ext) (simp add: isize_plus_equals_def)
  note sound = ordered_difference.consolidate_sound [OF loc, folded plus]
  note unique = ordered_difference.consolidated_unique [OF loc, folded plus]
  obtain ys where ys: "consolidate cmp isize_plus_equals isize_is_zero xs = Ok ys"
    "strictly_sorted cmp ys" "\<forall>p \<in> set ys. \<not> isize_is_zero (snd p)"
    "\<forall>t. total (+) 0 cmp t ys = total (+) 0 cmp t xs"
    using sound [of xs] unfolding plus by blast
  have "list_all2 (\<lambda>p q. cmp (fst p) (fst q) = 0 \<and> snd p = snd q) ys ys'"
    if "\<forall>t. total (+) 0 cmp t xs' = total (+) 0 cmp t xs"
      "consolidate cmp isize_plus_equals isize_is_zero xs' = Ok ys'" for xs' ys'
    using sound [of xs'] that ys unique [of ys ys'] unfolding plus by auto
  with ys show ?thesis by (intro exI [of _ ys]) (auto simp: isize_is_zero_def)
qed

theorem consolidate_normal_form_witness:
  "consolidate (\<lambda>a b :: int. sgn (a - b)) isize_plus_equals isize_is_zero
       [(5, 1), (3, 2), (5, -1), (4, 0), (3, 1)] = Ok [(3, 3)]
   \<and> (\<forall>t. total (+) 0 (\<lambda>a b :: int. sgn (a - b)) t [(3, 3)]
        = total (+) (0 :: i64) (\<lambda>a b. sgn (a - b)) t [(5, 1), (3, 2), (5, -1), (4, 0), (3, 1)])"
proof -
  have t: "total_cmp (\<lambda>a b :: int. sgn (a - b))" using total_cmp_sgn [of "\<lambda>a. a"] .
  have c: "consolidate (\<lambda>a b :: int. sgn (a - b)) isize_plus_equals isize_is_zero
       [(5, 1), (3, 2), (5, -1), (4, 0), (3, 1)] = Ok [(3, 3)]" by code_simp
  from consolidate_normal_form [OF t, of "[(5, 1), (3, 2), (5, -1), (4, 0), (3, 1)]"]
  obtain ys where ys: "consolidate (\<lambda>a b :: int. sgn (a - b)) isize_plus_equals isize_is_zero
      [(5, 1), (3, 2), (5, -1), (4, 0), (3, 1)] = Ok ys"
    and "\<forall>t. total (+) 0 (\<lambda>a b :: int. sgn (a - b)) t ys
      = total (+) (0 :: i64) (\<lambda>a b. sgn (a - b)) t [(5, 1), (3, 2), (5, -1), (4, 0), (3, 1)]"
    by blast
  moreover have "ys = [(3, 3)]" using ys c by (simp only: result.inject)
  ultimately show ?thesis using c by simp
qed

end
