(* ===== verification/Reducers.thy ===== *)
theory Reducers
  imports ErrorLog Consolidation ValueLaws
begin

text \<open>
  The reducers of engine/reduce.rs, their dataflow form in engine/dataflow.rs
  (\<open>DataflowReducer\<close>, \<open>CreateDataflowReducer\<close>) and engine/dataflow/operators/stateful\_reduce.rs.

  A \<open>ReducerImpl\<close> is a record of its three functions. The group of one result key is the list of its
  rows with their multiplicities; \<open>reduce\<close> and \<open>count\<close> of differential dataflow hand the
  consolidated states to the reducer. Array arithmetic is ndarray's, the record \<open>ndarray_arith\<close>.
\<close>

section \<open>Reducers\<close>

type_synonym stateful_combine_fn =
  "Value option \<Rightarrow> (Value list \<times> i64) list \<Rightarrow> Value option dyn_result"

datatype reducer =
    RCount | RFloatSum | RIntSum | RArraySum | RUnique | RMin | RArgMin | RMax | RArgMax
  | RSortedTuple bool | RTuple bool | RAny | RStateful stateful_combine_fn | REarliest | RLatest

record 's reducer_impl =
  ri_init :: "key \<Rightarrow> Value list \<Rightarrow> 's dyn_result"
  ri_combine :: "('s \<times> nat) list \<Rightarrow> 's dyn_result"
  ri_finish :: "'s \<Rightarrow> Value"

definition init_unary :: "(key \<Rightarrow> Value \<Rightarrow> 's dyn_result) \<Rightarrow> key \<Rightarrow> Value list \<Rightarrow> 's dyn_result" where
  "init_unary f k vs = (case vs of [] \<Rightarrow> Panic | v # _ \<Rightarrow> f k v)"

subsection \<open>Integer sum\<close>

record int_sum_state =
  iss_count :: i64
  iss_sum :: i64
  iss_error_count :: i64

definition int_sum_is_zero :: "int_sum_state \<Rightarrow> bool" where
  "int_sum_is_zero s \<longleftrightarrow>
     isize_is_zero (iss_count s) \<and> isize_is_zero (iss_sum s) \<and> isize_is_zero (iss_error_count s)"

definition int_sum_plus_equals :: "int_sum_state \<Rightarrow> int_sum_state \<Rightarrow> int_sum_state" where
  "int_sum_plus_equals s rhs = \<lparr>
     iss_count = isize_plus_equals (iss_count s) (iss_count rhs),
     iss_sum = isize_plus_equals (iss_sum s) (iss_sum rhs),
     iss_error_count = isize_plus_equals (iss_error_count s) (iss_error_count rhs)\<rparr>"

definition int_sum_multiply :: "int_sum_state \<Rightarrow> i64 \<Rightarrow> int_sum_state" where
  "int_sum_multiply s rhs = \<lparr>
     iss_count = iss_count s * rhs, iss_sum = iss_sum s * rhs,
     iss_error_count = iss_error_count s * rhs\<rparr>"

definition int_sum_single :: "i64 \<Rightarrow> int_sum_state" where
  "int_sum_single v = \<lparr>iss_count = 1, iss_sum = v, iss_error_count = 0\<rparr>"

definition int_sum_error :: int_sum_state where
  "int_sum_error = \<lparr>iss_count = 0, iss_sum = 0, iss_error_count = 1\<rparr>"

definition int_sum_init :: "key \<Rightarrow> Value \<Rightarrow> int_sum_state dyn_result" where
  "int_sum_init k v = (case v of
       VInt i \<Rightarrow> Ok (int_sum_single i)
     | _ \<Rightarrow> Err (ReducerInitializationError ''pathway_engine::engine::reduce::IntSumReducer'' v k))"

definition int_sum_finish :: "int_sum_state \<Rightarrow> Value" where
  "int_sum_finish s = (if iss_error_count s \<noteq> 0 then VError else VInt (iss_sum s))"

subsection \<open>Float and array sums\<close>

definition float_sum_reducer :: "f64 reducer_impl" where
  "float_sum_reducer = \<lparr>
     ri_init = init_unary (\<lambda>k v. case v of
         VFloat f \<Rightarrow> Ok f
       | _ \<Rightarrow> Err (ReducerInitializationError ''pathway_engine::engine::reduce::FloatSumReducer'' v k)),
     ri_combine = (\<lambda>vs. Ok (foldl f64_add (f64_zero False)
       (map (\<lambda>(v, cnt). f64_mul v (f64_of_int (int cnt))) vs))),
     ri_finish = VFloat\<rparr>"

text \<open>Scaling by a scalar, and the sum of two arrays with broadcasting, which panics on
  incompatible shapes.\<close>

record ndarray_arith =
  i64_scale :: "i64 ndarray \<Rightarrow> i64 \<Rightarrow> i64 ndarray"
  f64_scale :: "f64 ndarray \<Rightarrow> f64 \<Rightarrow> f64 ndarray"
  i64_array_add :: "i64 ndarray \<Rightarrow> i64 ndarray \<Rightarrow> i64 ndarray option"
  f64_array_add :: "f64 ndarray \<Rightarrow> f64 ndarray \<Rightarrow> f64 ndarray option"

datatype array_sum_state = IntArraySum "i64 ndarray" | FloatArraySum "f64 ndarray"

definition array_sum_state_new :: "ndarray_arith \<Rightarrow> Value \<Rightarrow> nat \<Rightarrow> array_sum_state dyn_result" where
  "array_sum_state_new N v cnt = (case v of
       VIntArray h \<Rightarrow>
         if cnt = 1 then Ok (IntArraySum (handle_data h))
         else if int cnt \<le> i64_max then Ok (IntArraySum (i64_scale N (handle_data h) (of_nat cnt)))
         else Panic
     | VFloatArray h \<Rightarrow>
         if cnt = 1 then Ok (FloatArraySum (handle_data h))
         else Ok (FloatArraySum (f64_scale N (handle_data h) (f64_of_int (int cnt))))
     | _ \<Rightarrow> Err (TypeMismatch ''Array'' v))"

definition add_array_sum_states ::
    "ndarray_arith \<Rightarrow> array_sum_state dyn_result \<Rightarrow> array_sum_state dyn_result \<Rightarrow> array_sum_state dyn_result" where
  "add_array_sum_states N lhs rhs =
     (if rhs = Panic then Panic
      else and_then lhs (\<lambda>l. and_then rhs (\<lambda>r. case (l, r) of
          (IntArraySum a, IntArraySum b) \<Rightarrow> map_ok IntArraySum (unwrap (i64_array_add N a b))
        | (FloatArraySum a, FloatArraySum b) \<Rightarrow> map_ok FloatArraySum (unwrap (f64_array_add N a b))
        | _ \<Rightarrow> Err MixingTypesInNpSum)))"

definition array_sum_value :: "externals \<Rightarrow> array_sum_state \<Rightarrow> Value" where
  "array_sum_value X st = (case st of
       IntArraySum a \<Rightarrow> value_from_int_array X a
     | FloatArraySum a \<Rightarrow> value_from_float_array X a)"

definition array_sum_reducer :: "externals \<Rightarrow> ndarray_arith \<Rightarrow> Value reducer_impl" where
  "array_sum_reducer X N = \<lparr>
     ri_init = init_unary (\<lambda>k v. Ok v),
     ri_combine = (\<lambda>vs. case map (\<lambda>(v, cnt). array_sum_state_new N v cnt) vs of
         [] \<Rightarrow> Panic
       | r # rs \<Rightarrow> map_ok (array_sum_value X) (foldl (add_array_sum_states N) r rs)),
     ri_finish = (\<lambda>v. v)\<rparr>"

subsection \<open>Unique, minimum and maximum\<close>

definition unique_reducer :: "Value reducer_impl" where
  "unique_reducer = \<lparr>
     ri_init = init_unary (\<lambda>k v. Ok v),
     ri_combine = (\<lambda>vs. case vs of
         [] \<Rightarrow> Panic
       | [(v, _)] \<Rightarrow> Ok v
       | (v, _) # (w, _) # _ \<Rightarrow> Err (MoreThanOneValueInUniqueReducer v w)),
     ri_finish = (\<lambda>v. v)\<rparr>"

definition min_reducer :: "externals \<Rightarrow> Value reducer_impl" where
  "min_reducer X = \<lparr>
     ri_init = init_unary (\<lambda>k v. Ok v),
     ri_combine = (\<lambda>vs. unwrap (iter_min (value_cmp X) (map fst vs))),
     ri_finish = (\<lambda>v. v)\<rparr>"

definition arg_min_reducer :: "externals \<Rightarrow> (Value \<times> key) reducer_impl" where
  "arg_min_reducer X = \<lparr>
     ri_init = init_unary (\<lambda>k v. Ok (v, k)),
     ri_combine = (\<lambda>vs. unwrap (iter_min (prod_cmp (value_cmp X) key_cmp) (map fst vs))),
     ri_finish = (\<lambda>st. VPointer (snd st))\<rparr>"

definition SALT :: key where
  "SALT = 0xDEADBEEFDEADBEEFDEADBEEFDEADBEEF"

definition any_reducer :: "externals \<Rightarrow> (key \<times> Value) reducer_impl" where
  "any_reducer X = \<lparr>
     ri_init = init_unary (\<lambda>k v. Ok (k, v)),
     ri_combine = (\<lambda>vs. unwrap (iter_min
       (key_by (prod_cmp key_cmp (value_cmp X)) (\<lambda>(k, v). (salted_with k SALT, v))) (map fst vs))),
     ri_finish = snd\<rparr>"

definition max_reducer :: "externals \<Rightarrow> Value reducer_impl" where
  "max_reducer X = \<lparr>
     ri_init = init_unary (\<lambda>k v. Ok v),
     ri_combine = (\<lambda>vs. unwrap (iter_max (value_cmp X) (map fst vs))),
     ri_finish = (\<lambda>v. v)\<rparr>"

definition arg_max_reducer :: "externals \<Rightarrow> (Value \<times> key) reducer_impl" where
  "arg_max_reducer X = \<lparr>
     ri_init = init_unary (\<lambda>k v. Ok (v, k)),
     ri_combine = (\<lambda>vs. unwrap (iter_max (prod_cmp (value_cmp X) (reverse_cmp key_cmp)) (map fst vs))),
     ri_finish = (\<lambda>st. VPointer (snd st))\<rparr>"

subsection \<open>Tuples\<close>

definition repeat_states :: "('a list \<times> nat) list \<Rightarrow> 'a list" where
  "repeat_states vs = concat (map (\<lambda>(state, cnt). concat (map (\<lambda>v. replicate cnt v) state)) vs)"

definition sorted_tuple_reducer :: "externals \<Rightarrow> bool \<Rightarrow> Value list reducer_impl" where
  "sorted_tuple_reducer X skip_nones = \<lparr>
     ri_init = init_unary (\<lambda>k v. Ok (if v = VNone \<and> skip_nones then [] else [v])),
     ri_combine = (\<lambda>vs. Ok (repeat_states vs)),
     ri_finish = (\<lambda>st. VTuple (slice_sort (value_cmp X) st))\<rparr>"

definition tuple_order :: "externals \<Rightarrow> Value option \<times> key \<times> Value \<Rightarrow> Value option \<times> key \<times> Value \<Rightarrow> int" where
  "tuple_order X = prod_cmp (option_cmp (value_cmp X)) (prod_cmp key_cmp (value_cmp X))"

definition tuple_reducer :: "externals \<Rightarrow> bool \<Rightarrow> (Value option \<times> key \<times> Value) list reducer_impl" where
  "tuple_reducer X skip_nones = \<lparr>
     ri_init = (\<lambda>k vs. case vs of
         [] \<Rightarrow> Panic
       | v # rest \<Rightarrow>
           if v = VNone \<and> skip_nones then Ok []
           else (case rest of
               by # _ \<Rightarrow> Ok [(Some by, k, v)]
             | [] \<Rightarrow> Ok [(None, k, v)])),
     ri_combine = (\<lambda>vs. Ok (repeat_states vs)),
     ri_finish = (\<lambda>st. VTuple (map (snd \<circ> snd) (slice_sort (tuple_order X) st)))\<rparr>"

section \<open>Reducers in the dataflow\<close>

definition init_row :: "error_logger \<Rightarrow> 's reducer_impl \<Rightarrow> key \<times> Value list \<Rightarrow> 's option run" where
  "init_row logger R row = (case row of (k, vs) \<Rightarrow>
     if VError \<in> set vs then run_return None else ok_with_logger logger (ri_init R k vs))"

definition multiplicity :: "i64 \<Rightarrow> nat dyn_result" where
  "multiplicity cnt = (if 0 < sint cnt then Ok (nat (sint cnt)) else Panic)"

definition reduce_closure ::
    "error_logger \<Rightarrow> 's reducer_impl \<Rightarrow> ('s option \<times> i64) list \<Rightarrow> 's option run" where
  "reduce_closure logger R input =
     (if None \<in> set (map fst input) then run_return None
      else ok_with_logger logger
        (and_then (try_collect (map (\<lambda>(st, cnt). map_ok (\<lambda>n. (the st, n)) (multiplicity cnt)) input))
          (ri_combine R)))"

definition finish_row :: "'s reducer_impl \<Rightarrow> 's option \<Rightarrow> Value" where
  "finish_row R st = (case st of Some s \<Rightarrow> ri_finish R s | None \<Rightarrow> VError)"

text \<open>One group: every row is initialised, the states are consolidated by their order, and a group
  with nothing left has no result.\<close>

definition reduce_group ::
    "error_logger \<Rightarrow> 's reducer_impl \<Rightarrow> ('s \<Rightarrow> 's \<Rightarrow> int) \<Rightarrow> ((key \<times> Value list) \<times> i64) list
      \<Rightarrow> Value option run" where
  "reduce_group logger R cmp rows =
     run_bind (run_map (\<lambda>(row, diff). run_bind (init_row logger R row) (\<lambda>st. run_return (st, diff))) rows)
       (\<lambda>states. case consolidate (option_cmp cmp) isize_plus_equals isize_is_zero states of
           Ok [] \<Rightarrow> run_return None
         | Ok input \<Rightarrow> run_bind (reduce_closure logger R input)
             (\<lambda>st. run_return (Some (finish_row R st)))
         | _ \<Rightarrow> Panic)"

definition int_sum_row :: "error_logger \<Rightarrow> key \<times> Value list \<Rightarrow> int_sum_state run" where
  "int_sum_row logger row = (case row of (k, vs) \<Rightarrow>
     if VError \<in> set vs then run_return int_sum_error
     else unwrap_or_else_log logger int_sum_error (init_unary int_sum_init k vs))"

text \<open>\<open>explode\<close> multiplies each state by the multiplicity of its row, and \<open>count\<close> adds them up and
  keeps the group unless the sum is zero.\<close>

definition count_states :: "int_sum_state list \<Rightarrow> int_sum_state option" where
  "count_states sts = (case sts of
       [] \<Rightarrow> None
     | s # rest \<Rightarrow> (let acc = foldl int_sum_plus_equals s rest
                   in if int_sum_is_zero acc then None else Some acc))"

definition int_sum_group ::
    "error_logger \<Rightarrow> ((key \<times> Value list) \<times> i64) list \<Rightarrow> Value option run" where
  "int_sum_group logger rows =
     run_bind (run_map (\<lambda>(row, diff). run_bind (int_sum_row logger row)
         (\<lambda>st. run_return (int_sum_multiply st diff))) rows)
       (\<lambda>sts. run_return (map_option int_sum_finish (count_states sts)))"

definition count_group :: "((key \<times> Value list) \<times> i64) list \<Rightarrow> Value option" where
  "count_group rows =
     (let count = foldl isize_plus_equals 0 (map snd rows)
      in if isize_is_zero count then None else Some (VInt count))"

text \<open>The reducers that work on one group at a time, by name, with the order of their states.\<close>

definition group_reduce ::
    "externals \<Rightarrow> ndarray_arith \<Rightarrow> error_logger \<Rightarrow> reducer \<Rightarrow> ((key \<times> Value list) \<times> i64) list
      \<Rightarrow> Value option run" where
  "group_reduce X N logger r rows = (case r of
       RCount \<Rightarrow> run_return (count_group rows)
     | RFloatSum \<Rightarrow> reduce_group logger float_sum_reducer (ordered_float_cmp X) rows
     | RIntSum \<Rightarrow> int_sum_group logger rows
     | RArraySum \<Rightarrow> reduce_group logger (array_sum_reducer X N) (value_cmp X) rows
     | RUnique \<Rightarrow> reduce_group logger unique_reducer (value_cmp X) rows
     | RMin \<Rightarrow> reduce_group logger (min_reducer X) (value_cmp X) rows
     | RArgMin \<Rightarrow> reduce_group logger (arg_min_reducer X) (prod_cmp (value_cmp X) key_cmp) rows
     | RMax \<Rightarrow> reduce_group logger (max_reducer X) (value_cmp X) rows
     | RArgMax \<Rightarrow> reduce_group logger (arg_max_reducer X) (prod_cmp (value_cmp X) key_cmp) rows
     | RSortedTuple skip \<Rightarrow>
         reduce_group logger (sorted_tuple_reducer X skip) (lex_cmp (value_cmp X)) rows
     | RTuple skip \<Rightarrow> reduce_group logger (tuple_reducer X skip) (lex_cmp (tuple_order X)) rows
     | RAny \<Rightarrow> reduce_group logger (any_reducer X) (prod_cmp key_cmp (value_cmp X)) rows
     | _ \<Rightarrow> Panic)"

text \<open>\<open>total\<close>: the timestamps of the scope are totally ordered, as they are outside an iteration.\<close>

definition create_dataflow_reducer :: "bool \<Rightarrow> reducer \<Rightarrow> (engine_error, reducer) result" where
  "create_dataflow_reducer total_scope r = (case r of
       RStateful f \<Rightarrow> if total_scope then Ok r else Err NotSupportedInIteration
     | REarliest \<Rightarrow> if total_scope then Ok r else Err NotSupportedInIteration
     | RLatest \<Rightarrow> if total_scope then Ok r else Err NotSupportedInIteration
     | _ \<Rightarrow> Ok r)"

section \<open>Stateful reduction\<close>

text \<open>A batch lists its keys, for each key its values, and for each value its times with
  differences; the output is a list of updates.\<close>

type_synonym ('k, 'v) batch = "('k \<times> ('v \<times> (u64 \<times> i64) list) list) list"

type_synonym ('k, 'w) updates = "(('k \<times> 'w) \<times> u64 \<times> int) list"

type_synonym ('v, 'w) reduce_logic = "'w option \<Rightarrow> ('v \<times> i64) list \<Rightarrow> 'w option run"

definition data_by_time :: "('v \<times> (u64 \<times> i64) list) list \<Rightarrow> (u64 \<times> ('v \<times> i64) list) list" where
  "data_by_time vals =
     (let updates = concat (map (\<lambda>(v, times). map (\<lambda>(t, d). (t, (v, d))) times) vals)
      in map (\<lambda>t. (t, map snd (filter (\<lambda>u. fst u = t) updates))) (sort (remdups (map fst updates))))"

fun option_eq :: "('w \<Rightarrow> 'w \<Rightarrow> bool) \<Rightarrow> 'w option \<Rightarrow> 'w option \<Rightarrow> bool" where
  "option_eq eq None None = True"
| "option_eq eq (Some a) (Some b) = eq a b"
| "option_eq eq _ _ = False"

definition give :: "'k \<Rightarrow> u64 \<Rightarrow> int \<Rightarrow> 'w option \<Rightarrow> ('k, 'w) updates" where
  "give k t d st = (case st of Some w \<Rightarrow> [((k, w), t, d)] | None \<Rightarrow> [])"

fun stateful_times ::
    "('w \<Rightarrow> 'w \<Rightarrow> bool) \<Rightarrow> ('v, 'w) reduce_logic \<Rightarrow> 'k \<Rightarrow> 'w option \<Rightarrow> (u64 \<times> ('v \<times> i64) list) list
      \<Rightarrow> (('k, 'w) updates \<times> 'w option) run" where
  "stateful_times eq logic k state [] = run_return ([], state)"
| "stateful_times eq logic k state ((t, data) # rest) =
     run_bind (logic state data) (\<lambda>new_state.
       if option_eq eq new_state state then stateful_times eq logic k state rest
       else run_bind (stateful_times eq logic k new_state rest) (\<lambda>(outs, final).
         run_return (give k t (-1) state @ give k t 1 new_state @ outs, final)))"

fun stateful_batch ::
    "('w \<Rightarrow> 'w \<Rightarrow> bool) \<Rightarrow> ('v, 'w) reduce_logic \<Rightarrow> ('k \<rightharpoonup> 'w) \<Rightarrow> ('k, 'v) batch
      \<Rightarrow> (('k, 'w) updates \<times> ('k \<rightharpoonup> 'w)) run" where
  "stateful_batch eq logic state_by_key [] = run_return ([], state_by_key)"
| "stateful_batch eq logic state_by_key ((k, vals) # rest) =
     run_bind (stateful_times eq logic k (state_by_key k) (data_by_time vals)) (\<lambda>(outs, state).
       run_bind (stateful_batch eq logic (state_by_key(k := state)) rest) (\<lambda>(more, final).
         run_return (outs @ more, final)))"

fun stateful_reduce ::
    "('w \<Rightarrow> 'w \<Rightarrow> bool) \<Rightarrow> ('v, 'w) reduce_logic \<Rightarrow> ('k \<rightharpoonup> 'w) \<Rightarrow> ('k, 'v) batch list
      \<Rightarrow> (('k, 'w) updates \<times> ('k \<rightharpoonup> 'w)) run" where
  "stateful_reduce eq logic state_by_key [] = run_return ([], state_by_key)"
| "stateful_reduce eq logic state_by_key (b # bs) =
     run_bind (stateful_batch eq logic state_by_key b) (\<lambda>(outs, states).
       run_bind (stateful_reduce eq logic states bs) (\<lambda>(more, final).
         run_return (outs @ more, final)))"

definition stateful_logic ::
    "error_logger \<Rightarrow> stateful_combine_fn \<Rightarrow> (Value list, Value) reduce_logic" where
  "stateful_logic logger combine_fn state vals =
     (if state = Some VError \<or> (\<exists>(row, cnt) \<in> set vals. VError \<in> set row) then run_return (Some VError)
      else unwrap_or_else_log logger (Some VError) (combine_fn state vals))"

definition single_value :: "(key \<times> Value list) \<times> i64 \<Rightarrow> (key \<times> Value) dyn_result" where
  "single_value u = (case u of ((k, vs), diff) \<Rightarrow>
     if 0 < sint diff then (case vs of [v] \<Rightarrow> Ok (k, v) | _ \<Rightarrow> Panic) else Panic)"

definition latest_logic :: "(key \<times> Value list, Value) reduce_logic" where
  "latest_logic state vals =
     map_ok (\<lambda>(k, v). (Some v, []))
       (and_then (try_collect (map single_value vals)) (\<lambda>kvs. unwrap (iter_max (key_by key_cmp fst) kvs)))"

definition earliest_logic :: "(key \<times> Value list, Value) reduce_logic" where
  "earliest_logic state vals = (case state of
       Some v \<Rightarrow> run_return (Some v)
     | None \<Rightarrow> map_ok (\<lambda>(k, v). (Some v, []))
         (and_then (try_collect (map single_value vals)) (\<lambda>kvs. unwrap (iter_min (key_by key_cmp fst) kvs))))"

section \<open>The integer sum\<close>

interpretation int_sum: difference int_sum_plus_equals int_sum_is_zero
  "\<lparr>iss_count = 0, iss_sum = 0, iss_error_count = 0\<rparr>"
  by unfold_locales (auto simp: int_sum_plus_equals_def int_sum_is_zero_def isize_plus_equals_def
      isize_is_zero_def intro: int_sum_state.equality)

text \<open>A row that contributes an integer, and what it contributes.\<close>

definition summand :: "Value list \<Rightarrow> i64 option" where
  "summand vs = (if VError \<in> set vs then None else case vs of VInt i # _ \<Rightarrow> Some i | _ \<Rightarrow> None)"

definition row_state :: "Value list \<Rightarrow> int_sum_state" where
  "row_state vs = (case summand vs of Some i \<Rightarrow> int_sum_single i | None \<Rightarrow> int_sum_error)"

lemma int_sum_row_Ok:
  assumes "vs \<noteq> []"
  shows "\<exists>l. int_sum_row (ErrorLogger op has) (k, vs) = Ok (row_state vs, l)"
proof -
  obtain v rest where vs: "vs = v # rest" using assms by (cases vs) auto
  show ?thesis
    by (cases v) (auto simp: vs int_sum_row_def row_state_def summand_def init_unary_def int_sum_init_def
        unwrap_or_else_log_def run_return_def run_bind_def log_error_def)
qed

lemma foldl_int_sum:
  "foldl int_sum_plus_equals s sts = \<lparr>
     iss_count = iss_count s + sum_list (map iss_count sts),
     iss_sum = iss_sum s + sum_list (map iss_sum sts),
     iss_error_count = iss_error_count s + sum_list (map iss_error_count sts)\<rparr>"
  by (induction sts arbitrary: s) (simp_all add: int_sum_plus_equals_def isize_plus_equals_def)

lemma int_sum_group_Ok:
  assumes "\<forall>((k, vs), d) \<in> set rows. vs \<noteq> []"
  shows "\<exists>l. int_sum_group (ErrorLogger op has) rows = Ok (map_option int_sum_finish (count_states
    (map (\<lambda>((k, vs), d). int_sum_multiply (row_state vs) d) rows)), l)"
proof -
  have "\<exists>l. run_map (\<lambda>(row, diff). run_bind (int_sum_row (ErrorLogger op has) row)
      (\<lambda>st. run_return (int_sum_multiply st diff))) rows
      = Ok (map (\<lambda>((k, vs), d). int_sum_multiply (row_state vs) d) rows, l)"
    using assms
  proof (induction rows)
    case (Cons r rows)
    obtain k vs d where r: "r = ((k, vs), d)" by (metis surj_pair)
    with Cons.prems obtain l where l: "int_sum_row (ErrorLogger op has) (k, vs) = Ok (row_state vs, l)"
      using int_sum_row_Ok by fastforce
    obtain m where "run_map (\<lambda>(row, diff). run_bind (int_sum_row (ErrorLogger op has) row)
      (\<lambda>st. run_return (int_sum_multiply st diff))) rows
      = Ok (map (\<lambda>((k, vs), d). int_sum_multiply (row_state vs) d) rows, m)"
      using Cons by auto
    with l show ?case by (simp add: r run_bind_def run_return_def)
  qed (simp add: run_return_def)
  then show ?thesis by (auto simp: int_sum_group_def run_bind_def run_return_def)
qed

text \<open>The rows of a group that is present: each has values, a positive multiplicity, and the total
  multiplicity fits in an \<open>isize\<close>.\<close>

definition present :: "((key \<times> Value list) \<times> i64) list \<Rightarrow> bool" where
  "present rows \<longleftrightarrow> rows \<noteq> [] \<and> (\<forall>r \<in> set rows. snd (fst r) \<noteq> [] \<and> 0 < sint (snd r))
     \<and> sum_list (map (\<lambda>r. sint (snd r)) rows) \<le> i64_max"

lemma sum_list_words: "sum_list xs = (of_int (sum_list (map sint xs)) :: i64)"
  by (induction xs) simp_all

lemma positive_sum_nonzero:
  assumes "xs \<noteq> []" and "\<forall>x \<in> set xs. 0 < sint x" and "sum_list (map sint xs) \<le> i64_max"
  shows "sum_list (xs :: i64 list) \<noteq> 0"
proof -
  have pos: "0 < sum_list (map sint xs)"
    using assms(1,2)
  proof (induction xs)
    case (Cons x xs)
    then show ?case by (cases "xs = []") auto
  qed simp
  with assms(3) have "in_i64 (sum_list (map sint xs))" by (simp add: in_i64_def i64_min_def)
  then have "sint (of_int (sum_list (map sint xs)) :: i64) = sum_list (map sint xs)"
    by (rule sint_of_int_in_i64)
  with pos show ?thesis by (metis sum_list_words less_irrefl signed_0)
qed

lemma sum_list_filter_le:
  "\<forall>r \<in> set rows. 0 < sint (f r) \<Longrightarrow>
     sum_list (map (\<lambda>r. sint (f r)) (filter P rows)) \<le> sum_list (map (\<lambda>r. sint (f r)) rows)"
  by (induction rows) auto

lemma row_state_fields:
  "iss_count (int_sum_multiply (row_state vs) d) = (if summand vs = None then 0 else d)"
  "iss_sum (int_sum_multiply (row_state vs) d) = (case summand vs of Some i \<Rightarrow> i * d | None \<Rightarrow> 0)"
  "iss_error_count (int_sum_multiply (row_state vs) d) = (if summand vs = None then d else 0)"
  by (auto simp: int_sum_multiply_def row_state_def int_sum_single_def int_sum_error_def
      split: option.split)

lemma sum_list_if: "sum_list (map (\<lambda>r. if P r then f r else 0) rows) = sum_list (map f (filter P rows))"
  for f :: "'a \<Rightarrow> i64"
  by (induction rows) auto

lemma count_states_present:
  assumes "present rows"
  defines "bad r \<equiv> summand (snd (fst r)) = None"
  shows "count_states (map (\<lambda>((k, vs), d). int_sum_multiply (row_state vs) d) rows) = Some \<lparr>
    iss_count = sum_list (map snd (filter (\<lambda>r. \<not> bad r) rows)),
    iss_sum = sum_list (map (\<lambda>r. case summand (snd (fst r)) of Some i \<Rightarrow> i * snd r | None \<Rightarrow> 0) rows),
    iss_error_count = sum_list (map snd (filter bad rows))\<rparr>"
proof -
  let ?f = "\<lambda>((k, vs), d). int_sum_multiply (row_state vs) d"
  define acc where "acc = \<lparr>iss_count = sum_list (map (iss_count \<circ> ?f) rows),
    iss_sum = sum_list (map (iss_sum \<circ> ?f) rows),
    iss_error_count = sum_list (map (iss_error_count \<circ> ?f) rows)\<rparr>"
  obtain r rest where rows: "rows = r # rest" using assms(1) by (cases rows) (auto simp: present_def)
  have "foldl int_sum_plus_equals (?f r) (map ?f rest) = acc"
    by (simp add: foldl_int_sum acc_def rows comp_def)
  then have cs: "count_states (map ?f rows) = (if int_sum_is_zero acc then None else Some acc)"
    by (simp add: count_states_def rows Let_def)
  have count: "map (iss_count \<circ> ?f) rows = map (\<lambda>r. if \<not> bad r then snd r else 0) rows"
    and sum: "map (iss_sum \<circ> ?f) rows = map (\<lambda>r. case summand (snd (fst r)) of Some i \<Rightarrow> i * snd r | None \<Rightarrow> 0) rows"
    and err: "map (iss_error_count \<circ> ?f) rows = map (\<lambda>r. if bad r then snd r else 0) rows"
    by (auto simp: row_state_fields bad_def split: option.split)
  have acc: "acc = \<lparr>
    iss_count = sum_list (map snd (filter (\<lambda>r. \<not> bad r) rows)),
    iss_sum = sum_list (map (\<lambda>r. case summand (snd (fst r)) of Some i \<Rightarrow> i * snd r | None \<Rightarrow> 0) rows),
    iss_error_count = sum_list (map snd (filter bad rows))\<rparr>"
    unfolding acc_def count sum err sum_list_if ..
  have "sum_list (map snd (filter (\<lambda>r. \<not> bad r) rows)) + sum_list (map snd (filter bad rows))
      = sum_list (map snd rows)" by (induction rows) (auto simp: algebra_simps)
  moreover have "sum_list (map snd rows) \<noteq> 0"
    using assms(1) by (intro positive_sum_nonzero) (auto simp: present_def comp_def)
  ultimately have "\<not> int_sum_is_zero acc" by (auto simp: acc int_sum_is_zero_def isize_is_zero_def)
  with cs acc show ?thesis by simp
qed

text \<open>C28. The incremental integer sum is the sum: for every group that has a row, the result is there,
  even when the values add up to zero; it is the sum of value times multiplicity, wrapped to 64
  bits, when every row holds an integer, and an error value when any row holds an error or a
  value that is not an integer.\<close>

theorem int_sum_exact:
  assumes "present rows"
  shows "\<exists>l. int_sum_group (ErrorLogger op has) rows = Ok (Some (
    if \<exists>r \<in> set rows. summand (snd (fst r)) = None then VError
    else VInt (sum_list (map (\<lambda>r. the (summand (snd (fst r))) * snd r) rows))), l)"
proof -
  let ?bad = "filter (\<lambda>r. summand (snd (fst r)) = None) rows"
  have ne: "\<forall>((k, vs), d) \<in> set rows. vs \<noteq> []" using assms by (auto simp: present_def)
  have bad: "sum_list (map snd ?bad) \<noteq> 0" if "?bad \<noteq> []"
  proof (rule positive_sum_nonzero)
    show "map snd ?bad \<noteq> []" using that by simp
    show "\<forall>x \<in> set (map snd ?bad). 0 < sint x" using assms by (auto simp: present_def)
    show "sum_list (map sint (map snd ?bad)) \<le> i64_max"
      using sum_list_filter_le [of rows snd "\<lambda>r. summand (snd (fst r)) = None"] assms
      by (simp add: present_def comp_def)
  qed
  show ?thesis
  proof (cases "?bad = []")
    case True
    then have "\<forall>r \<in> set rows. summand (snd (fst r)) \<noteq> None" by (simp add: filter_empty_conv)
    then have "map (\<lambda>r. case summand (snd (fst r)) of Some i \<Rightarrow> i * snd r | None \<Rightarrow> 0) rows
        = map (\<lambda>r. the (summand (snd (fst r))) * snd r) rows" by (auto split: option.split)
    with True int_sum_group_Ok [OF ne, of op has] count_states_present [OF assms] show ?thesis
      by (auto simp: int_sum_finish_def filter_empty_conv)
  next
    case False
    with bad int_sum_group_Ok [OF ne, of op has] count_states_present [OF assms] show ?thesis
      by (auto simp: int_sum_finish_def filter_empty_conv)
  qed
qed

theorem int_sum_exact_witness:
  "present [((1, [VInt 5]), 2), ((2, [VInt (-10)]), 1)]
   \<and> (\<exists>l. int_sum_group (ErrorLogger 0 True) [((1, [VInt 5]), 2), ((2, [VInt (-10)]), 1)]
       = Ok (Some (VInt 0), l))"
proof -
  have "present [((1, [VInt 5]), 2), ((2, [VInt (-10)]), 1)]"
    by (simp add: present_def i64_max_def)
  from int_sum_exact [OF this, of 0 True] this show ?thesis by (simp add: summand_def)
qed

section \<open>Groups depend only on the net multiplicities\<close>

text \<open>The net multiplicity of a row in a list of updates.\<close>

definition net_rows :: "'a \<Rightarrow> ('a \<times> i64) list \<Rightarrow> i64" where
  "net_rows row rows = sum_list (map snd (filter (\<lambda>u. fst u = row) rows))"

lemma net_rows_simps [simp]:
  "net_rows row [] = 0"
  "net_rows row (u # rows) = (if fst u = row then snd u + net_rows row rows else net_rows row rows)"
  by (simp_all add: net_rows_def)

lemma sum_by_net:
  assumes "finite A" and "set (map fst rows) \<subseteq> A"
  shows "sum_list (map (\<lambda>u. f (fst u) * snd u) rows) = (\<Sum>row \<in> A. f row * net_rows row rows)"
  using assms(2)
proof (induction rows)
  case (Cons u rows)
  have "(\<Sum>row \<in> A. f row * net_rows row (u # rows))
      = (\<Sum>row \<in> A. (if row = fst u then f (fst u) * snd u else 0) + f row * net_rows row rows)"
    by (rule sum.cong) (auto simp: distrib_left)
  also have "\<dots> = f (fst u) * snd u + (\<Sum>row \<in> A. f row * net_rows row rows)"
    using Cons.prems assms(1) by (simp add: sum.distrib)
  finally show ?case using Cons by simp
qed simp

lemma sum_net_cong:
  assumes "\<And>row. net_rows row rows = net_rows row rows'"
  shows "sum_list (map (\<lambda>u. f (fst u) * snd u) rows) = sum_list (map (\<lambda>u. f (fst u) * snd u) rows')"
  using sum_by_net [of "set (map fst rows) \<union> set (map fst rows')" rows f]
    sum_by_net [of "set (map fst rows) \<union> set (map fst rows')" rows' f] assms
  by simp

lemma total_as_sum:
  "total (+) 0 cmp t (map (\<lambda>u. (g (fst u), snd u)) rows)
   = sum_list (map (\<lambda>u. of_bool (cmp (g (fst u)) t = 0) * snd u) rows)"
  for rows :: "('a \<times> i64) list"
  by (induction rows) auto

text \<open>What the dataflow relies on from a reducer: initialising a row does not panic, and states that
  are equal in the order combine to results that are the same, or both fail.\<close>

definition same_combined ::
    "(Value \<Rightarrow> Value \<Rightarrow> bool) \<Rightarrow> 's reducer_impl \<Rightarrow> 's dyn_result \<Rightarrow> 's dyn_result \<Rightarrow> bool" where
  "same_combined same R r r' \<longleftrightarrow>
     (\<exists>s t. r = Ok s \<and> r' = Ok t \<and> same (ri_finish R s) (ri_finish R t)) \<or> (\<exists>e f. r = Err e \<and> r' = Err f)"

definition equal_entries :: "('s \<Rightarrow> 's \<Rightarrow> int) \<Rightarrow> ('s \<times> 'n) list \<Rightarrow> ('s \<times> 'n) list \<Rightarrow> bool" where
  "equal_entries cmp = list_all2 (\<lambda>p q. cmp (fst p) (fst q) = 0 \<and> snd p = snd q)"

definition same_outcome ::
    "(Value \<Rightarrow> Value \<Rightarrow> bool) \<Rightarrow> Value option run \<Rightarrow> Value option run \<Rightarrow> bool" where
  "same_outcome same r r' \<longleftrightarrow>
     (\<exists>v w l m. r = Ok (v, l) \<and> r' = Ok (w, m) \<and> rel_option same v w) \<or> (r = Panic \<and> r' = Panic)"

locale reducer_contract = total_cmp cmp
  for cmp :: "'s \<Rightarrow> 's \<Rightarrow> int" +
  fixes R :: "'s reducer_impl" and same :: "Value \<Rightarrow> Value \<Rightarrow> bool"
  assumes init_safe: "vs \<noteq> [] \<Longrightarrow> ri_init R k vs \<noteq> Panic"
    and combine_cong: "xs \<noteq> [] \<Longrightarrow> equal_entries cmp xs ys
      \<Longrightarrow> same_combined same R (ri_combine R xs) (ri_combine R ys)"
    and same_error: "same VError VError"
begin

definition state_of :: "key \<times> Value list \<Rightarrow> 's option" where
  "state_of row = (if VError \<in> set (snd row) then None
     else case ri_init R (fst row) (snd row) of Ok s \<Rightarrow> Some s | _ \<Rightarrow> None)"

lemma init_row_Ok: "snd row \<noteq> [] \<Longrightarrow> \<exists>l. init_row (ErrorLogger op has) R row = Ok (state_of row, l)"
  using init_safe [of "snd row" "fst row"]
  by (cases row; cases "ri_init R (fst row) (snd row)")
    (auto simp: init_row_def state_of_def run_return_def ok_with_logger_def unwrap_or_else_log_def
      log_error_def run_bind_def)

lemma init_rows_Ok:
  assumes "\<forall>u \<in> set rows. snd (fst u) \<noteq> []"
  shows "\<exists>l. run_map (\<lambda>(row, diff). run_bind (init_row (ErrorLogger op has) R row)
      (\<lambda>st. run_return (st, diff))) rows = Ok (map (\<lambda>u. (state_of (fst u), snd u)) rows, l)"
  using assms
proof (induction rows)
  case (Cons u rows)
  obtain row d where u: "u = (row, d)" by (cases u)
  with Cons.prems have "snd row \<noteq> []" by simp
  from init_row_Ok [OF this, of op has] obtain l
    where l: "init_row (ErrorLogger op has) R row = Ok (state_of row, l)" by blast
  obtain m where "run_map (\<lambda>(row, diff). run_bind (init_row (ErrorLogger op has) R row)
      (\<lambda>st. run_return (st, diff))) rows = Ok (map (\<lambda>u. (state_of (fst u), snd u)) rows, m)"
    using Cons by auto
  with l show ?case by (simp add: u run_bind_def run_return_def)
qed (simp add: run_return_def)

lemma option_eq_None:
  "equal_entries (option_cmp cmp) xs ys \<Longrightarrow> None \<in> set (map fst xs) \<longleftrightarrow> None \<in> set (map fst ys)"
  unfolding equal_entries_def
proof (induction rule: list_all2_induct)
  case (Cons p xs q ys)
  then show ?case by (cases "fst p"; cases "fst q") auto
qed simp

lemma option_eq_Some:
  assumes "equal_entries (option_cmp cmp) xs ys" and "None \<notin> set (map fst xs)"
  shows "equal_entries cmp (map (\<lambda>p. (the (fst p), f (snd p))) xs) (map (\<lambda>p. (the (fst p), f (snd p))) ys)"
  using assms unfolding equal_entries_def
proof (induction rule: list_all2_induct)
  case (Cons p xs q ys)
  then show ?case by (cases "fst p"; cases "fst q") auto
qed simp

lemma multiplicities:
  "try_collect (map (\<lambda>(st, cnt). map_ok (\<lambda>n. (the st, n)) (multiplicity cnt)) xs)
   = (if \<forall>p \<in> set xs. 0 < sint (snd p) then Ok (map (\<lambda>p. (the (fst p), nat (sint (snd p)))) xs) else Panic)"
  by (induction xs) (auto simp: multiplicity_def split: if_splits)

lemma closure_cong:
  assumes "equal_entries (option_cmp cmp) xs ys" and "xs \<noteq> []"
  shows "same_outcome same
    (run_bind (reduce_closure (ErrorLogger op has) R xs) (\<lambda>st. run_return (Some (finish_row R st))))
    (run_bind (reduce_closure (ErrorLogger op has) R ys) (\<lambda>st. run_return (Some (finish_row R st))))"
proof (cases "None \<in> set (map fst xs)")
  case True
  with option_eq_None [OF assms(1)] show ?thesis
    by (auto simp: reduce_closure_def same_outcome_def run_return_def finish_row_def run_bind_def same_error)
next
  case False
  with option_eq_None [OF assms(1)] have none: "None \<notin> set (map fst ys)" by blast
  have pos: "(\<forall>p \<in> set xs. 0 < sint (snd p)) \<longleftrightarrow> (\<forall>p \<in> set ys. 0 < sint (snd p))"
    using assms(1) unfolding equal_entries_def by (induction rule: list_all2_induct) auto
  show ?thesis
  proof (cases "\<forall>p \<in> set xs. 0 < sint (snd p)")
    case True
    let ?f = "\<lambda>p. (the (fst p), nat (sint (snd p)))"
    have "same_combined same R (ri_combine R (map ?f xs)) (ri_combine R (map ?f ys))"
      by (rule combine_cong) (use assms(2) option_eq_Some [OF assms(1) False] in auto)
    with True pos False none show ?thesis
      by (auto simp: reduce_closure_def multiplicities same_combined_def same_outcome_def ok_with_logger_def
          unwrap_or_else_log_def log_error_def run_return_def run_bind_def finish_row_def same_error)
  next
    case f: False
    with pos False none show ?thesis
      by (auto simp: reduce_closure_def multiplicities same_outcome_def ok_with_logger_def
          unwrap_or_else_log_def run_bind_def)
  qed
qed

lemma reduce_group_net:
  assumes net: "\<And>row. net_rows row rows = net_rows row rows'"
    and "\<forall>u \<in> set rows. snd (fst u) \<noteq> []" and "\<forall>u \<in> set rows'. snd (fst u) \<noteq> []"
  shows "same_outcome same (reduce_group (ErrorLogger op has) R cmp rows)
    (reduce_group (ErrorLogger op has) R cmp rows')"
proof -
  let ?st = "\<lambda>rows. map (\<lambda>u. (state_of (fst u), snd u)) rows"
  let ?c = "\<lambda>xs. consolidate (option_cmp cmp) isize_plus_equals isize_is_zero xs"
  have loc: "ordered_difference isize_plus_equals isize_is_zero 0 (option_cmp cmp)"
    by (intro ordered_difference.intro isize.difference_axioms total_cmp_option total_cmp_axioms)
  have plus: "isize_plus_equals = (+)" by (intro ext) (simp add: isize_plus_equals_def)
  have tot: "total isize_plus_equals 0 (option_cmp cmp) t (?st rows)
      = total isize_plus_equals 0 (option_cmp cmp) t (?st rows')" for t
    unfolding plus total_as_sum by (rule sum_net_cong [OF net])
  from ordered_difference.consolidate_sound [OF loc, of "?st rows"] obtain xs where xs: "?c (?st rows) = Ok xs"
    "strictly_sorted (option_cmp cmp) xs" "\<forall>p \<in> set xs. \<not> isize_is_zero (snd p)"
    "\<And>t. total isize_plus_equals 0 (option_cmp cmp) t xs = total isize_plus_equals 0 (option_cmp cmp) t (?st rows)"
    by blast
  from ordered_difference.consolidate_sound [OF loc, of "?st rows'"] obtain ys where ys: "?c (?st rows') = Ok ys"
    "strictly_sorted (option_cmp cmp) ys" "\<forall>p \<in> set ys. \<not> isize_is_zero (snd p)"
    "\<And>t. total isize_plus_equals 0 (option_cmp cmp) t ys = total isize_plus_equals 0 (option_cmp cmp) t (?st rows')"
    by blast
  have eq: "equal_entries (option_cmp cmp) xs ys"
    unfolding equal_entries_def
    by (rule ordered_difference.consolidated_unique [OF loc]) (use xs ys tot in simp_all)
  obtain l l' where l: "run_map (\<lambda>(row, diff). run_bind (init_row (ErrorLogger op has) R row)
      (\<lambda>st. run_return (st, diff))) rows = Ok (?st rows, l)"
    and l': "run_map (\<lambda>(row, diff). run_bind (init_row (ErrorLogger op has) R row)
      (\<lambda>st. run_return (st, diff))) rows' = Ok (?st rows', l')"
    using init_rows_Ok assms(2,3) by blast
  show ?thesis
  proof (cases "xs = []")
    case True
    with eq have "ys = []" by (simp add: equal_entries_def)
    with True xs(1) ys(1) l l' show ?thesis
      by (simp add: reduce_group_def run_bind_def run_return_def same_outcome_def)
  next
    case False
    with eq have "ys \<noteq> []" by (auto simp: equal_entries_def)
    with False xs(1) ys(1) l l' closure_cong [OF eq False, of op has] show ?thesis
      by (auto simp: reduce_group_def same_outcome_def run_bind_def neq_Nil_conv)
  qed
qed

end

section \<open>The reducers keep the contract\<close>

locale float_crate =
  fixes X :: externals
  assumes float_contract: "ordered_float_contract X"
begin

lemma value_total: "total_cmp (value_cmp X)"
  using value_cmp_refl [OF float_contract] value_cmp_antisym [OF float_contract]
    cmp_chainD(1) [OF value_cmp_chain [OF float_contract]]
  unfolding total_cmp_def by blast

lemma pair_total: "total_cmp (prod_cmp (value_cmp X) key_cmp)"
  by (intro total_cmp_prod value_total key_order.total_cmp_axioms)

lemma tuple_order_total: "total_cmp (tuple_order X)"
  unfolding tuple_order_def
  by (intro total_cmp_prod total_cmp_option value_total key_order.total_cmp_axioms)

end

interpretation example_floats: float_crate example_externals
  by unfold_locales (rule example_contracts)

lemma equal_entries_fst: "equal_entries cmp xs ys \<Longrightarrow> list_all2 (\<lambda>x y. cmp x y = 0) (map fst xs) (map fst ys)"
  unfolding equal_entries_def by (induction rule: list_all2_induct) auto

lemma selected_min:
  assumes "total_cmp sel" and "\<And>s t. cmp s t = 0 \<Longrightarrow> sel s t = 0"
    and "xs \<noteq> []" and "equal_entries cmp xs ys"
  shows "\<exists>s t. iter_min sel (map fst xs) = Some s \<and> iter_min sel (map fst ys) = Some t \<and> sel s t = 0"
proof -
  have "list_all2 (\<lambda>x y. sel x y = 0) (map fst xs) (map fst ys)"
    using equal_entries_fst [OF assms(4)] by (rule list.rel_mono_strong) (rule assms(2))
  from total_cmp.iter_min_cong [OF assms(1) this] assms(3) show ?thesis by simp
qed

lemma selected_max:
  assumes "total_cmp sel" and "\<And>s t. cmp s t = 0 \<Longrightarrow> sel s t = 0"
    and "xs \<noteq> []" and "equal_entries cmp xs ys"
  shows "\<exists>s t. iter_max sel (map fst xs) = Some s \<and> iter_max sel (map fst ys) = Some t \<and> sel s t = 0"
proof -
  have "list_all2 (\<lambda>x y. sel x y = 0) (map fst xs) (map fst ys)"
    using equal_entries_fst [OF assms(4)] by (rule list.rel_mono_strong) (rule assms(2))
  from total_cmp.iter_max_cong [OF assms(1) this] assms(3) show ?thesis by simp
qed

lemma repeat_states_cong:
  assumes "equal_entries (lex_cmp cmp) xs ys" and "total_cmp cmp"
  shows "list_all2 (\<lambda>x y. cmp x y = 0) (repeat_states xs) (repeat_states ys)"
proof -
  have rep: "list_all2 (\<lambda>x y. cmp x y = 0) (concat (map (replicate n) s)) (concat (map (replicate n) t))"
    if "list_all2 (\<lambda>x y. cmp x y = 0) s t" for n s t
    using that
  proof (induction s t rule: list_all2_induct)
    case (Cons a s b t)
    have "list_all2 (\<lambda>x y. cmp x y = 0) (replicate n a) (replicate n b)"
      using Cons.hyps(1) by (simp add: list_all2_conv_all_nth)
    with Cons.IH show ?case by (simp add: list_all2_appendI)
  qed simp
  show ?thesis
    using assms(1) unfolding equal_entries_def repeat_states_def
    by (induction rule: list_all2_induct)
      (auto simp: total_cmp.lex_eq_0_iff [OF assms(2)] split: prod.split intro!: list_all2_appendI rep)
qed

lemma value_eq_tuple:
  assumes "total_cmp (value_cmp X)" and "list_all2 (\<lambda>x y. value_cmp X x y = 0) vs ws"
  shows "value_eq X (VTuple vs) (VTuple ws)"
  using assms by (simp add: value_eq_def values_cmp_lex total_cmp.lex_eq_0_iff)

lemmas reducer_defs = min_reducer_def max_reducer_def arg_min_reducer_def arg_max_reducer_def
  any_reducer_def unique_reducer_def sorted_tuple_reducer_def tuple_reducer_def

sublocale float_crate \<subseteq> minimum: reducer_contract "value_cmp X" "min_reducer X" "value_eq X"
proof (intro reducer_contract.intro reducer_contract_axioms.intro value_total, goal_cases)
  case (2 xs ys)
  from selected_min [OF value_total _ 2] show ?case
    by (auto simp: same_combined_def reducer_defs value_eq_def)
qed (auto simp: reducer_defs init_unary_def value_eq_def split: list.splits)

sublocale float_crate \<subseteq> maximum: reducer_contract "value_cmp X" "max_reducer X" "value_eq X"
proof (intro reducer_contract.intro reducer_contract_axioms.intro value_total, goal_cases)
  case (2 xs ys)
  from selected_max [OF value_total _ 2] show ?case
    by (auto simp: same_combined_def reducer_defs value_eq_def)
qed (auto simp: reducer_defs init_unary_def value_eq_def split: list.splits)

sublocale float_crate \<subseteq> arg_min: reducer_contract "prod_cmp (value_cmp X) key_cmp" "arg_min_reducer X" "value_eq X"
proof (intro reducer_contract.intro reducer_contract_axioms.intro pair_total, goal_cases)
  case (2 xs ys)
  from selected_min [OF pair_total _ 2] show ?case
    by (auto simp: same_combined_def reducer_defs value_eq_def prod_cmp_eq_0)
qed (auto simp: reducer_defs init_unary_def value_eq_def split: list.splits)

sublocale float_crate \<subseteq> arg_max: reducer_contract "prod_cmp (value_cmp X) key_cmp" "arg_max_reducer X" "value_eq X"
proof (intro reducer_contract.intro reducer_contract_axioms.intro pair_total, goal_cases)
  case (2 xs ys)
  have "total_cmp (prod_cmp (value_cmp X) (reverse_cmp key_cmp))"
    by (intro total_cmp_prod total_cmp_reverse value_total key_order.total_cmp_axioms)
  from selected_max [OF this _ 2] show ?case
    by (auto simp: same_combined_def reducer_defs value_eq_def prod_cmp_eq_0 reverse_cmp_def key_cmp_eq_0)
qed (auto simp: reducer_defs init_unary_def value_eq_def split: list.splits)

sublocale float_crate \<subseteq> any: reducer_contract "prod_cmp key_cmp (value_cmp X)" "any_reducer X" "value_eq X"
proof (intro reducer_contract.intro reducer_contract_axioms.intro, goal_cases)
  case 1
  then show ?case by (intro total_cmp_prod value_total key_order.total_cmp_axioms)
next
  case (3 xs ys)
  have "total_cmp (key_by (prod_cmp key_cmp (value_cmp X)) (\<lambda>(k, v). (salted_with k SALT, v)))"
    by (intro total_cmp_key_by total_cmp_prod value_total key_order.total_cmp_axioms)
  from selected_min [OF this _ 3] show ?case
    by (auto simp: same_combined_def reducer_defs value_eq_def prod_cmp_eq_0 key_by_def key_cmp_eq_0
        split: prod.splits)
qed (auto simp: reducer_defs init_unary_def value_eq_def split: list.splits)

sublocale float_crate \<subseteq> unique: reducer_contract "value_cmp X" unique_reducer "value_eq X"
proof (intro reducer_contract.intro reducer_contract_axioms.intro value_total, goal_cases)
  case (2 xs ys)
  obtain v n xs' where "xs = (v, n) # xs'" using 2(1) by (cases xs) auto
  with 2(2) show ?case
    by (cases ys; cases xs'; cases "tl ys")
      (auto simp: same_combined_def reducer_defs value_eq_def equal_entries_def)
qed (auto simp: reducer_defs init_unary_def value_eq_def split: list.splits)

sublocale float_crate \<subseteq> sorted_tuple: reducer_contract "lex_cmp (value_cmp X)" "sorted_tuple_reducer X skip" "value_eq X"
  for skip
proof (intro reducer_contract.intro reducer_contract_axioms.intro, goal_cases)
  case 1
  show ?case by (rule total_cmp.lex_total [OF value_total])
next
  case (3 xs ys)
  have "list_all2 (\<lambda>x y. value_cmp X x y = 0) (repeat_states xs) (repeat_states ys)"
    using 3(2) value_total by (rule repeat_states_cong)
  from value_eq_tuple [OF value_total total_cmp.slice_sort_cong [OF value_total this]] show ?case
    by (auto simp: same_combined_def reducer_defs)
qed (auto simp: reducer_defs init_unary_def value_eq_def split: list.splits)

sublocale float_crate \<subseteq> tuple: reducer_contract "lex_cmp (tuple_order X)" "tuple_reducer X skip" "value_eq X"
  for skip
proof (intro reducer_contract.intro reducer_contract_axioms.intro, goal_cases)
  case 1
  show ?case by (rule total_cmp.lex_total [OF tuple_order_total])
next
  case (3 xs ys)
  have "list_all2 (\<lambda>x y. tuple_order X x y = 0) (repeat_states xs) (repeat_states ys)"
    using 3(2) tuple_order_total by (rule repeat_states_cong)
  from total_cmp.slice_sort_cong [OF tuple_order_total this]
  have "list_all2 (\<lambda>x y. value_cmp X x y = 0)
      (map (snd \<circ> snd) (slice_sort (tuple_order X) (repeat_states xs)))
      (map (snd \<circ> snd) (slice_sort (tuple_order X) (repeat_states ys)))"
    by (auto simp: list.rel_map tuple_order_def prod_cmp_eq_0 elim!: list.rel_mono_strong)
  from value_eq_tuple [OF value_total this] show ?case
    by (auto simp: same_combined_def reducer_defs)
qed (auto simp: reducer_defs init_unary_def value_eq_def split: list.splits)

text \<open>The reducers whose result does not depend on float or array arithmetic.\<close>

primrec net_determined :: "reducer \<Rightarrow> bool" where
  "net_determined RCount = True"
| "net_determined RFloatSum = False"
| "net_determined RIntSum = True"
| "net_determined RArraySum = False"
| "net_determined RUnique = True"
| "net_determined RMin = True"
| "net_determined RArgMin = True"
| "net_determined RMax = True"
| "net_determined RArgMax = True"
| "net_determined (RSortedTuple skip) = True"
| "net_determined (RTuple skip) = True"
| "net_determined RAny = True"
| "net_determined (RStateful f) = False"
| "net_determined REarliest = False"
| "net_determined RLatest = False"

lemma count_group_net:
  assumes "\<And>row. net_rows row rows = net_rows row rows'"
  shows "count_group rows = count_group rows'"
proof -
  have fold: "foldl isize_plus_equals c ds = c + sum_list ds" for c ds
    by (induction ds arbitrary: c) (simp_all add: isize_plus_equals_def)
  from sum_net_cong [OF assms, of "\<lambda>_. 1"] show ?thesis by (simp add: count_group_def fold)
qed

lemma count_states_eq:
  "count_states sts =
     (let acc = \<lparr>iss_count = sum_list (map iss_count sts), iss_sum = sum_list (map iss_sum sts),
        iss_error_count = sum_list (map iss_error_count sts)\<rparr>
      in if int_sum_is_zero acc then None else Some acc)"
  by (cases sts)
    (simp_all add: count_states_def foldl_int_sum int_sum_is_zero_def isize_is_zero_def Let_def)

lemma int_sum_group_net:
  assumes "\<And>row. net_rows row rows = net_rows row rows'"
    and "\<forall>u \<in> set rows. snd (fst u) \<noteq> []" and "\<forall>u \<in> set rows'. snd (fst u) \<noteq> []"
    and "same VError VError" and "\<And>i. same (VInt i) (VInt i)"
  shows "same_outcome same (int_sum_group (ErrorLogger op has) rows)
    (int_sum_group (ErrorLogger op has) rows')"
proof -
  let ?f = "\<lambda>((k, vs), d). int_sum_multiply (row_state vs) d"
  have fields: "sum_list (map (\<lambda>u. g (row_state (snd (fst u))) * snd u) rows)
      = sum_list (map (\<lambda>u. g (row_state (snd (fst u))) * snd u) rows')" for g :: "int_sum_state \<Rightarrow> i64"
    by (rule sum_net_cong [OF assms(1), of "\<lambda>row. g (row_state (snd row))"])
  have "count_states (map ?f rows) = count_states (map ?f rows')"
    using fields [of iss_count] fields [of iss_sum] fields [of iss_error_count]
    by (simp add: count_states_eq int_sum_multiply_def comp_def case_prod_beta)
  moreover have "rel_option same (map_option int_sum_finish o') (map_option int_sum_finish o')" for o'
    using assms(4,5) by (cases o') (simp_all add: int_sum_finish_def)
  moreover obtain l where "int_sum_group (ErrorLogger op has) rows
      = Ok (map_option int_sum_finish (count_states (map ?f rows)), l)"
    using int_sum_group_Ok [of rows op has] assms(2) by (auto simp: case_prod_beta)
  moreover obtain m where "int_sum_group (ErrorLogger op has) rows'
      = Ok (map_option int_sum_finish (count_states (map ?f rows')), m)"
    using int_sum_group_Ok [of rows' op has] assms(3) by (auto simp: case_prod_beta)
  ultimately show ?thesis by (auto simp: same_outcome_def)
qed

context float_crate begin

lemma value_eq_refl: "value_eq X v v"
  by (simp add: value_eq_def value_cmp_refl [OF float_contract])

lemma group_reduce_same:
  assumes "net_determined r" and net: "\<And>row. net_rows row rows = net_rows row rows'"
    and ne: "\<forall>u \<in> set rows. snd (fst u) \<noteq> []" "\<forall>u \<in> set rows'. snd (fst u) \<noteq> []"
  shows "same_outcome (value_eq X) (group_reduce X N (ErrorLogger op has) r rows)
    (group_reduce X N (ErrorLogger op has) r rows')"
proof (cases r)
  case RCount
  with count_group_net [OF net] value_eq_refl show ?thesis
    by (simp add: group_reduce_def same_outcome_def run_return_def option.rel_refl)
next
  case RIntSum
  with int_sum_group_net [where same = "value_eq X", OF net ne] value_eq_refl show ?thesis
    by (simp add: group_reduce_def)
qed (use assms(1) unique.reduce_group_net [OF net ne] minimum.reduce_group_net [OF net ne]
    maximum.reduce_group_net [OF net ne] arg_min.reduce_group_net [OF net ne]
    arg_max.reduce_group_net [OF net ne] any.reduce_group_net [OF net ne]
    sorted_tuple.reduce_group_net [OF net ne] tuple.reduce_group_net [OF net ne]
    in \<open>simp_all add: group_reduce_def\<close>)

end



section \<open>What single reducers compute\<close>



text \<open>C30. The sorted tuple is the sorted multiset of the group: the values occur as often as their
  multiplicities say, without the \<open>None\<close>s when they are skipped, and in order.\<close>

theorem sorted_tuple_correct:
  assumes "ordered_float_contract X"
  shows "\<exists>states s vs.
    try_collect (map (\<lambda>((k, v), n). map_ok (\<lambda>st. (st, n)) (ri_init (sorted_tuple_reducer X skip) k [v])) rows)
      = Ok states
    \<and> ri_combine (sorted_tuple_reducer X skip) states = Ok s
    \<and> ri_finish (sorted_tuple_reducer X skip) s = VTuple vs \<and> cmp_sorted (value_cmp X) vs
    \<and> mset vs = (\<Sum>((k, v), n) \<leftarrow> rows. if skip \<and> v = VNone then {#} else replicate_mset n v)"
proof -
  note loc = float_crate.intro [OF assms(1)]
  let ?states = "map (\<lambda>((k, v), n). (if v = VNone \<and> skip then [] else [v], n)) rows"
  have "map (\<lambda>((k, v), n). map_ok (\<lambda>st. (st, n)) (ri_init (sorted_tuple_reducer X skip) k [v])) rows
      = map Ok ?states"
    by (simp add: reducer_defs init_unary_def case_prod_beta)
  then have "try_collect (map (\<lambda>((k, v), n). map_ok (\<lambda>st. (st, n))
      (ri_init (sorted_tuple_reducer X skip) k [v])) rows) = Ok ?states"
    by (simp only: try_collect_map_Ok)
  moreover have "mset (repeat_states ?states)
      = (\<Sum>((k, v), n) \<leftarrow> rows. if skip \<and> v = VNone then {#} else replicate_mset n v)"
    by (induction rows) (auto simp: repeat_states_def)
  ultimately show ?thesis
    using total_cmp.slice_sort_sorted [OF float_crate.value_total [OF loc]]
    by (auto simp: reducer_defs)
qed

theorem sorted_tuple_correct_witness:
  "\<exists>s vs. ri_combine (sorted_tuple_reducer example_externals True)
       [([VInt 5], 2), ([], 1), ([VInt 1], 1)] = Ok s
    \<and> ri_finish (sorted_tuple_reducer example_externals True) s = VTuple vs
    \<and> mset vs = {#VInt 5, VInt 5, VInt 1#}"
proof -
  let ?rows = "[((1, VInt 5), 2), ((2, VNone), 1), ((3, VInt 1), 1)]"
  have states: "try_collect (map (\<lambda>((k, v), n). map_ok (\<lambda>st. (st, n))
      (ri_init (sorted_tuple_reducer example_externals True) k [v])) ?rows)
      = Ok [([VInt 5], 2), ([], 1), ([VInt 1], 1)]"
    by (simp add: reducer_defs init_unary_def)
  from sorted_tuple_correct [OF example_contracts(1), of True ?rows] show ?thesis
    unfolding states by (auto simp: numeral_2_eq_2 add_mset_commute)
qed

section \<open>The output of a stateful reduction\<close>

text \<open>The multiplicity that a list of updates gives a record.\<close>

definition emitted :: "('k, 'w) updates \<Rightarrow> 'k \<Rightarrow> 'w \<Rightarrow> int" where
  "emitted outs k w = sum_list (map (\<lambda>(kw, t, d). if kw = (k, w) then d else 0) outs)"

lemma emitted_simps [simp]:
  "emitted [] k w = 0"
  "emitted (outs @ outs') k w = emitted outs k w + emitted outs' k w"
  by (simp_all add: emitted_def)

lemma emitted_give [simp]:
  "emitted (give k t d st) k' w = (if k = k' \<and> st = Some w then d else 0)"
  by (cases st) (auto simp: emitted_def give_def)

lemma stateful_times_emitted:
  assumes "stateful_times eq logic k state data = Ok ((outs, final), l)"
  shows "emitted outs k' w = (if k = k' then of_bool (final = Some w) - of_bool (state = Some w) else 0)"
  using assms
proof (induction data arbitrary: state outs l)
  case Nil
  then show ?case by (simp add: run_simps)
next
  case (Cons td data)
  obtain t d where td: "td = (t, d)" by (cases td)
  with Cons.prems obtain new m where new: "logic state d = Ok (new, m)"
    by (auto simp: run_simps)
  show ?case
  proof (cases "option_eq eq new state")
    case True
    with Cons td new show ?thesis by (auto simp: run_simps)
  next
    case False
    with Cons.prems td new obtain outs' n where
      "stateful_times eq logic k new data = Ok ((outs', final), n)"
      "outs = give k t (-1) state @ give k t 1 new @ outs'"
      by (auto simp: run_simps)
    with Cons.IH show ?thesis by auto
  qed
qed

lemma stateful_batch_emitted:
  assumes "stateful_batch eq logic states batch = Ok ((outs, final), l)"
  shows "emitted outs k w = of_bool (final k = Some w) - of_bool (states k = Some w)"
  using assms
proof (induction batch arbitrary: states outs l)
  case Nil
  then show ?case by (simp add: run_simps)
next
  case (Cons kv batch)
  obtain j vals where kv: "kv = (j, vals)" by (cases kv)
  with Cons.prems obtain o1 st o2 m n where
    "stateful_times eq logic j (states j) (data_by_time vals) = Ok ((o1, st), m)"
    "stateful_batch eq logic (states(j := st)) batch = Ok ((o2, final), n)" "outs = o1 @ o2"
    by (auto simp: run_simps)
  with stateful_times_emitted [OF this(1), of k w] Cons.IH [OF this(2)] show ?case by auto
qed

text \<open>C31. The output of a stateful reduction is always exactly its state: after any sequence of
  batches, whatever the logic and however keys and times are spread over the batches, the emitted
  updates add up to one copy of the current state of each key that has one, and to nothing else.\<close>

theorem stateful_reduce_output:
  assumes "stateful_reduce eq logic (\<lambda>_. None) batches = Ok ((outs, states), l)"
  shows "emitted outs k w = (if states k = Some w then 1 else 0)"
proof -
  have "emitted outs k w = of_bool (final k = Some w) - of_bool (start k = Some w)"
    if "stateful_reduce eq logic start batches = Ok ((outs, final), l)" for start final outs l
    using that
  proof (induction batches arbitrary: start outs l)
    case Nil
    then show ?case by (simp add: run_simps)
  next
    case (Cons b batches)
    then obtain o1 st o2 m n where
      "stateful_batch eq logic start b = Ok ((o1, st), m)"
      "stateful_reduce eq logic st batches = Ok ((o2, final), n)" "outs = o1 @ o2"
      by (auto simp: run_simps)
    with stateful_batch_emitted [OF this(1), of k w] Cons.IH [OF this(2)] show ?case by simp
  qed
  from this [OF assms] show ?thesis by simp
qed

theorem stateful_reduce_output_witness:
  "\<exists>outs states. stateful_reduce (value_eq example_externals) latest_logic (\<lambda>_. None)
       [[(1, [((5 :: key, [VInt 3]), [(2 :: u64, 1 :: i64)])])], [(1, [((6, [VInt 4]), [(4, 1)])])]]
       = Ok ((outs, states), [])
     \<and> states (1 :: key) = Some (VInt 4) \<and> emitted outs 1 (VInt 4) = 1 \<and> emitted outs 1 (VInt 3) = 0"
proof -
  let ?b = "[[(1 :: key, [((5 :: key, [VInt 3]), [(2 :: u64, 1 :: i64)])])], [(1, [((6, [VInt 4]), [(4, 1)])])]]"
  obtain outs states where r: "stateful_reduce (value_eq example_externals) latest_logic (\<lambda>_. None) ?b
      = Ok ((outs, states), [])" and s: "states 1 = Some (VInt 4)"
    by (simp add: data_by_time_def latest_logic_def single_value_def run_bind_def run_return_def Let_def
        value_eq_def i64_cmp_def)
  from stateful_reduce_output [OF r, of 1 "VInt 4"] stateful_reduce_output [OF r, of 1 "VInt 3"] r s
  show ?thesis by (intro exI [of _ outs] exI [of _ states]) simp
qed

end
