(* ===== verification/Antichains.thy ===== *)
theory Antichains
  imports Consolidation Frontiers
begin

text \<open>
  Progress tracking in the vendored timely dataflow: \<open>ChangeBatch\<close> of
  external/timely-dataflow/timely/src/progress/change\_batch.rs, \<open>Antichain\<close> and
  \<open>MutableAntichain\<close> of progress/frontier.rs.

  The partial order of the times is the argument \<open>le\<close>, their \<open>Ord\<close> the argument \<open>cmp\<close>. What the
  code relies on is the locale \<open>sorted_times\<close>: a partial order whose elements can be sorted
  compatibly. It is interpreted on the engine's \<open>Timestamp\<close> and on \<open>SelfCompactionTime\<close>.
\<close>

section \<open>Change batches\<close>

record 't change_batch =
  cb_updates :: "('t \<times> i64) list"
  cb_clean :: nat

definition change_batch_new :: "'t change_batch" where
  "change_batch_new = \<lparr>cb_updates = [], cb_clean = 0\<rparr>"

definition is_dirty :: "'t change_batch \<Rightarrow> bool" where
  "is_dirty b \<longleftrightarrow> cb_clean b < length (cb_updates b)"

definition change_batch_clear :: "'t change_batch \<Rightarrow> 't change_batch" where
  "change_batch_clear b = \<lparr>cb_updates = [], cb_clean = 0\<rparr>"

text \<open>The loop over neighbours of \<open>compact\<close>: an entry with the data of the next one is added to it
  and set to zero.\<close>

fun compact_loop :: "('t \<Rightarrow> 't \<Rightarrow> int) \<Rightarrow> ('t \<times> i64) list \<Rightarrow> ('t \<times> i64) list" where
  "compact_loop cmp [] = []"
| "compact_loop cmp [p] = [p]"
| "compact_loop cmp (p # q # ps) =
     (if cmp (fst p) (fst q) = 0
      then (fst p, 0) # compact_loop cmp ((fst q, snd q + snd p) # ps)
      else p # compact_loop cmp (q # ps))"

definition compact :: "('t \<Rightarrow> 't \<Rightarrow> int) \<Rightarrow> 't change_batch \<Rightarrow> 't change_batch" where
  "compact cmp b =
     (let updates =
        (if cb_clean b < length (cb_updates b) \<and> 1 < length (cb_updates b)
         then filter (\<lambda>x. snd x \<noteq> 0) (compact_loop cmp (slice_sort (key_by cmp fst) (cb_updates b)))
         else cb_updates b)
      in \<lparr>cb_updates = updates, cb_clean = length updates\<rparr>)"

definition maintain_bounds :: "('t \<Rightarrow> 't \<Rightarrow> int) \<Rightarrow> 't change_batch \<Rightarrow> 't change_batch" where
  "maintain_bounds cmp b =
     (if 32 < length (cb_updates b) \<and> cb_clean b \<le> length (cb_updates b) div 2 then compact cmp b else b)"

definition update :: "('t \<Rightarrow> 't \<Rightarrow> int) \<Rightarrow> 't \<Rightarrow> i64 \<Rightarrow> 't change_batch \<Rightarrow> 't change_batch" where
  "update cmp item v b = maintain_bounds cmp (b\<lparr>cb_updates := cb_updates b @ [(item, v)]\<rparr>)"

definition extend :: "('t \<Rightarrow> 't \<Rightarrow> int) \<Rightarrow> ('t \<times> i64) list \<Rightarrow> 't change_batch \<Rightarrow> 't change_batch" where
  "extend cmp items b = maintain_bounds cmp (b\<lparr>cb_updates := cb_updates b @ items\<rparr>)"

definition change_batch_new_from :: "('t \<Rightarrow> 't \<Rightarrow> int) \<Rightarrow> 't \<Rightarrow> i64 \<Rightarrow> 't change_batch" where
  "change_batch_new_from cmp item v = update cmp item v change_batch_new"

definition into_inner :: "('t \<Rightarrow> 't \<Rightarrow> int) \<Rightarrow> 't change_batch \<Rightarrow> ('t \<times> i64) list" where
  "into_inner cmp b = cb_updates (compact cmp b)"

definition drain :: "('t \<Rightarrow> 't \<Rightarrow> int) \<Rightarrow> 't change_batch \<Rightarrow> ('t \<times> i64) list \<times> 't change_batch" where
  "drain cmp b = (cb_updates (compact cmp b), \<lparr>cb_updates = [], cb_clean = 0\<rparr>)"

definition change_batch_is_empty :: "('t \<Rightarrow> 't \<Rightarrow> int) \<Rightarrow> 't change_batch \<Rightarrow> bool \<times> 't change_batch" where
  "change_batch_is_empty cmp b =
     (if length (cb_updates b) div 2 < cb_clean b then (False, b)
      else (let b = compact cmp b in (cb_updates b = [], b)))"

definition change_batch_len :: "('t \<Rightarrow> 't \<Rightarrow> int) \<Rightarrow> 't change_batch \<Rightarrow> nat \<times> 't change_batch" where
  "change_batch_len cmp b = (let b = compact cmp b in (length (cb_updates b), b))"

definition drain_into ::
    "('t \<Rightarrow> 't \<Rightarrow> int) \<Rightarrow> 't change_batch \<Rightarrow> 't change_batch \<Rightarrow> 't change_batch \<times> 't change_batch" where
  "drain_into cmp self other =
     (if cb_updates other = [] then (other, self)
      else (\<lparr>cb_updates = [], cb_clean = 0\<rparr>, extend cmp (cb_updates self) other))"

section \<open>Antichains\<close>

definition less_than :: "('t \<Rightarrow> 't \<Rightarrow> bool) \<Rightarrow> 't \<Rightarrow> 't \<Rightarrow> bool" where
  "less_than le x y \<longleftrightarrow> le x y \<and> x \<noteq> y"

definition antichain_insert :: "('t \<Rightarrow> 't \<Rightarrow> bool) \<Rightarrow> 't \<Rightarrow> 't list \<Rightarrow> 't list \<times> bool" where
  "antichain_insert le element elements =
     (if \<not> list_ex (\<lambda>x. le x element) elements
      then (filter (\<lambda>x. \<not> le element x) elements @ [element], True)
      else (elements, False))"

fun antichain_extend :: "('t \<Rightarrow> 't \<Rightarrow> bool) \<Rightarrow> 't list \<Rightarrow> 't list \<Rightarrow> bool \<Rightarrow> 't list \<times> bool" where
  "antichain_extend le [] elements added = (elements, added)"
| "antichain_extend le (element # iterator) elements added =
     (case antichain_insert le element elements of
        (elements, inserted) \<Rightarrow> antichain_extend le iterator elements (inserted \<or> added))"

definition antichain_less_than :: "('t \<Rightarrow> 't \<Rightarrow> bool) \<Rightarrow> 't list \<Rightarrow> 't \<Rightarrow> bool" where
  "antichain_less_than le elements time \<longleftrightarrow> list_ex (\<lambda>x. less_than le x time) elements"

definition antichain_less_equal :: "('t \<Rightarrow> 't \<Rightarrow> bool) \<Rightarrow> 't list \<Rightarrow> 't \<Rightarrow> bool" where
  "antichain_less_equal le elements time \<longleftrightarrow> list_ex (\<lambda>x. le x time) elements"

definition antichain_le :: "('t \<Rightarrow> 't \<Rightarrow> bool) \<Rightarrow> 't list \<Rightarrow> 't list \<Rightarrow> bool" where
  "antichain_le le self other \<longleftrightarrow> list_all (\<lambda>t2. list_ex (\<lambda>t1. le t1 t2) self) other"

definition antichain_eq :: "'t list \<Rightarrow> 't list \<Rightarrow> bool" where
  "antichain_eq self other \<longleftrightarrow> length self = length other
     \<and> (list_all (\<lambda>(t1, t2). t1 = t2) (zip self other)
        \<or> list_all (\<lambda>t1. list_ex (\<lambda>t2. t1 = t2) other) self)"

definition antichain_from :: "('t \<Rightarrow> 't \<Rightarrow> bool) \<Rightarrow> 't list \<Rightarrow> 't list" where
  "antichain_from le vec = foldl (\<lambda>temp elem. fst (antichain_insert le elem temp)) [] vec"

section \<open>Mutable antichains\<close>

record 't mutable_antichain =
  ma_updates :: "'t change_batch"
  ma_frontier :: "'t list"
  ma_changes :: "'t change_batch"

definition mutable_antichain_new :: "'t mutable_antichain" where
  "mutable_antichain_new =
     \<lparr>ma_updates = change_batch_new, ma_frontier = [], ma_changes = change_batch_new\<rparr>"

definition mutable_antichain_new_bottom :: "('t \<Rightarrow> 't \<Rightarrow> int) \<Rightarrow> 't \<Rightarrow> 't mutable_antichain" where
  "mutable_antichain_new_bottom cmp bottom =
     \<lparr>ma_updates = change_batch_new_from cmp bottom 1, ma_frontier = [bottom],
      ma_changes = change_batch_new\<rparr>"

fun rebuild_frontier :: "('t \<Rightarrow> 't \<Rightarrow> bool) \<Rightarrow> ('t \<times> i64) list \<Rightarrow> 't list \<Rightarrow> 't list" where
  "rebuild_frontier le [] frontier = frontier"
| "rebuild_frontier le (time # rest) frontier =
     rebuild_frontier le rest
       (if \<not> list_ex (\<lambda>f. le f (fst time)) frontier then frontier @ [fst time] else frontier)"

definition rebuild ::
    "('t \<Rightarrow> 't \<Rightarrow> bool) \<Rightarrow> ('t \<Rightarrow> 't \<Rightarrow> int) \<Rightarrow> 't mutable_antichain \<Rightarrow> 't mutable_antichain" where
  "rebuild le cmp ma =
     (let changes = foldl (\<lambda>c time. update cmp time (-1) c) (ma_changes ma) (ma_frontier ma);
          updates = compact cmp (ma_updates ma);
          frontier = rebuild_frontier le (filter (\<lambda>x. 0 < sint (snd x)) (cb_updates updates)) [];
          changes = foldl (\<lambda>c time. update cmp time 1 c) changes frontier
      in \<lparr>ma_updates = updates, ma_frontier = frontier, ma_changes = changes\<rparr>)"

definition rebuild_needed :: "('t \<Rightarrow> 't \<Rightarrow> bool) \<Rightarrow> 't list \<Rightarrow> 't \<Rightarrow> i64 \<Rightarrow> bool" where
  "rebuild_needed le frontier time delta =
     (let beyond_frontier = list_ex (\<lambda>f. less_than le f time) frontier;
          before_frontier = \<not> list_ex (\<lambda>f. le f time) frontier
      in \<not> (beyond_frontier \<or> (sint delta < 0 \<and> before_frontier)))"

fun update_loop ::
    "('t \<Rightarrow> 't \<Rightarrow> bool) \<Rightarrow> ('t \<Rightarrow> 't \<Rightarrow> int) \<Rightarrow> ('t \<times> i64) list \<Rightarrow> bool \<Rightarrow> 't mutable_antichain
      \<Rightarrow> bool \<times> 't mutable_antichain" where
  "update_loop le cmp [] rebuild_required ma = (rebuild_required, ma)"
| "update_loop le cmp ((time, delta) # updates) rebuild_required ma =
     (let rebuild_required =
        (if \<not> rebuild_required then rebuild_needed le (ma_frontier ma) time delta else rebuild_required)
      in update_loop le cmp updates rebuild_required
           (ma\<lparr>ma_updates := update cmp time delta (ma_updates ma)\<rparr>))"

definition update_iter ::
    "('t \<Rightarrow> 't \<Rightarrow> bool) \<Rightarrow> ('t \<Rightarrow> 't \<Rightarrow> int) \<Rightarrow> ('t \<times> i64) list \<Rightarrow> 't mutable_antichain
      \<Rightarrow> ('t \<times> i64) list \<times> 't mutable_antichain" where
  "update_iter le cmp updates ma =
     (case update_loop le cmp updates False ma of (rebuild_required, ma) \<Rightarrow>
        let ma = (if rebuild_required then rebuild le cmp ma else ma)
        in (case drain cmp (ma_changes ma) of (out, changes) \<Rightarrow> (out, ma\<lparr>ma_changes := changes\<rparr>)))"

definition count_for :: "('t \<Rightarrow> 't \<Rightarrow> int) \<Rightarrow> 't \<Rightarrow> 't mutable_antichain \<Rightarrow> i64" where
  "count_for cmp query_time ma =
     sum_list (map snd (filter (\<lambda>td. cmp (fst td) query_time = 0) (cb_updates (ma_updates ma))))"

definition mutable_antichain_from ::
    "('t \<Rightarrow> 't \<Rightarrow> bool) \<Rightarrow> ('t \<Rightarrow> 't \<Rightarrow> int) \<Rightarrow> 't list \<Rightarrow> 't mutable_antichain" where
  "mutable_antichain_from le cmp antichain =
     snd (update_iter le cmp (map (\<lambda>time. (time, 1)) antichain) mutable_antichain_new)"

section \<open>The contract of a time\<close>

locale sorted_times = time_order le + total_cmp cmp
  for le :: "'t \<Rightarrow> 't \<Rightarrow> bool" and cmp :: "'t \<Rightarrow> 't \<Rightarrow> int" +
  assumes cmp_eq: "cmp a b = 0 \<Longrightarrow> a = b"
    and le_cmp: "le a b \<Longrightarrow> cmp a b \<le> 0"
begin

lemma cmp_eq_iff: "cmp a b = 0 \<longleftrightarrow> a = b"
  using cmp_eq cmp_refl by blast

end

sublocale sorted_times \<subseteq> counts: ordered_difference "(+) :: i64 \<Rightarrow> i64 \<Rightarrow> i64" "\<lambda>r. r = 0" 0 cmp
  by unfold_locales (auto simp: add.assoc add.commute)

definition timestamp_cmp :: "timestamp \<Rightarrow> timestamp \<Rightarrow> int" where
  "timestamp_cmp a b = sgn (uint a - uint b)"

definition sct_cmp :: "timestamp self_compaction_time \<Rightarrow> timestamp self_compaction_time \<Rightarrow> int" where
  "sct_cmp x y = prod_cmp timestamp_cmp (\<lambda>a b. of_bool a - of_bool b)
     (sct_time x, sct_retraction x) (sct_time y, sct_retraction y)"

interpretation timestamp_times: sorted_times timestamp_less_equal timestamp_cmp
proof (intro sorted_times.intro sorted_times_axioms.intro)
  show "time_order timestamp_less_equal" by (rule timestamp_lattice.time_order_axioms)
  show "total_cmp timestamp_cmp" using total_cmp_sgn [of uint] by (simp add: timestamp_cmp_def [abs_def])
qed (auto simp: timestamp_cmp_def timestamp_less_equal_def word_le_def sgn_0_0 word_uint_eq_iff sgn_if
    split: if_split_asm)

interpretation sct_times: sorted_times "sct_less_equal timestamp_less_equal" sct_cmp
proof (intro sorted_times.intro sorted_times_axioms.intro)
  show "time_order (sct_less_equal timestamp_less_equal)" by (rule sct_lattice.time_order_axioms)
  have "total_cmp (\<lambda>a b. of_bool a - of_bool b :: int)"
    by unfold_locales (auto simp: of_bool_def split: if_splits)
  from total_cmp_key_by [OF total_cmp_prod [OF timestamp_times.total_cmp_axioms this],
      where f = "\<lambda>x. (sct_time x, sct_retraction x)"]
  show "total_cmp sct_cmp" by (simp add: sct_cmp_def [abs_def] key_by_def [abs_def])
next
  fix a b :: "timestamp self_compaction_time"
  show "sct_cmp a b = 0 \<Longrightarrow> a = b"
    by (cases a; cases b) (auto simp: sct_cmp_def prod_cmp_eq_0 dest: timestamp_times.cmp_eq split: if_splits)
  show "sct_less_equal timestamp_less_equal a b \<Longrightarrow> sct_cmp a b \<le> 0"
    using timestamp_times.le_cmp [of "sct_time a" "sct_time b"] timestamp_times.cmp_refl
    by (auto simp: sct_less_equal_def sct_cmp_def prod_cmp_def Let_def dest: timestamp_times.cmp_eq split: if_splits)
qed

section \<open>Change batches keep every count\<close>

text \<open>The clean prefix is sorted, without duplicates.\<close>

definition cb_ok :: "('t \<Rightarrow> 't \<Rightarrow> int) \<Rightarrow> 't change_batch \<Rightarrow> bool" where
  "cb_ok cmp b \<longleftrightarrow> cb_clean b \<le> length (cb_updates b)
     \<and> strictly_sorted cmp (take (cb_clean b) (cb_updates b))"

definition cb_nonzero :: "'t change_batch \<Rightarrow> bool" where
  "cb_nonzero b \<longleftrightarrow> (\<forall>p \<in> set (cb_updates b). snd p \<noteq> 0)"

abbreviation cb_count :: "('t \<Rightarrow> 't \<Rightarrow> int) \<Rightarrow> 't \<Rightarrow> 't change_batch \<Rightarrow> i64" where
  "cb_count cmp t b \<equiv> total (+) 0 cmp t (cb_updates b)"

lemma total_append: "total (+) 0 cmp t (xs @ ys) = total (+) 0 cmp t xs + (total (+) 0 cmp t ys :: i64)"
  by (induction xs) (auto simp: add.assoc)

context sorted_times begin

lemma compact_loop_runs: "filter (\<lambda>x. snd x \<noteq> 0) (compact_loop cmp xs) = counts.runs xs"
proof (induction xs rule: counts.runs_induct)
  case (Cons p q ps)
  then show ?case
    using cmp_eq [of "fst p" "fst q"] by (cases "cmp (fst p) (fst q) = 0") (auto simp: add.commute)
qed auto

lemma key_total: "total_cmp (key_by cmp (fst :: 't \<times> i64 \<Rightarrow> 't))"
  by (rule total_cmp_key_by) (rule total_cmp_axioms)

lemma sorted_short: "length xs \<le> 1 \<Longrightarrow> strictly_sorted cmp xs"
  by (cases xs) (auto simp: strictly_sorted_def)

lemma compact_sorted: "cb_ok cmp b \<Longrightarrow> strictly_sorted cmp (cb_updates (compact cmp b))"
  using counts.runs_strictly_sorted total_cmp.slice_sort_sorted [OF key_total]
  by (auto simp: compact_def cb_ok_def compact_loop_runs Let_def intro: sorted_short)

lemma compact_count [simp]: "cb_count cmp t (compact cmp b) = cb_count cmp t b"
proof -
  have "counts.net t (slice_sort (key_by cmp fst) (cb_updates b)) = counts.net t (cb_updates b)"
    by (rule counts.net_perm) simp
  then show ?thesis by (simp add: compact_def compact_loop_runs counts.net_runs Let_def)
qed

lemma compact_ok: "cb_ok cmp b \<Longrightarrow> cb_ok cmp (compact cmp b)"
  using compact_sorted [of b] by (simp add: cb_ok_def compact_def Let_def)

lemma compact_nonzero: "cb_nonzero b \<Longrightarrow> cb_nonzero (compact cmp b)"
  by (auto simp: cb_nonzero_def compact_def Let_def)

lemma maintain_bounds_cases: "maintain_bounds cmp b = b \<or> maintain_bounds cmp b = compact cmp b"
  by (simp add: maintain_bounds_def)

lemma update_ok: "cb_ok cmp b \<Longrightarrow> cb_ok cmp (update cmp t v b)"
  using maintain_bounds_cases [of "b\<lparr>cb_updates := cb_updates b @ [(t, v)]\<rparr>"]
    compact_ok [of "b\<lparr>cb_updates := cb_updates b @ [(t, v)]\<rparr>"]
  by (auto simp: update_def cb_ok_def)

lemma update_count [simp]: "cb_count cmp u (update cmp t v b) = cb_count cmp u b + (if t = u then v else 0)"
  using maintain_bounds_cases [of "b\<lparr>cb_updates := cb_updates b @ [(t, v)]\<rparr>"]
  by (auto simp: update_def total_append cmp_eq_iff)

lemma update_nonzero: "cb_nonzero b \<Longrightarrow> v \<noteq> 0 \<Longrightarrow> cb_nonzero (update cmp t v b)"
  using maintain_bounds_cases [of "b\<lparr>cb_updates := cb_updates b @ [(t, v)]\<rparr>"]
    compact_nonzero [of "b\<lparr>cb_updates := cb_updates b @ [(t, v)]\<rparr>"]
  by (auto simp: update_def cb_nonzero_def)

lemma sorted_count:
  assumes "strictly_sorted cmp xs" and "(t, v) \<in> set xs"
  shows "counts.net t xs = v"
  using assms
proof (induction xs)
  case (Cons p xs)
  show ?case
  proof (cases "p = (t, v)")
    case True
    then show ?thesis using counts.net_head [OF Cons.prems(1), of t] cmp_refl by simp
  next
    case False
    with Cons.prems have "(t, v) \<in> set xs" "cmp (fst p) t < 0"
      by (auto simp: strictly_sorted_def)
    moreover have "strictly_sorted cmp xs" using Cons.prems(1) by (simp add: strictly_sorted_def)
    ultimately show ?thesis using Cons.IH by (cases p) auto
  qed
qed simp

lemma sorted_count_iff:
  assumes "strictly_sorted cmp xs" and "\<forall>p \<in> set xs. snd p \<noteq> 0"
  shows "(t, v) \<in> set xs \<longleftrightarrow> counts.net t xs = v \<and> v \<noteq> 0"
proof
  assume "counts.net t xs = v \<and> v \<noteq> 0"
  then obtain p where "p \<in> set xs" "cmp (fst p) t = 0" using counts.net_absent [of xs t] by blast
  then have "(t, snd p) \<in> set xs" using cmp_eq [of "fst p" t] by (cases p) auto
  with \<open>counts.net t xs = v \<and> v \<noteq> 0\<close> sorted_count [OF assms(1) this] show "(t, v) \<in> set xs" by simp
qed (use assms sorted_count in fastforce)

end

section \<open>The frontier is the set of minimal times\<close>

definition minimals :: "('t \<Rightarrow> 't \<Rightarrow> bool) \<Rightarrow> ('t \<Rightarrow> bool) \<Rightarrow> 't set" where
  "minimals le P = {t. P t \<and> (\<forall>s. P s \<longrightarrow> le s t \<longrightarrow> s = t)}"

definition positive :: "('t \<Rightarrow> 't \<Rightarrow> int) \<Rightarrow> 't mutable_antichain \<Rightarrow> 't \<Rightarrow> bool" where
  "positive cmp ma t \<longleftrightarrow> 0 < sint (cb_count cmp t (ma_updates ma))"

definition ma_ok :: "('t \<Rightarrow> 't \<Rightarrow> bool) \<Rightarrow> ('t \<Rightarrow> 't \<Rightarrow> int) \<Rightarrow> 't mutable_antichain \<Rightarrow> bool" where
  "ma_ok le cmp ma \<longleftrightarrow> cb_ok cmp (ma_updates ma) \<and> ma_changes ma = change_batch_new
     \<and> distinct (ma_frontier ma) \<and> set (ma_frontier ma) = minimals le (positive cmp ma)"

text \<open>The sum of the updates to a time, and the condition that no running count leaves the range
  of an \<open>i64\<close>.\<close>

definition running :: "'t \<Rightarrow> ('t \<times> i64) list \<Rightarrow> int" where
  "running t updates = sum_list (map (\<lambda>(u, d). if u = t then sint d else 0) updates)"

definition counts_fit :: "('t \<Rightarrow> 't \<Rightarrow> int) \<Rightarrow> 't change_batch \<Rightarrow> ('t \<times> i64) list \<Rightarrow> bool" where
  "counts_fit cmp b updates \<longleftrightarrow>
     (\<forall>n t. in_i64 (sint (cb_count cmp t b) + running t (take n updates)))"

lemma running_simps [simp]:
  "running t [] = 0"
  "running t ((u, d) # updates) = (if u = t then sint d else 0) + running t updates"
  by (simp_all add: running_def)

context sorted_times begin

lemma minimal_below:
  assumes "finite {t. P t}" and "P t"
  shows "\<exists>f \<in> minimals le P. le f t"
proof -
  have "finite {s. P s \<and> le s t}" using assms(1) by (rule rev_finite_subset) auto
  then obtain xs where xs: "set xs = {s. P s \<and> le s t}" using finite_list by blast
  with assms(2) le_refl have "xs \<noteq> []" by auto
  then obtain m where m: "iter_min cmp xs = Some m" using iter_min_Some by blast
  then have "P m" "le m t" using iter_min_in xs by fastforce+
  moreover have "s = m" if "P s" "le s m" for s
  proof -
    have "s \<in> set xs" using that \<open>le m t\<close> le_trans xs by blast
    then have "cmp m s \<le> 0" using iter_min_le m by blast
    with le_cmp [OF that(2)] show "s = m" using cmp_le_antisym cmp_eq by blast
  qed
  ultimately show ?thesis by (auto simp: minimals_def)
qed

lemma positive_finite: "finite {t. positive cmp ma t}"
proof (rule finite_subset)
  show "{t. positive cmp ma t} \<subseteq> fst ` set (cb_updates (ma_updates ma))"
  proof
    fix t assume "t \<in> {t. positive cmp ma t}"
    then have "cb_count cmp t (ma_updates ma) \<noteq> 0" by (auto simp: positive_def)
    then obtain p where "p \<in> set (cb_updates (ma_updates ma))" "cmp (fst p) t = 0"
      using counts.net_absent by blast
    then show "t \<in> fst ` set (cb_updates (ma_updates ma))" using cmp_eq [of "fst p" t] by auto
  qed
qed simp

lemma rebuild_frontier_minimals:
  assumes "strictly_sorted cmp xs"
  shows "set (rebuild_frontier le xs []) = minimals le (\<lambda>t. t \<in> fst ` set xs)
    \<and> distinct (rebuild_frontier le xs [])"
proof -
  have "set (rebuild_frontier le ys acc) = minimals le (\<lambda>t. t \<in> A \<union> fst ` set ys)
      \<and> distinct (rebuild_frontier le ys acc)"
    if "set acc = minimals le (\<lambda>t. t \<in> A)" "distinct acc" "finite A" "strictly_sorted cmp ys"
      "\<forall>a \<in> A. \<forall>p \<in> set ys. cmp a (fst p) < 0" for ys acc A
    using that
  proof (induction ys arbitrary: acc A)
    case (Cons p ys)
    let ?t = "fst p"
    let ?acc = "if \<not> list_ex (\<lambda>f. le f ?t) acc then acc @ [?t] else acc"
    have new: "\<not> le ?t a" if "a \<in> A" for a
      using that Cons.prems(5) le_cmp [of ?t a] cmp_antisym [of a ?t] by force
    have tA: "?t \<notin> A" using new le_refl by blast
    have fin: "finite {x. x \<in> A}" using Cons.prems(3) by simp
    have below: "list_ex (\<lambda>f. le f ?t) acc \<longleftrightarrow> (\<exists>a \<in> A. le a ?t)"
      using Cons.prems(1) minimal_below [OF fin] le_trans
      by (auto simp: list_ex_iff minimals_def) blast
    have acc: "set ?acc = minimals le (\<lambda>t. t \<in> insert ?t A)"
      using Cons.prems(1) below new tA by (auto simp: minimals_def)
    have dist: "distinct ?acc" using Cons.prems(1,2) tA by (auto simp: minimals_def)
    have less: "\<forall>a \<in> insert ?t A. \<forall>q \<in> set ys. cmp a (fst q) < 0"
      using Cons.prems(4,5) by (auto simp: strictly_sorted_def)
    have sorted: "strictly_sorted cmp ys" using Cons.prems(4) by (simp add: strictly_sorted_def)
    have "finite (insert ?t A)" using Cons.prems(3) by simp
    from Cons.IH [OF acc dist this sorted less] show ?case by simp
  qed simp
  from this [of "[]" "{}" xs] assms show ?thesis by (simp add: minimals_def)
qed

lemma minimals_beyond:
  assumes f: "f \<in> minimals le P" and fu: "less_than le f u" and same: "\<And>t. t \<noteq> u \<Longrightarrow> P' t = P t"
  shows "minimals le P' = minimals le P"
proof -
  have fu: "le f u" "f \<noteq> u" using assms(2) by (auto simp: less_than_def)
  have P: "P f" "P' f" using f same fu(2) by (auto simp: minimals_def)
  have "t \<in> minimals le P' \<longleftrightarrow> t \<in> minimals le P" for t
  proof (cases "le u t")
    case True
    then have "le f t" using fu(1) le_trans by blast
    moreover have "f \<noteq> t" using True fu le_antisym by blast
    ultimately show ?thesis using P by (auto simp: minimals_def)
  next
    case False
    then have "t \<noteq> u" using le_refl by blast
    then have "(P' s \<and> le s t) = (P s \<and> le s t)" for s using False same by (cases "s = u") auto
    then show ?thesis using same [OF \<open>t \<noteq> u\<close>] unfolding minimals_def by blast
  qed
  then show ?thesis by blast
qed

lemma sint_step:
  assumes "in_i64 (sint a + r)" shows "sint (a + of_int r :: i64) = sint a + r"
proof -
  have "a + of_int r = (of_int (sint a + r) :: i64)" by simp
  then show ?thesis using sint_of_int_in_i64 [OF assms] by simp
qed

lemma total_running: "total (+) 0 cmp t updates = (of_int (running t updates) :: i64)"
  by (induction updates) (auto simp: cmp_eq_iff)

lemma counts_fit_Cons:
  assumes "counts_fit cmp b ((u, d) # updates)"
  shows "sint (cb_count cmp t (update cmp u d b)) = sint (cb_count cmp t b) + (if u = t then sint d else 0)"
    and "counts_fit cmp (update cmp u d b) updates"
proof -
  have fit: "in_i64 (sint (cb_count cmp t b) + running t (take n ((u, d) # updates)))" for n t
    using assms by (simp add: counts_fit_def)
  have step: "sint (cb_count cmp t (update cmp u d b))
      = sint (cb_count cmp t b) + (if u = t then sint d else 0)" for t
    using fit [of t 1] sint_step [of "cb_count cmp t b" "if u = t then sint d else 0"]
    by (simp split: if_split_asm)
  show "sint (cb_count cmp t (update cmp u d b)) = sint (cb_count cmp t b) + (if u = t then sint d else 0)"
    by (rule step)
  show "counts_fit cmp (update cmp u d b) updates"
    unfolding counts_fit_def step using fit [of _ "Suc _"] by (simp add: algebra_simps)
qed

lemma update_loop_mono: "update_loop le cmp updates r ma = (r', ma') \<Longrightarrow> r \<Longrightarrow> r'"
  by (induction updates arbitrary: r ma) (auto simp: Let_def)

lemma rebuild_not_needed:
  assumes "\<not> rebuild_needed le (ma_frontier ma) u d"
    and "set (ma_frontier ma) = minimals le (positive cmp ma)"
    and "\<And>t. sint (cb_count cmp t (update cmp u d (ma_updates ma)))
      = sint (cb_count cmp t (ma_updates ma)) + (if u = t then sint d else 0)"
  shows "minimals le (positive cmp (ma\<lparr>ma_updates := update cmp u d (ma_updates ma)\<rparr>))
    = minimals le (positive cmp ma)" (is "minimals le (positive cmp ?ma) = _")
proof -
  from assms(1) consider (beyond) f where "f \<in> set (ma_frontier ma)" "less_than le f u"
    | (before) "sint d < 0" "\<forall>f \<in> set (ma_frontier ma). \<not> le f u"
    by (auto simp: rebuild_needed_def Let_def list_ex_iff)
  then show ?thesis
  proof cases
    case beyond
    with assms(2) show ?thesis by (intro minimals_beyond [of f]) (auto simp: positive_def)
  next
    case before
    then have "\<not> positive cmp ma u" using minimal_below [OF positive_finite, of ma u] assms(2) by blast
    then have "positive cmp ?ma t = positive cmp ma t" for t
      using assms(3) [of t] before(1) by (auto simp: positive_def)
    then have "positive cmp ?ma = positive cmp ma" by (intro ext)
    then show ?thesis by simp
  qed
qed

lemma update_loop_effect:
  assumes "cb_ok cmp (ma_updates ma)" and "counts_fit cmp (ma_updates ma) updates"
    and "update_loop le cmp updates r ma = (r', ma')"
  shows "cb_ok cmp (ma_updates ma') \<and> ma_frontier ma' = ma_frontier ma \<and> ma_changes ma' = ma_changes ma
    \<and> (\<forall>t. sint (cb_count cmp t (ma_updates ma')) = sint (cb_count cmp t (ma_updates ma)) + running t updates)
    \<and> (\<not> r' \<longrightarrow> set (ma_frontier ma) = minimals le (positive cmp ma)
         \<longrightarrow> minimals le (positive cmp ma') = minimals le (positive cmp ma))"
  using assms
proof (induction updates arbitrary: ma r)
  case (Cons ud updates)
  obtain u d where ud: "ud = (u, d)" by (cases ud)
  let ?ma = "ma\<lparr>ma_updates := update cmp u d (ma_updates ma)\<rparr>"
  define r1 where "r1 = (if \<not> r then rebuild_needed le (ma_frontier ma) u d else r)"
  have loop: "update_loop le cmp updates r1 ?ma = (r', ma')"
    using Cons.prems(3) by (simp add: ud r1_def Let_def)
  have ok: "cb_ok cmp (ma_updates ?ma)" using Cons.prems(1) by (simp add: update_ok)
  note fit = counts_fit_Cons [OF Cons.prems(2) [unfolded ud]]
  have fit': "counts_fit cmp (ma_updates ?ma) updates" using fit(2) by simp
  note IH = Cons.IH [OF ok fit' loop]
  have "minimals le (positive cmp ma') = minimals le (positive cmp ma)"
    if r': "\<not> r'" and F: "set (ma_frontier ma) = minimals le (positive cmp ma)"
  proof -
    have "\<not> rebuild_needed le (ma_frontier ma) u d"
      using update_loop_mono [OF loop] r' by (cases r) (auto simp: r1_def)
    from rebuild_not_needed [OF this F fit(1)] IH r' F show ?thesis by simp
  qed
  with IH fit(1) show ?case by (simp add: ud)
qed simp

lemma foldl_update_count:
  "cb_count cmp t (foldl (\<lambda>c u. update cmp u v c) b ts) = cb_count cmp t b + of_nat (count_list ts t) * v"
  by (induction ts arbitrary: b) (auto simp: algebra_simps)

lemma foldl_update_ok: "cb_ok cmp b \<Longrightarrow> cb_ok cmp (foldl (\<lambda>c u. update cmp u v c) b ts)"
  by (induction ts arbitrary: b) (auto simp: update_ok)

lemma foldl_update_nonzero:
  "cb_nonzero b \<Longrightarrow> v \<noteq> 0 \<Longrightarrow> cb_nonzero (foldl (\<lambda>c u. update cmp u v c) b ts)"
  by (induction ts arbitrary: b) (auto simp: update_nonzero)

lemma count_list_distinct: "distinct ts \<Longrightarrow> count_list ts t = of_bool (t \<in> set ts)"
  by (induction ts) auto

lemma new_batch: "cb_ok cmp change_batch_new" "cb_nonzero change_batch_new"
  "cb_count cmp t change_batch_new = 0"
  by (simp_all add: cb_ok_def cb_nonzero_def change_batch_new_def strictly_sorted_def)

lemma rebuild_effect:
  assumes "cb_ok cmp (ma_updates ma)" and "ma_changes ma = change_batch_new" and "distinct (ma_frontier ma)"
  shows "let ma' = rebuild le cmp ma in
    cb_ok cmp (ma_updates ma') \<and> distinct (ma_frontier ma')
    \<and> (\<forall>t. cb_count cmp t (ma_updates ma') = cb_count cmp t (ma_updates ma))
    \<and> set (ma_frontier ma') = minimals le (positive cmp ma)
    \<and> cb_ok cmp (ma_changes ma') \<and> cb_nonzero (ma_changes ma')
    \<and> (\<forall>t. cb_count cmp t (ma_changes ma')
        = of_bool (t \<in> set (ma_frontier ma')) - of_bool (t \<in> set (ma_frontier ma)))"
proof -
  let ?xs = "cb_updates (compact cmp (ma_updates ma))"
  let ?pos = "filter (\<lambda>x. 0 < sint (snd x)) ?xs"
  have sorted: "strictly_sorted cmp ?xs" using assms(1) by (rule compact_sorted)
  then have "strictly_sorted cmp ?pos" by (auto simp: strictly_sorted_def sorted_wrt_filter)
  note F = rebuild_frontier_minimals [OF this]
  have "t \<in> fst ` set ?pos \<longleftrightarrow> positive cmp ma t" for t
  proof
    assume "t \<in> fst ` set ?pos"
    then obtain v where "(t, v) \<in> set ?xs" "0 < sint v" by auto
    with sorted_count [OF sorted this(1)] compact_count [of t "ma_updates ma"] show "positive cmp ma t"
      by (simp add: positive_def)
  next
    assume p: "positive cmp ma t"
    then have "counts.net t ?xs \<noteq> 0" by (auto simp: positive_def)
    then obtain q where q: "q \<in> set ?xs" "cmp (fst q) t = 0" using counts.net_absent by blast
    then have "(t, snd q) \<in> set ?xs" using cmp_eq [of "fst q" t] by (cases q) auto
    with sorted_count [OF sorted this] p q(1) cmp_eq [OF q(2)] show "t \<in> fst ` set ?pos"
      by (force simp: positive_def)
  qed
  then have "(\<lambda>t. t \<in> fst ` set ?pos) = positive cmp ma" by (intro ext)
  with F have frontier: "set (rebuild_frontier le ?pos []) = minimals le (positive cmp ma)"
    "distinct (rebuild_frontier le ?pos [])" by simp_all
  then show ?thesis
    using assms
    by (simp add: new_batch rebuild_def Let_def compact_ok foldl_update_ok foldl_update_nonzero
        foldl_update_count count_list_distinct)
qed

text \<open>The effect of \<open>update_iter\<close>, as a whole.\<close>

lemma update_iter_exact:
  assumes "ma_ok le cmp ma" and "counts_fit cmp (ma_updates ma) updates"
    and "update_iter le cmp updates ma = (out, ma')"
  shows "ma_ok le cmp ma' \<and> strictly_sorted cmp out
    \<and> (\<forall>t. sint (cb_count cmp t (ma_updates ma')) = sint (cb_count cmp t (ma_updates ma)) + running t updates)
    \<and> (\<forall>t v. (t, v) \<in> set out \<longleftrightarrow>
        v \<noteq> 0 \<and> v = of_bool (t \<in> set (ma_frontier ma')) - of_bool (t \<in> set (ma_frontier ma)))"
proof -
  obtain r ma1 where loop: "update_loop le cmp updates False ma = (r, ma1)" by (cases "update_loop le cmp updates False ma")
  have ok: "cb_ok cmp (ma_updates ma)" "ma_changes ma = change_batch_new" "distinct (ma_frontier ma)"
    "set (ma_frontier ma) = minimals le (positive cmp ma)" using assms(1) by (simp_all add: ma_ok_def)
  note eff = update_loop_effect [OF ok(1) assms(2) loop]
  show ?thesis
  proof (cases r)
    case False
    have "compact cmp change_batch_new = (change_batch_new :: 't change_batch)"
      by (simp add: compact_def change_batch_new_def)
    with False loop assms(3) eff ok have "out = []" "ma' = ma1\<lparr>ma_changes := change_batch_new\<rparr>"
      by (auto simp: update_iter_def drain_def change_batch_new_def)
    moreover have "positive cmp (ma1\<lparr>ma_changes := change_batch_new\<rparr>) = positive cmp ma1"
      by (auto simp: positive_def)
    ultimately show ?thesis using False eff ok
      by (simp add: ma_ok_def strictly_sorted_def)
  next
    case True
    let ?ma2 = "rebuild le cmp ma1"
    have out: "out = cb_updates (compact cmp (ma_changes ?ma2))"
      and ma': "ma' = ?ma2\<lparr>ma_changes := change_batch_new\<rparr>"
      using True loop assms(3) by (auto simp: update_iter_def drain_def change_batch_new_def Let_def)
    have "cb_ok cmp (ma_updates ma1)" "ma_changes ma1 = change_batch_new" "distinct (ma_frontier ma1)"
      "ma_frontier ma1 = ma_frontier ma" using eff ok by simp_all
    note reb = rebuild_effect [OF this(1-3), unfolded this(4) Let_def]
    have pos: "positive cmp ma' = positive cmp ma1" using reb ma' by (simp add: positive_def fun_eq_iff)
    have "strictly_sorted cmp out" unfolding out using reb by (blast intro: compact_sorted)
    moreover have "\<forall>p \<in> set out. snd p \<noteq> 0"
      unfolding out using reb compact_nonzero [of "ma_changes ?ma2"] by (simp add: cb_nonzero_def)
    ultimately show ?thesis
      using sorted_count_iff [of out] reb pos eff ma'
      by (auto simp: ma_ok_def out)
  qed
qed

lemma sorted_distinct: "strictly_sorted cmp xs \<Longrightarrow> distinct (map fst xs)"
proof (induction xs)
  case (Cons p xs)
  then have "\<forall>q \<in> set xs. cmp (fst p) (fst q) < 0" by (auto simp: strictly_sorted_def)
  then have "fst p \<notin> fst ` set xs" using cmp_refl by (metis imageE less_irrefl)
  with Cons show ?case by (simp add: strictly_sorted_def)
qed simp

lemma is_empty_compacted:
  assumes "cb_ok cmp b" and "cb_nonzero b"
  shows "cb_updates (compact cmp b) = [] \<longleftrightarrow> (\<forall>t. cb_count cmp t b = 0)"
proof
  assume "\<forall>t. cb_count cmp t b = 0"
  then have "counts.net t (cb_updates (compact cmp b)) = 0" for t by simp
  with sorted_count_iff [OF compact_sorted [OF assms(1)]] compact_nonzero [OF assms(2)]
  have "(t, v) \<notin> set (cb_updates (compact cmp b))" for t v by (auto simp: cb_nonzero_def)
  then show "cb_updates (compact cmp b) = []" by (cases "cb_updates (compact cmp b)") auto
next
  assume "cb_updates (compact cmp b) = []"
  then have "cb_count cmp t (compact cmp b) = 0" for t by simp
  then show "\<forall>t. cb_count cmp t b = 0" unfolding compact_count by blast
qed

text \<open>The shortcut of \<open>is_empty\<close>: more clean entries than dirty ones cannot all be cancelled.\<close>

lemma mostly_clean:
  assumes "cb_ok cmp b" and "cb_nonzero b" and "length (cb_updates b) div 2 < cb_clean b"
  shows "\<exists>t. cb_count cmp t b \<noteq> 0"
proof -
  let ?c = "take (cb_clean b) (cb_updates b)" and ?d = "drop (cb_clean b) (cb_updates b)"
  have sorted: "strictly_sorted cmp ?c" using assms(1) by (simp add: cb_ok_def)
  have "distinct (map fst ?c)" using sorted by (rule sorted_distinct)
  from distinct_card [OF this] have "card (set (map fst ?c)) = length ?c" by (simp only: length_map)
  moreover have "card (set (map fst ?d)) \<le> length ?d" using card_length [of "map fst ?d"] by (simp only: length_map)
  moreover have "length ?d < length ?c" using assms(1,3) by (auto simp: cb_ok_def)
  ultimately have "card (set (map fst ?d)) < card (set (map fst ?c))" by simp
  then have "\<not> set (map fst ?c) \<subseteq> set (map fst ?d)"
    using card_mono [OF finite_set, of "set (map fst ?c)" "map fst ?d"] by (meson not_less)
  then obtain t v where tv: "(t, v) \<in> set ?c" "t \<notin> fst ` set ?d" by (auto simp: subset_iff)
  have "cmp (fst q) t \<noteq> 0" if "q \<in> set ?d" for q using that tv(2) cmp_eq by blast
  then have "counts.net t ?d = 0" using counts.net_absent by blast
  then have "cb_count cmp t b = v"
    using sorted_count [OF sorted tv(1)] total_append [of cmp t ?c ?d] by simp
  moreover have "v \<noteq> 0" using in_set_takeD [OF tv(1)] assms(2) by (auto simp: cb_nonzero_def)
  ultimately show ?thesis by blast
qed

end

context time_order begin

lemma antichain_insert_minimals:
  assumes "set elements = minimals le (\<lambda>t. t \<in> A)" and "finite A" and "distinct elements"
    and "\<forall>t \<in> A. \<exists>f \<in> set elements. le f t"
  shows "set (fst (antichain_insert le e elements)) = minimals le (\<lambda>t. t \<in> insert e A)
    \<and> distinct (fst (antichain_insert le e elements))
    \<and> (\<forall>t \<in> insert e A. \<exists>f \<in> set (fst (antichain_insert le e elements)). le f t)"
proof (cases "list_ex (\<lambda>x. le x e) elements")
  case True
  then obtain x where x: "x \<in> set elements" "le x e" by (auto simp: list_ex_iff)
  then have "x \<in> A" using assms(1) by (auto simp: minimals_def)
  have least: "s = x" if "s \<in> A" "le s x" for s using that x(1) assms(1) by (auto simp: minimals_def)
  have "s = t" if "t \<in> minimals le (\<lambda>t. t \<in> A)" "s = e \<or> s \<in> A" "le s t" for s t
    using that x(2) \<open>x \<in> A\<close> least le_trans [of x e t] le_antisym [of x e] by (auto simp: minimals_def)
  moreover have "t \<in> A" if "t \<in> minimals le (\<lambda>t. t \<in> insert e A)" for t
    using that x(2) \<open>x \<in> A\<close> by (auto simp: minimals_def)
  ultimately have "minimals le (\<lambda>t. t \<in> insert e A) = minimals le (\<lambda>t. t \<in> A)"
    unfolding minimals_def by blast
  with True x assms show ?thesis by (auto simp: antichain_insert_def)
next
  case False
  then have new: "\<not> le x e" if "x \<in> A" for x
    using that assms(4) le_trans by (fastforce simp: list_ex_iff)
  have "e \<notin> set elements" using new le_refl assms(1) by (auto simp: minimals_def)
  moreover have "set (filter (\<lambda>x. \<not> le e x) elements @ [e]) = minimals le (\<lambda>t. t \<in> insert e A)"
    using assms(1) new le_refl by (auto simp: minimals_def)
  moreover have "\<exists>f \<in> set (filter (\<lambda>x. \<not> le e x) elements @ [e]). le f t" if "t \<in> insert e A" for t
    using that assms(4) le_refl le_trans by fastforce
  ultimately show ?thesis using False assms(3) by (simp add: antichain_insert_def)
qed

lemma antichain_from_minimals:
  "set (antichain_from le vec) = minimals le (\<lambda>t. t \<in> set vec) \<and> distinct (antichain_from le vec)
   \<and> (\<forall>t \<in> set vec. \<exists>f \<in> set (antichain_from le vec). le f t)"
proof (induction vec rule: rev_induct)
  case Nil
  then show ?case by (simp add: antichain_from_def minimals_def)
next
  case (snoc e vec)
  have eqs: "antichain_from le (vec @ [e]) = fst (antichain_insert le e (antichain_from le vec))"
    "set (vec @ [e]) = insert e (set vec)"
    by (simp_all add: antichain_from_def)
  have "set (antichain_from le vec) = minimals le (\<lambda>t. t \<in> set vec)"
    "distinct (antichain_from le vec)" "\<forall>t \<in> set vec. \<exists>f \<in> set (antichain_from le vec). le f t"
    using snoc by blast+
  from antichain_insert_minimals [OF this(1) finite_set this(2,3), of e] show ?case unfolding eqs .
qed

end

section \<open>The properties of progress tracking\<close>

text \<open>C10. \<open>MutableAntichain::update_iter\<close> implements its specification, a map from times to counts
  with the antichain of the minimal times of positive count: it adds the updates to the counts, the
  stored frontier is again the set of the minimal times, although it is rebuilt only when
  \<open>rebuild_required\<close> is set, and the changes handed out are exactly the difference of the new
  frontier to the old one, \<open>+1\<close> for a time that entered, \<open>-1\<close> for one that left, once each, in
  order. The condition is that no running count leaves the range of an \<open>i64\<close>.\<close>

theorem mutable_antichain_exact:
  assumes "sorted_times le cmp" and "ma_ok le cmp ma" and "counts_fit cmp (ma_updates ma) updates"
    and "update_iter le cmp updates ma = (out, ma')"
  shows "ma_ok le cmp ma' \<and> strictly_sorted cmp out
    \<and> (\<forall>t. sint (cb_count cmp t (ma_updates ma')) = sint (cb_count cmp t (ma_updates ma)) + running t updates)
    \<and> set (ma_frontier ma') = minimals le (\<lambda>t. 0 < sint (cb_count cmp t (ma_updates ma')))
    \<and> (\<forall>t v. (t, v) \<in> set out \<longleftrightarrow>
        v \<noteq> 0 \<and> v = of_bool (t \<in> set (ma_frontier ma')) - of_bool (t \<in> set (ma_frontier ma)))"
  using sorted_times.update_iter_exact [OF assms] by (simp add: ma_ok_def positive_def [abs_def])

lemma take_two: "take n [a, b] \<in> {[], [a], [a, b]}"
  by (cases n; cases "n - 1") auto

lemma ma_ok_new: "ma_ok le cmp mutable_antichain_new"
  by (simp add: ma_ok_def mutable_antichain_new_def cb_ok_def change_batch_new_def strictly_sorted_def
      minimals_def positive_def)

theorem mutable_antichain_exact_witness:
  "let (out, ma') = update_iter timestamp_less_equal timestamp_cmp [(4, 1), (2, 1)] mutable_antichain_new
   in ma_frontier ma' = [2] \<and> out = [(2, 1)] \<and> ma_ok timestamp_less_equal timestamp_cmp ma'"
proof -
  have run: "update_iter timestamp_less_equal timestamp_cmp [(4, 1), (2, 1)] mutable_antichain_new
    = ([(2, 1)], \<lparr>ma_updates = \<lparr>cb_updates = [(2, 1), (4, 1)], cb_clean = 2\<rparr>, ma_frontier = [2],
        ma_changes = change_batch_new\<rparr>)"
    by (simp add: update_iter_def mutable_antichain_new_def change_batch_new_def rebuild_needed_def
        rebuild_def update_def maintain_bounds_def compact_def drain_def less_than_def key_by_def
        slice_sort_def timestamp_less_equal_def timestamp_cmp_def Let_def)
  have "counts_fit timestamp_cmp (ma_updates mutable_antichain_new) [(4, 1), (2, 1)]"
    unfolding counts_fit_def
  proof (intro allI)
    fix n t
    show "in_i64 (sint (cb_count timestamp_cmp t (ma_updates mutable_antichain_new))
        + running t (take n [(4, 1), (2, 1)]))"
      using take_two [of n "(4 :: timestamp, 1 :: i64)" "(2, 1)"]
      by (auto simp: mutable_antichain_new_def change_batch_new_def in_i64_def i64_min_def i64_max_def)
  qed
  from mutable_antichain_exact [OF timestamp_times.sorted_times_axioms ma_ok_new this run] run
  show ?thesis by simp
qed

text \<open>C33. \<open>ChangeBatch::is_empty\<close> is exact for batches of nonzero updates, its shortcut included:
  it answers true exactly when every time has count zero.\<close>

theorem change_batch_is_empty_exact:
  assumes "sorted_times le cmp" and "cb_ok cmp b" and "cb_nonzero b"
  shows "fst (change_batch_is_empty cmp b) \<longleftrightarrow> (\<forall>t. cb_count cmp t b = 0)"
proof (cases "length (cb_updates b) div 2 < cb_clean b")
  case True
  then show ?thesis
    using sorted_times.mostly_clean [OF assms] by (auto simp: change_batch_is_empty_def)
next
  case False
  then show ?thesis
    using sorted_times.is_empty_compacted [OF assms] by (simp add: change_batch_is_empty_def Let_def)
qed

theorem change_batch_is_empty_exact_witness:
  "fst (change_batch_is_empty timestamp_cmp \<lparr>cb_updates = [(6, 2), (8, 1), (6, - 2), (8, - 1)], cb_clean = 2\<rparr>)
   \<longleftrightarrow> (\<forall>t. cb_count timestamp_cmp t \<lparr>cb_updates = [(6, 2), (8, 1), (6, - 2), (8, - 1)], cb_clean = 2\<rparr> = 0)"
proof (rule change_batch_is_empty_exact [OF timestamp_times.sorted_times_axioms])
  show "cb_ok timestamp_cmp \<lparr>cb_updates = [(6, 2), (8, 1), (6, - 2), (8, - 1)], cb_clean = 2\<rparr>"
    by (simp add: cb_ok_def strictly_sorted_def timestamp_cmp_def)
  show "cb_nonzero \<lparr>cb_updates = [(6, 2), (8, 1), (6, - 2), (8, - 1)], cb_clean = 2\<rparr>"
    by (simp add: cb_nonzero_def)
qed

text \<open>A batch whose only update is zero is never compacted, and so is not empty.\<close>

lemma zero_update_not_empty:
  "\<not> fst (change_batch_is_empty cmp (change_batch_new_from cmp t 0))"
  by (simp add: change_batch_is_empty_def change_batch_new_from_def change_batch_new_def update_def
      maintain_bounds_def compact_def)

text \<open>C35. \<open>Antichain::from\<close> of a vector of times, and so every sequence of insertions, holds exactly
  the minimal times of the vector, each once, and every time of the vector is beyond one of them.\<close>

theorem antichain_from_exact:
  assumes "time_order le"
  shows "set (antichain_from le vec) = minimals le (\<lambda>t. t \<in> set vec) \<and> distinct (antichain_from le vec)
   \<and> (\<forall>t. antichain_less_equal le (antichain_from le vec) t \<longleftrightarrow> (\<exists>s \<in> set vec. le s t))"
proof (intro conjI allI)
  note from_vec = time_order.antichain_from_minimals [OF assms, of vec]
  then show "set (antichain_from le vec) = minimals le (\<lambda>t. t \<in> set vec)" "distinct (antichain_from le vec)"
    by blast+
  then have sub: "set (antichain_from le vec) \<subseteq> set vec" by (auto simp: minimals_def)
  show "antichain_less_equal le (antichain_from le vec) t \<longleftrightarrow> (\<exists>s \<in> set vec. le s t)" for t
    unfolding antichain_less_equal_def list_ex_iff
    using from_vec sub time_order.le_trans [OF assms] by blast
qed

theorem antichain_from_exact_witness:
  "antichain_from timestamp_less_equal [6, 4, 8] = [4]
   \<and> (\<forall>t. antichain_less_equal timestamp_less_equal (antichain_from timestamp_less_equal [6, 4, 8]) t
      \<longleftrightarrow> (\<exists>s \<in> {6, 4, 8}. timestamp_less_equal s t))"
  using antichain_from_exact [OF timestamp_lattice.time_order_axioms, of "[6, 4, 8]"]
  by (simp add: antichain_from_def antichain_insert_def timestamp_less_equal_def)

end
