(* ===== verification/Snapshots.thy ===== *)
theory Snapshots
  imports Values Frontiers "HOL-Library.AList" "HOL-Library.Sublist"
begin

text \<open>
  Snapshots of input streams: connectors/offset.rs, persistence/frontier.rs, the frontiers of
  \<open>Reader::merge_two_frontiers\<close> in connectors/data\_storage.rs, and connectors/snapshot.rs.

  A directory of the file system and a prefix of an S3 bucket are association lists from names to
  contents. A hash map is an association list in the order of its iteration; the lemmas hold for
  every order. The binary format is the crate bincode, the argument \<open>B\<close>: what the code relies on
  is the locale \<open>bincode_crate\<close>, an encoding that can be decoded with anything behind it and whose
  proper prefixes end in \<open>UnexpectedEof\<close>. The unit of storage is the type variable \<open>'b\<close>.

  \<open>BufWriter\<close> passes a prefix of what it holds to the file whenever it chooses; how much is the
  argument \<open>spill\<close> of a write. The clock is an argument of the operations that read it.

  \<open>ReadSnapshotEvent\<close> is the locale \<open>snapshot_source\<close>, with \<open>truncating_source\<close> for the readers whose
  \<open>truncate\<close> does what the trait asks for. The first is interpreted on the local, the S3 and the mock
  reader, the second on the local and the S3 reader.
\<close>

section \<open>Offsets\<close>

datatype offset_key = OffsetKafka string i32 | OffsetKeyEmpty

datatype offset_value =
    KafkaOffset i64
  | FilePosition u64 string u64
  | S3ObjectPosition u64 string u64
  | PythonEntrySequentialId u64
  | OffsetValueEmpty

type_synonym offset_antichain = "(offset_key \<times> offset_value) list"

definition offset_antichain_new :: offset_antichain where
  "offset_antichain_new = []"

definition get_offset :: "offset_key \<Rightarrow> offset_antichain \<Rightarrow> offset_value option" where
  "get_offset k a = map_of a k"

definition advance_offset :: "offset_key \<Rightarrow> offset_value \<Rightarrow> offset_antichain \<Rightarrow> offset_antichain" where
  "advance_offset k v a = AList.update k v a"

fun merge_offset :: "offset_antichain \<Rightarrow> offset_key \<times> offset_value \<Rightarrow> offset_antichain" where
  "merge_offset acc (offset_key, other_value) =
     (case get_offset offset_key acc of
        Some offset_value \<Rightarrow>
          (case (offset_value, other_value) of
             (KafkaOffset offset_position, KafkaOffset other_position) \<Rightarrow>
               if sint offset_position < sint other_position
               then advance_offset offset_key other_value acc else acc
           | (PythonEntrySequentialId offset_position, PythonEntrySequentialId other_position) \<Rightarrow>
               if offset_position < other_position
               then advance_offset offset_key other_value acc else acc
           | (FilePosition offset_line_idx _ _, FilePosition other_line_idx _ _) \<Rightarrow>
               if offset_line_idx < other_line_idx
               then advance_offset offset_key other_value acc else acc
           | (S3ObjectPosition offset_line_idx _ _, S3ObjectPosition other_line_idx _ _) \<Rightarrow>
               if offset_line_idx < other_line_idx
               then advance_offset offset_key other_value acc else acc
           | (_, _) \<Rightarrow> acc)
      | None \<Rightarrow> advance_offset offset_key other_value acc)"

definition merge_two_frontiers :: "offset_antichain \<Rightarrow> offset_antichain \<Rightarrow> offset_antichain" where
  "merge_two_frontiers lhs rhs = foldl merge_offset lhs rhs"

section \<open>Events and their encoding\<close>

datatype event =
    EvInsert key "Value list"
  | EvDelete key "Value list"
  | EvUpsert key "Value list option"
  | EvAdvanceTime timestamp offset_antichain
  | EvFinished

datatype bincode_error = UnexpectedEof | BincodeIo | BincodeOther

datatype read_error = ReadIo | ReadBincode | ReadS3

datatype write_error = WriteIo | WriteBincode | WriteS3

record 'b bincode =
  bc_serialize :: "event \<Rightarrow> 'b list"
  bc_deserialize :: "'b list \<Rightarrow> (bincode_error, event \<times> 'b list) result"

type_synonym 'b dir = "(string \<times> 'b list) list"

section \<open>The local snapshot reader\<close>

text \<open>The open file is its content and the position of the reader in it.\<close>

record 'b local_reader =
  lr_dir :: "'b dir"
  lr_reader :: "('b list \<times> nat) option"
  lr_next :: nat
  lr_times :: "timestamp list"

definition parsed_times :: "string list \<Rightarrow> timestamp list" where
  "parsed_times names = sort (List.map_filter timestamp_from_str names)"

definition local_reader_new :: "'b dir option \<Rightarrow> (read_error, 'b local_reader) result" where
  "local_reader_new root = (case root of
       None \<Rightarrow> Err ReadIo
     | Some dir \<Rightarrow> Ok \<lparr>lr_dir = dir, lr_reader = None, lr_next = 0,
                      lr_times = parsed_times (map fst dir)\<rparr>)"

function local_read :: "'b bincode \<Rightarrow> 'b local_reader \<Rightarrow> (read_error, event) result \<times> 'b local_reader" where
  "local_read B r = (case lr_reader r of
       Some (content, pos) \<Rightarrow>
         (case bc_deserialize B (drop pos content) of
            Ok (entry, rest) \<Rightarrow> (Ok entry, r\<lparr>lr_reader := Some (content, length content - length rest)\<rparr>)
          | Err UnexpectedEof \<Rightarrow> local_read B (r\<lparr>lr_reader := None\<rparr>)
          | Err BincodeIo \<Rightarrow> (Err ReadIo, r)
          | Err BincodeOther \<Rightarrow> (Err ReadBincode, r)
          | Panic \<Rightarrow> (Panic, r))
     | None \<Rightarrow>
         if length (lr_times r) \<le> lr_next r then (Ok EvFinished, r)
         else (case map_of (lr_dir r) (timestamp_to_string (lr_times r ! lr_next r)) of
                 None \<Rightarrow> (Err ReadIo, r)
               | Some content \<Rightarrow>
                   local_read B (r\<lparr>lr_reader := Some (content, 0), lr_next := lr_next r + 1\<rparr>)))"
  by pat_completeness auto
termination
  by (relation "measure (\<lambda>(B, r). 2 * (length (lr_times r) - lr_next r)
        + (if lr_reader r = None then 0 else 1))") auto

fun remove_files :: "timestamp list \<Rightarrow> 'b dir \<Rightarrow> (read_error, unit) result \<times> 'b dir" where
  "remove_files [] dir = (Ok (), dir)"
| "remove_files (unreachable_part # parts) dir =
     (case map_of dir (timestamp_to_string unreachable_part) of
        None \<Rightarrow> (Err ReadIo, dir)
      | Some _ \<Rightarrow> remove_files parts (AList.delete (timestamp_to_string unreachable_part) dir))"

definition local_truncate :: "'b local_reader \<Rightarrow> (read_error, unit) result \<times> 'b local_reader" where
  "local_truncate r =
     (case lr_reader r of
        None \<Rightarrow>
          (case remove_files (drop (lr_next r) (lr_times r)) (lr_dir r) of
             (res, dir) \<Rightarrow> (res, r\<lparr>lr_dir := dir\<rparr>))
      | Some (_, stable_position) \<Rightarrow>
          let file_path = timestamp_to_string (lr_times r ! (lr_next r - 1))
          in (case map_of (lr_dir r) file_path of
                None \<Rightarrow> (Err ReadIo, r)
              | Some file \<Rightarrow>
                  (case remove_files (drop (lr_next r) (lr_times r))
                          (AList.update file_path (take stable_position file) (lr_dir r)) of
                     (res, dir) \<Rightarrow> (res, r\<lparr>lr_dir := dir\<rparr>))))"

section \<open>The local snapshot writer\<close>

text \<open>The lazy writer is the name of its file and what \<open>BufWriter\<close> has not passed on.\<close>

record 'b local_writer =
  lw_dir :: "'b dir"
  lw_lazy :: "(string \<times> 'b list) option"

definition local_writer_new :: "'b dir \<Rightarrow> 'b local_writer" where
  "local_writer_new dir = \<lparr>lw_dir = dir, lw_lazy = None\<rparr>"

definition append_file :: "string \<Rightarrow> 'b list \<Rightarrow> 'b dir \<Rightarrow> 'b dir" where
  "append_file name bs dir =
     AList.update name (case map_of dir name of Some old \<Rightarrow> old @ bs | None \<Rightarrow> bs) dir"

definition local_write ::
    "'b bincode \<Rightarrow> nat \<Rightarrow> nat \<Rightarrow> event \<Rightarrow> 'b local_writer \<Rightarrow> 'b local_writer" where
  "local_write B now spill event w =
     (case lw_lazy w of
        Some (name, buffer) \<Rightarrow>
          let buffer = buffer @ bc_serialize B event
          in w\<lparr>lw_dir := append_file name (take spill buffer) (lw_dir w),
               lw_lazy := Some (name, drop spill buffer)\<rparr>
      | None \<Rightarrow>
          let name = show_nat now;
              buffer = bc_serialize B event
          in w\<lparr>lw_dir := append_file name (take spill buffer) (AList.update name [] (lw_dir w)),
               lw_lazy := Some (name, drop spill buffer)\<rparr>)"

definition local_flush :: "'b local_writer \<Rightarrow> 'b local_writer" where
  "local_flush w =
     (case lw_lazy w of
        Some (name, buffer) \<Rightarrow>
          w\<lparr>lw_dir := append_file name buffer (lw_dir w), lw_lazy := Some (name, [])\<rparr>
      | None \<Rightarrow> w)"

section \<open>S3 uploads\<close>

text \<open>The S3 service, an external system: whether an upload is opened, whether a part is accepted,
  the bucket after an upload is completed or an object deleted (None is an error response), and a
  download, the bytes that arrive and whether the loader thread reports success.\<close>

record 'b s3_service =
  s3_initiate :: "string \<Rightarrow> bool"
  s3_put_part :: "string \<Rightarrow> nat \<Rightarrow> 'b list \<Rightarrow> bool"
  s3_complete :: "string \<Rightarrow> 'b list list \<Rightarrow> 'b dir \<Rightarrow> 'b dir option"
  s3_delete :: "string \<Rightarrow> 'b dir \<Rightarrow> 'b dir option"
  s3_fetch :: "'b dir \<Rightarrow> string \<Rightarrow> 'b list \<times> bool"

record 'b s3_writer =
  s3w_key :: string
  s3w_parts :: "'b list list"

definition MAX_CHUNK_LEN :: nat where
  "MAX_CHUNK_LEN = 1000000"

definition s3_writer_new :: "'b s3_service \<Rightarrow> string \<Rightarrow> (read_error, 'b s3_writer) result" where
  "s3_writer_new S path = (if s3_initiate S path then Ok \<lparr>s3w_key = path, s3w_parts = []\<rparr> else Err ReadS3)"

definition put_chunk ::
    "'b bincode \<Rightarrow> 'b s3_service \<Rightarrow> event list \<Rightarrow> 'b s3_writer \<Rightarrow> (read_error, 'b s3_writer) result" where
  "put_chunk B S buffer w =
     (let chunk = concat (map (bc_serialize B) buffer)
      in if 2 ^ 32 \<le> length (s3w_parts w) then Panic
         else if s3_put_part S (s3w_key w) (length (s3w_parts w) + 1) chunk
         then Ok (w\<lparr>s3w_parts := s3w_parts w @ [chunk]\<rparr>) else Err ReadS3)"

definition s3_finalize :: "'b s3_service \<Rightarrow> 'b s3_writer \<Rightarrow> 'b dir \<Rightarrow> (read_error, 'b dir) result" where
  "s3_finalize S w bucket = ok_or ReadS3 (s3_complete S (s3w_key w) (s3w_parts w) bucket)"

section \<open>The S3 snapshot reader\<close>

record 'b s3_reader =
  sx_bucket :: "'b dir"
  sx_root :: string
  sx_reader :: "'b list option"
  sx_next :: nat
  sx_times :: "timestamp list"
  sx_state :: "bool option"
  sx_chunk_len :: nat

definition path_file_name :: "string \<Rightarrow> string option" where
  "path_file_name path =
     (case rev (filter (\<lambda>c. c \<noteq> [] \<and> c \<noteq> ''.'') (split_on (CHR ''/'') path)) of
        [] \<Rightarrow> None
      | c # _ \<Rightarrow> if c = ''..'' then None else Some c)"

definition object_key :: "string \<Rightarrow> string \<Rightarrow> string" where
  "object_key root name = root @ ''/'' @ name"

definition s3_reader_new :: "'b dir \<Rightarrow> string \<Rightarrow> 'b s3_reader" where
  "s3_reader_new bucket path =
     \<lparr>sx_bucket = bucket, sx_root = path, sx_reader = None, sx_next = 0,
      sx_times = parsed_times (List.map_filter path_file_name (filter (prefix path) (map fst bucket))),
      sx_state = None, sx_chunk_len = 0\<rparr>"

function s3_read ::
    "'b bincode \<Rightarrow> 'b s3_service \<Rightarrow> 'b s3_reader \<Rightarrow> (read_error, event) result \<times> 'b s3_reader" where
  "s3_read B S r = (case sx_reader r of
       Some bs \<Rightarrow>
         (case bc_deserialize B bs of
            Ok (entry, rest) \<Rightarrow> (Ok entry, r\<lparr>sx_reader := Some rest, sx_chunk_len := sx_chunk_len r + 1\<rparr>)
          | Err UnexpectedEof \<Rightarrow> s3_read B S (r\<lparr>sx_reader := None\<rparr>)
          | Err BincodeIo \<Rightarrow> (Err ReadIo, r)
          | Err BincodeOther \<Rightarrow> (Err ReadBincode, r)
          | Panic \<Rightarrow> (Panic, r))
     | None \<Rightarrow>
         if length (sx_times r) \<le> sx_next r then (Ok EvFinished, r)
         else (case s3_fetch S (sx_bucket r)
                      (object_key (sx_root r) (timestamp_to_string (sx_times r ! sx_next r))) of
                 (bs, loaded) \<Rightarrow>
                   if sx_state r = Some False then (Err ReadS3, r\<lparr>sx_state := None\<rparr>)
                   else s3_read B S (r\<lparr>sx_reader := Some bs, sx_next := sx_next r + 1,
                          sx_state := Some loaded, sx_chunk_len := 0\<rparr>)))"
  by pat_completeness auto
termination
  by (relation "measure (\<lambda>(B, S, r). 2 * (length (sx_times r) - sx_next r)
        + (if sx_reader r = None then 0 else 1))") auto

fun copy_entries ::
    "'b bincode \<Rightarrow> 'b s3_service \<Rightarrow> nat \<Rightarrow> 'b list \<Rightarrow> event list \<Rightarrow> 'b s3_writer
      \<Rightarrow> (read_error, 'b s3_writer) result" where
  "copy_entries B S 0 bs current_chunk w =
     (if current_chunk \<noteq> [] then put_chunk B S current_chunk w else Ok w)"
| "copy_entries B S (Suc n) bs current_chunk w =
     (case bc_deserialize B bs of
        Ok (entry, rest) \<Rightarrow>
          let current_chunk = current_chunk @ [entry]
          in if length current_chunk = MAX_CHUNK_LEN
             then and_then (put_chunk B S current_chunk w) (copy_entries B S n rest [])
             else copy_entries B S n rest current_chunk w
      | _ \<Rightarrow> copy_entries B S 0 bs current_chunk w)"

fun delete_objects ::
    "'b s3_service \<Rightarrow> string \<Rightarrow> timestamp list \<Rightarrow> 'b dir \<Rightarrow> (read_error, unit) result \<times> 'b dir" where
  "delete_objects S root [] bucket = (Ok (), bucket)"
| "delete_objects S root (unreachable_part # parts) bucket =
     (case s3_delete S (object_key root (timestamp_to_string unreachable_part)) bucket of
        None \<Rightarrow> (Err ReadS3, bucket)
      | Some bucket \<Rightarrow> delete_objects S root parts bucket)"

text \<open>The copy of the entries read so far from the current object, made by \<open>truncate\<close>.\<close>

definition save_chunk ::
    "'b bincode \<Rightarrow> 'b s3_service \<Rightarrow> nat \<Rightarrow> 'b s3_reader \<Rightarrow> (read_error, 'b dir) result" where
  "save_chunk B S now r =
     (if 0 < sx_next r \<and> 0 < sx_chunk_len r then
        let object_for_truncation =
              object_key (sx_root r) (timestamp_to_string (sx_times r ! (sx_next r - 1)));
            object_after_truncation = object_key (sx_root r) (show_nat now);
            (bs, loaded) = s3_fetch S (sx_bucket r) object_for_truncation
        in and_then (s3_writer_new S object_after_truncation) (\<lambda>w.
           and_then (copy_entries B S (sx_chunk_len r) bs [] w) (\<lambda>w.
           s3_finalize S w (sx_bucket r)))
      else Ok (sx_bucket r))"

definition s3_truncate ::
    "'b bincode \<Rightarrow> 'b s3_service \<Rightarrow> nat \<Rightarrow> 'b s3_reader \<Rightarrow> (read_error, unit) result \<times> 'b s3_reader" where
  "s3_truncate B S now r =
     (case save_chunk B S now r of
        Ok bucket \<Rightarrow>
          (case delete_objects S (sx_root r) (drop (sx_next r - 1) (sx_times r)) bucket of
             (res, bucket) \<Rightarrow> (res, r\<lparr>sx_bucket := bucket\<rparr>))
      | Err e \<Rightarrow> (Err e, r)
      | Panic \<Rightarrow> (Panic, r))"

section \<open>The S3 snapshot writer\<close>

text \<open>The writer hands chunks to an uploader thread through a queue. The thread is \<open>uploader_step\<close>,
  one message at a time, with the clock it reads; it is None once it has ended or panicked. The
  results sent back by flushes are collected in order.\<close>

datatype s3_message = MsgChunk "event list" | MsgFlush | MsgFinish

record 'b s3_snapshot_writer =
  sw_bucket :: "'b dir"
  sw_root :: string
  sw_chunk :: "event list"
  sw_queue :: "s3_message list"
  sw_uploader :: "'b s3_writer option"
  sw_flushed :: "bool list"

definition s3_snapshot_writer_new ::
    "'b s3_service \<Rightarrow> nat \<Rightarrow> 'b dir \<Rightarrow> string \<Rightarrow> 'b s3_snapshot_writer" where
  "s3_snapshot_writer_new S now bucket path =
     \<lparr>sw_bucket = bucket, sw_root = path, sw_chunk = [], sw_queue = [],
      sw_uploader = (case s3_writer_new S (object_key path (show_nat now)) of Ok w \<Rightarrow> Some w | _ \<Rightarrow> None),
      sw_flushed = []\<rparr>"

definition s3_write :: "event \<Rightarrow> 'b s3_snapshot_writer \<Rightarrow> 'b s3_snapshot_writer" where
  "s3_write event w =
     (let chunk = sw_chunk w @ [event]
      in if length chunk = MAX_CHUNK_LEN
         then w\<lparr>sw_chunk := [], sw_queue := sw_queue w @ [MsgChunk chunk]\<rparr>
         else w\<lparr>sw_chunk := chunk\<rparr>)"

definition s3_flush :: "'b s3_snapshot_writer \<Rightarrow> 'b s3_snapshot_writer" where
  "s3_flush w =
     (let w = (if sw_chunk w \<noteq> []
               then w\<lparr>sw_chunk := [], sw_queue := sw_queue w @ [MsgChunk (sw_chunk w)]\<rparr> else w)
      in w\<lparr>sw_queue := sw_queue w @ [MsgFlush]\<rparr>)"

definition uploader_step ::
    "'b bincode \<Rightarrow> 'b s3_service \<Rightarrow> nat \<Rightarrow> 'b s3_snapshot_writer \<Rightarrow> 'b s3_snapshot_writer" where
  "uploader_step B S now w =
     (case (sw_uploader w, sw_queue w) of
        (Some s3_writer, MsgChunk chunk # queue) \<Rightarrow>
          w\<lparr>sw_queue := queue,
            sw_uploader := (case put_chunk B S chunk s3_writer of Ok u \<Rightarrow> Some u | _ \<Rightarrow> None)\<rparr>
      | (Some s3_writer, MsgFlush # queue) \<Rightarrow>
          let (flush_result, bucket) = (case s3_finalize S s3_writer (sw_bucket w) of
                Ok bucket \<Rightarrow> (True, bucket) | _ \<Rightarrow> (False, sw_bucket w))
          in (case s3_writer_new S (object_key (sw_root w) (show_nat now)) of
                Ok u \<Rightarrow> w\<lparr>sw_queue := queue, sw_bucket := bucket, sw_uploader := Some u,
                          sw_flushed := sw_flushed w @ [flush_result]\<rparr>
              | _ \<Rightarrow> w\<lparr>sw_queue := queue, sw_bucket := bucket, sw_uploader := None\<rparr>)
      | (Some s3_writer, MsgFinish # queue) \<Rightarrow> w\<lparr>sw_queue := queue, sw_uploader := None\<rparr>
      | _ \<Rightarrow> w)"

section \<open>The mock reader\<close>

definition mock_read :: "event list \<Rightarrow> (read_error, event) result \<times> event list" where
  "mock_read events = (case events of event # events \<Rightarrow> (Ok event, events) | [] \<Rightarrow> (Ok EvFinished, []))"

section \<open>The snapshot reader\<close>

record 'r snapshot_impl =
  si_read :: "'r \<Rightarrow> (read_error, event) result \<times> 'r"
  si_truncate :: "'r \<Rightarrow> (read_error, unit) result \<times> 'r"
  si_check_threshold :: bool

definition local_impl :: "'b bincode \<Rightarrow> 'b local_reader snapshot_impl" where
  "local_impl B = \<lparr>si_read = local_read B, si_truncate = local_truncate, si_check_threshold = True\<rparr>"

definition s3_impl :: "'b bincode \<Rightarrow> 'b s3_service \<Rightarrow> nat \<Rightarrow> 'b s3_reader snapshot_impl" where
  "s3_impl B S now =
     \<lparr>si_read = s3_read B S, si_truncate = s3_truncate B S now, si_check_threshold = True\<rparr>"

definition mock_impl :: "event list snapshot_impl" where
  "mock_impl = \<lparr>si_read = mock_read, si_truncate = (\<lambda>r. (Ok (), r)), si_check_threshold = False\<rparr>"

record 'r snapshot_reader =
  sr_impl :: 'r
  sr_threshold_time :: "timestamp total_frontier"
  sr_entries_read :: nat
  sr_last_frontier :: offset_antichain
  sr_truncate_at_end :: bool

definition snapshot_reader_new ::
    "'r snapshot_impl \<Rightarrow> 'r \<Rightarrow> timestamp total_frontier \<Rightarrow> bool
      \<Rightarrow> (read_error, 'r snapshot_reader) result \<times> 'r" where
  "snapshot_reader_new I reader_impl threshold_time truncate_at_end =
     (let (truncated, reader_impl) =
        (if threshold_time = At 0 \<and> truncate_at_end then si_truncate I reader_impl
         else (Ok (), reader_impl))
      in (map_ok (\<lambda>_. \<lparr>sr_impl = reader_impl, sr_threshold_time = threshold_time, sr_entries_read = 0,
                       sr_last_frontier = offset_antichain_new, sr_truncate_at_end = truncate_at_end\<rparr>)
            truncated, reader_impl))"

definition snapshot_read ::
    "'r snapshot_impl \<Rightarrow> 'r snapshot_reader \<Rightarrow> (read_error, event) result \<times> 'r snapshot_reader" where
  "snapshot_read I s =
     (case si_read I (sr_impl s) of
        (Ok EvFinished, r) \<Rightarrow> (Ok EvFinished, s\<lparr>sr_impl := r\<rparr>)
      | (Ok (EvAdvanceTime new_time frontier), r) \<Rightarrow>
          let read_finished = sr_threshold_time s \<le> At new_time;
              s = s\<lparr>sr_impl := r, sr_last_frontier := frontier\<rparr>
          in if si_check_threshold I \<and> read_finished
             then if sr_truncate_at_end s
                  then (case si_truncate I r of
                          (Ok _, r) \<Rightarrow> (Ok EvFinished, s\<lparr>sr_impl := r\<rparr>)
                        | (Err e, r) \<Rightarrow> (Err e, s\<lparr>sr_impl := r\<rparr>)
                        | (Panic, r) \<Rightarrow> (Panic, s\<lparr>sr_impl := r\<rparr>))
                  else (Ok EvFinished, s)
             else (Ok (EvAdvanceTime new_time frontier), s\<lparr>sr_entries_read := sr_entries_read s + 1\<rparr>)
      | (Ok event, r) \<Rightarrow> (Ok event, s\<lparr>sr_impl := r, sr_entries_read := sr_entries_read s + 1\<rparr>)
      | (Err e, r) \<Rightarrow> (Err e, s\<lparr>sr_impl := r\<rparr>)
      | (Panic, r) \<Rightarrow> (Panic, s\<lparr>sr_impl := r\<rparr>))"

declare local_read.simps [simp del] and s3_read.simps [simp del]

section \<open>The contract of the encoding\<close>

text \<open>All events that can be decoded from the front, and contents that end in a torn entry, as a
  crash of the writer leaves them.\<close>

function decode_all :: "'b bincode \<Rightarrow> 'b list \<Rightarrow> event list" where
  "decode_all B bs =
     (case bc_deserialize B bs of
        Ok (e, rest) \<Rightarrow> if length rest < length bs then e # decode_all B rest else []
      | _ \<Rightarrow> [])"
  by pat_completeness auto
termination
  by (relation "measure (\<lambda>(B, bs). length bs)") auto

declare decode_all.simps [simp del]

definition encode_all :: "'b bincode \<Rightarrow> event list \<Rightarrow> 'b list" where
  "encode_all B es = concat (map (bc_serialize B) es)"

definition torn :: "'b bincode \<Rightarrow> 'b list \<Rightarrow> bool" where
  "torn B bs \<longleftrightarrow> bs = [] \<or> (\<exists>e. strict_prefix bs (bc_serialize B e))"

definition readable :: "'b bincode \<Rightarrow> 'b list \<Rightarrow> bool" where
  "readable B bs \<longleftrightarrow> (\<exists>es tail. bs = encode_all B es @ tail \<and> torn B tail)"

lemma encode_all_simps [simp]:
  "encode_all B [] = []" "encode_all B (e # es) = bc_serialize B e @ encode_all B es"
  "encode_all B (es @ fs) = encode_all B es @ encode_all B fs"
  by (simp_all add: encode_all_def)

locale bincode_crate =
  fixes B :: "'b bincode"
  assumes roundtrip: "bc_deserialize B (bc_serialize B e @ rest) = Ok (e, rest)"
    and truncated: "strict_prefix bs (bc_serialize B e) \<Longrightarrow> bc_deserialize B bs = Err UnexpectedEof"
begin

lemma deserialize_Nil: "bc_deserialize B [] = Err UnexpectedEof"
proof (cases "bc_serialize B EvFinished = []")
  case True
  then have "bc_serialize B (EvInsert 0 []) \<noteq> []"
    using roundtrip [of EvFinished "[]"] roundtrip [of "EvInsert 0 []" "[]"] by auto
  then show ?thesis using truncated [of "[]" "EvInsert 0 []"] by (auto simp: strict_prefix_def)
next
  case False
  then show ?thesis using truncated [of "[]" EvFinished] by (auto simp: strict_prefix_def)
qed

lemma serialize_nonempty: "bc_serialize B e \<noteq> []"
  using roundtrip [of e "[]"] deserialize_Nil by auto

lemma decode_torn: "torn B bs \<Longrightarrow> bc_deserialize B bs = Err UnexpectedEof"
  by (auto simp: torn_def deserialize_Nil truncated)

lemma decode_all_torn [simp]: "torn B bs \<Longrightarrow> decode_all B bs = []"
  by (subst decode_all.simps) (simp add: decode_torn)

lemma decode_all_serialize [simp]: "decode_all B (bc_serialize B e @ bs) = e # decode_all B bs"
  using serialize_nonempty [of e] by (subst decode_all.simps) (simp add: roundtrip)

lemma decode_encode_append: "decode_all B (encode_all B es @ bs) = es @ decode_all B bs"
  by (induction es) simp_all

lemma torn_Nil [simp]: "torn B []"
  by (simp add: torn_def)

lemma decode_encode [simp]: "decode_all B (encode_all B es) = es"
  using decode_encode_append [of es "[]"] by simp

text \<open>The roundtrip for torn contents, and the two ways in which readable contents go on.\<close>

lemma readable_cases:
  assumes "readable B bs"
  obtains (torn) "torn B bs" "decode_all B bs = []"
    | (entry) e rest where "bs = bc_serialize B e @ rest" "readable B rest"
        "decode_all B bs = e # decode_all B rest"
proof -
  obtain es tail where bs: "bs = encode_all B es @ tail" "torn B tail" using assms by (auto simp: readable_def)
  show thesis
  proof (cases es)
    case Nil
    with bs torn show ?thesis by simp
  next
    case (Cons e es')
    moreover from bs(2) have "readable B (encode_all B es' @ tail)" by (auto simp: readable_def)
    ultimately show ?thesis using bs entry [of e "encode_all B es' @ tail"] by simp
  qed
qed

lemma readable_encode: "torn B tail \<Longrightarrow> readable B (encode_all B es @ tail)"
  by (auto simp: readable_def)

text \<open>Whatever prefix of an encoding a crash leaves is readable, and gives a prefix of the events.\<close>

lemma prefix_readable:
  assumes "prefix bs (encode_all B es)"
  shows "readable B bs \<and> prefix (decode_all B bs) es"
  using assms
proof (induction es arbitrary: bs)
  case Nil
  then show ?case using readable_encode [of "[]" "[]"] by simp
next
  case (Cons e es)
  show ?case
  proof (cases "prefix (bc_serialize B e) bs")
    case True
    then obtain rest where rest: "bs = bc_serialize B e @ rest" by (auto simp: prefix_def)
    with Cons.prems have "prefix rest (encode_all B es)" by simp
    with Cons.IH have IH: "readable B rest" "prefix (decode_all B rest) es" by blast+
    then obtain fs tail where "rest = encode_all B (fs) @ tail" "torn B tail" by (auto simp: readable_def)
    then have "readable B bs" using readable_encode [of tail "e # fs"] rest by simp
    with IH rest show ?thesis by simp
  next
    case False
    then have "strict_prefix bs (bc_serialize B e)"
      using Cons.prems prefix_same_cases [of bs "encode_all B (e # es)" "bc_serialize B e"]
      by (auto simp: strict_prefix_def)
    then have "torn B bs" by (auto simp: torn_def)
    then show ?thesis using readable_encode [of bs "[]"] by simp
  qed
qed

end

text \<open>One storage unit per event is an encoding of this kind.\<close>

definition unit_bincode :: "event bincode" where
  "unit_bincode = \<lparr>bc_serialize = (\<lambda>e. [e]),
     bc_deserialize = (\<lambda>bs. case bs of e # rest \<Rightarrow> Ok (e, rest) | [] \<Rightarrow> Err UnexpectedEof)\<rparr>"

interpretation unit_bincode: bincode_crate unit_bincode
  by unfold_locales (auto simp: unit_bincode_def strict_prefix_def prefix_Cons)

section \<open>The contract of a snapshot reader\<close>

text \<open>A source hands out its remaining events one by one and then \<open>Finished\<close>, for ever.\<close>

locale snapshot_source =
  fixes I :: "'r snapshot_impl" and ok :: "'r \<Rightarrow> bool" and remaining :: "'r \<Rightarrow> event list"
  assumes read: "ok r \<Longrightarrow> \<exists>r'. si_read I r = (Ok (case remaining r of [] \<Rightarrow> EvFinished | e # _ \<Rightarrow> e), r')
    \<and> ok r' \<and> remaining r' = tl (remaining r)"

text \<open>Truncation leaves in the storage exactly the events handed out. A storage that is \<open>good\<close> holds
  the \<open>stored\<close> events; a reader can be opened on it when it \<open>fits\<close>, a condition on the clock and on
  sizes.\<close>

locale truncating_source = snapshot_source I ok remaining
  for I :: "'r snapshot_impl" and ok remaining +
  fixes consumed :: "'r \<Rightarrow> event list" and storage :: "'r \<Rightarrow> 's" and good :: "'s \<Rightarrow> bool" and fits :: "'s \<Rightarrow> bool" and stored :: "'s \<Rightarrow> event list"
    and open_reader :: "'s \<Rightarrow> 'r"
  assumes opened: "good s \<Longrightarrow> fits s \<Longrightarrow> ok (open_reader s) \<and> storage (open_reader s) = s
      \<and> consumed (open_reader s) = [] \<and> remaining (open_reader s) = stored s"
    and read_storage: "ok r \<Longrightarrow> storage (snd (si_read I r)) = storage r"
    and read_consumed: "ok r \<Longrightarrow> consumed (snd (si_read I r)) = consumed r @ take 1 (remaining r)"
    and stored_split: "ok r \<Longrightarrow> good (storage r) \<and> stored (storage r) = consumed r @ remaining r"
    and truncate: "ok r \<Longrightarrow> \<exists>r'. si_truncate I r = (Ok (), r') \<and> good (storage r')
      \<and> stored (storage r') = consumed r"
    and checks: "si_check_threshold I"

interpretation mock: snapshot_source mock_impl "\<lambda>_. True" "\<lambda>events. events"
  by unfold_locales (auto simp: mock_impl_def mock_read_def split: list.splits)

section \<open>The local reader keeps the contract\<close>

text \<open>Names are timestamps, each once, and every file is readable.\<close>

definition dir_ok :: "'b bincode \<Rightarrow> 'b dir \<Rightarrow> bool" where
  "dir_ok B dir \<longleftrightarrow> (\<exists>ts. map fst dir = map timestamp_to_string ts \<and> distinct ts)
     \<and> (\<forall>f \<in> set dir. readable B (snd f))"

definition file_events :: "'b bincode \<Rightarrow> 'b dir \<Rightarrow> timestamp \<Rightarrow> event list" where
  "file_events B dir t =
     (case map_of dir (timestamp_to_string t) of Some c \<Rightarrow> decode_all B c | None \<Rightarrow> [])"

definition dir_events :: "'b bincode \<Rightarrow> 'b dir \<Rightarrow> event list" where
  "dir_events B dir = concat (map (file_events B dir) (parsed_times (map fst dir)))"

definition local_ok :: "'b bincode \<Rightarrow> 'b local_reader \<Rightarrow> bool" where
  "local_ok B r \<longleftrightarrow> dir_ok B (lr_dir r) \<and> lr_times r = parsed_times (map fst (lr_dir r))
     \<and> lr_next r \<le> length (lr_times r)
     \<and> (case lr_reader r of None \<Rightarrow> True | Some (c, pos) \<Rightarrow>
          0 < lr_next r \<and> map_of (lr_dir r) (timestamp_to_string (lr_times r ! (lr_next r - 1))) = Some c
          \<and> pos \<le> length c \<and> (\<exists>es. take pos c = encode_all B es) \<and> readable B (drop pos c))"

definition local_remaining :: "'b bincode \<Rightarrow> 'b local_reader \<Rightarrow> event list" where
  "local_remaining B r =
     (case lr_reader r of Some (c, pos) \<Rightarrow> decode_all B (drop pos c) | None \<Rightarrow> [])
     @ concat (map (file_events B (lr_dir r)) (drop (lr_next r) (lr_times r)))"

definition local_consumed :: "'b bincode \<Rightarrow> 'b local_reader \<Rightarrow> event list" where
  "local_consumed B r =
     (case lr_reader r of
        Some (c, pos) \<Rightarrow> concat (map (file_events B (lr_dir r)) (take (lr_next r - 1) (lr_times r)))
          @ decode_all B (take pos c)
      | None \<Rightarrow> concat (map (file_events B (lr_dir r)) (take (lr_next r) (lr_times r))))"

definition local_open :: "'b dir \<Rightarrow> 'b local_reader" where
  "local_open dir = \<lparr>lr_dir = dir, lr_reader = None, lr_next = 0, lr_times = parsed_times (map fst dir)\<rparr>"

text \<open>What a writer has made of its directory. The file holds a prefix of the encoding of the events
  written, and the rest is in the buffer.\<close>

definition written :: "'b bincode \<Rightarrow> 'b dir \<Rightarrow> nat \<Rightarrow> event list \<Rightarrow> 'b local_writer \<Rightarrow> bool" where
  "written B dir t0 es w \<longleftrightarrow>
     (case lw_lazy w of
        None \<Rightarrow> es = [] \<and> lw_dir w = dir
      | Some (name, buffer) \<Rightarrow> name = show_nat t0
          \<and> (\<exists>c. lw_dir w = AList.update name c dir \<and> c @ buffer = encode_all B es))"

lemma local_reader_new_open: "local_reader_new (Some dir) = Ok (local_open dir)"
  by (simp add: local_reader_new_def local_open_def)

lemma to_string_inject [simp]: "timestamp_to_string s = timestamp_to_string t \<longleftrightarrow> s = t"
  using timestamp_string_roundtrip by (metis option.inject)

lemma parsed_times_strings [simp]: "parsed_times (map timestamp_to_string ts) = sort ts"
  by (induction ts) (auto simp: parsed_times_def List.map_filter_def timestamp_string_roundtrip)

lemma dir_ok_times:
  assumes "dir_ok B dir"
  shows "distinct (parsed_times (map fst dir))"
    and "t \<in> set (parsed_times (map fst dir)) \<longleftrightarrow> timestamp_to_string t \<in> fst ` set dir"
proof -
  obtain ts where ts: "map fst dir = map timestamp_to_string ts" "distinct ts"
    using assms by (auto simp: dir_ok_def)
  then show "distinct (parsed_times (map fst dir))" by simp
  have "fst ` set dir = timestamp_to_string ` set ts" using arg_cong [OF ts(1), of set] by simp
  then show "t \<in> set (parsed_times (map fst dir)) \<longleftrightarrow> timestamp_to_string t \<in> fst ` set dir"
    using ts(1) by auto
qed

lemma map_of_filter_key: "map_of (filter (\<lambda>p. P (fst p)) xs) k = (if P k then map_of xs k else None)"
  by (induction xs) auto

lemma set_update_subset: "set (AList.update k v al) \<subseteq> insert (k, v) (set al)"
  by (induction al) auto

lemma sort_filter_distinct:
  assumes "distinct xs"
  shows "filter (\<lambda>x. x \<notin> set (drop n xs)) xs = take n xs"
proof -
  have "filter (\<lambda>x. x \<notin> set (drop n xs)) (take n xs @ drop n xs) = take n xs"
    using set_take_disj_set_drop_if_distinct [OF assms, of n n]
    by (auto simp: filter_append filter_id_conv filter_empty_conv simp del: append_take_drop_id)
  then show ?thesis by simp
qed

lemma remove_files_ok:
  assumes "distinct parts" and "\<forall>t \<in> set parts. timestamp_to_string t \<in> fst ` set dir"
  shows "remove_files parts dir = (Ok (), filter (\<lambda>p. fst p \<notin> timestamp_to_string ` set parts) dir)"
  using assms
proof (induction parts arbitrary: dir)
  case (Cons t parts)
  let ?n = "timestamp_to_string t"
  from Cons.prems obtain c where c: "map_of dir ?n = Some c"
    by (metis domD dom_map_of_conv_image_fst list.set_intros(1))
  have "fst ` set (AList.delete ?n dir) = fst ` set dir - {?n}" by (auto simp: AList.delete_eq image_iff)
  then have "\<forall>u \<in> set parts. timestamp_to_string u \<in> fst ` set (AList.delete ?n dir)"
    using Cons.prems by auto
  with Cons.IH [of "AList.delete ?n dir"] Cons.prems(1) c show ?case
    by (auto simp: AList.delete_eq intro!: filter_cong)
qed simp

context bincode_crate begin

lemma file_present:
  assumes "dir_ok B dir" and "t \<in> set (parsed_times (map fst dir))"
  obtains c where "map_of dir (timestamp_to_string t) = Some c" "readable B c"
    "file_events B dir t = decode_all B c"
proof -
  have "timestamp_to_string t \<in> fst ` set dir" using assms dir_ok_times(2) by blast
  then obtain c where c: "map_of dir (timestamp_to_string t) = Some c"
    by (metis domD dom_map_of_conv_image_fst)
  then have "(timestamp_to_string t, c) \<in> set dir" by (rule map_of_SomeD)
  with assms(1) have "readable B c" by (auto simp: dir_ok_def)
  with c that show thesis by (simp add: file_events_def)
qed

lemma local_close:
  assumes ok: "local_ok B r" and r: "lr_reader r = Some (c, pos)" and torn: "torn B (drop pos c)"
  shows "local_read B r = local_read B (r\<lparr>lr_reader := None\<rparr>)"
    and "local_ok B (r\<lparr>lr_reader := None\<rparr>)"
    and "local_remaining B (r\<lparr>lr_reader := None\<rparr>) = local_remaining B r"
    and "local_consumed B (r\<lparr>lr_reader := None\<rparr>) = local_consumed B r"
proof -
  obtain n where n: "lr_next r = Suc n" using ok r by (cases "lr_next r") (auto simp: local_ok_def)
  obtain es where es: "take pos c = encode_all B es" using ok r by (auto simp: local_ok_def)
  have "decode_all B c = decode_all B (take pos c)"
    using decode_encode_append [of es "drop pos c"] torn es by (metis append.right_neutral append_take_drop_id
        decode_all_torn decode_encode)
  moreover have "n < length (lr_times r)" "map_of (lr_dir r) (timestamp_to_string (lr_times r ! n)) = Some c"
    using ok r n by (auto simp: local_ok_def)
  ultimately show "local_consumed B (r\<lparr>lr_reader := None\<rparr>) = local_consumed B r"
    using r n by (simp add: local_consumed_def file_events_def take_Suc_conv_app_nth)
  show "local_read B r = local_read B (r\<lparr>lr_reader := None\<rparr>)"
    by (subst local_read.simps) (simp add: r decode_torn [OF torn])
qed (use assms in \<open>auto simp: local_ok_def local_remaining_def\<close>)

lemma local_open_next:
  assumes ok: "local_ok B r" and r: "lr_reader r = None" "lr_next r < length (lr_times r)"
  obtains c where "local_read B r = local_read B (r\<lparr>lr_reader := Some (c, 0), lr_next := lr_next r + 1\<rparr>)"
    and "local_ok B (r\<lparr>lr_reader := Some (c, 0), lr_next := lr_next r + 1\<rparr>)"
    and "local_remaining B (r\<lparr>lr_reader := Some (c, 0), lr_next := lr_next r + 1\<rparr>) = local_remaining B r"
    and "local_consumed B (r\<lparr>lr_reader := Some (c, 0), lr_next := lr_next r + 1\<rparr>) = local_consumed B r"
proof -
  have ok': "dir_ok B (lr_dir r)" "lr_times r = parsed_times (map fst (lr_dir r))"
    using ok by (auto simp: local_ok_def)
  with r have "lr_times r ! lr_next r \<in> set (parsed_times (map fst (lr_dir r)))" by (metis nth_mem)
  from file_present [OF ok'(1) this] obtain c where
    c: "map_of (lr_dir r) (timestamp_to_string (lr_times r ! lr_next r)) = Some c" "readable B c"
      "file_events B (lr_dir r) (lr_times r ! lr_next r) = decode_all B c" by blast
  show thesis
  proof (rule that [of c])
    show "local_read B r = local_read B (r\<lparr>lr_reader := Some (c, 0), lr_next := lr_next r + 1\<rparr>)"
      by (subst local_read.simps) (use r c in simp)
    show "local_ok B (r\<lparr>lr_reader := Some (c, 0), lr_next := lr_next r + 1\<rparr>)"
      using ok r c by (auto simp: local_ok_def intro: exI [of _ "[]"])
    show "local_remaining B (r\<lparr>lr_reader := Some (c, 0), lr_next := lr_next r + 1\<rparr>) = local_remaining B r"
      using r c by (simp add: local_remaining_def Cons_nth_drop_Suc [symmetric])
    show "local_consumed B (r\<lparr>lr_reader := Some (c, 0), lr_next := lr_next r + 1\<rparr>) = local_consumed B r"
      using r by (simp add: local_consumed_def)
  qed
qed

lemma local_entry:
  assumes ok: "local_ok B r" and r: "lr_reader r = Some (c, pos)"
    and e: "drop pos c = bc_serialize B e @ rest" and rest: "readable B rest"
  shows "let r' = r\<lparr>lr_reader := Some (c, length c - length rest)\<rparr> in
    local_read B r = (Ok e, r') \<and> local_ok B r' \<and> local_remaining B r = e # local_remaining B r'
    \<and> local_consumed B r' = local_consumed B r @ [e]"
proof -
  let ?p = "length c - length rest"
  obtain es where es: "take pos c = encode_all B es" "pos \<le> length c" using ok r by (auto simp: local_ok_def)
  have c: "c = (encode_all B es @ bc_serialize B e) @ rest" using es(1) e by (metis append.assoc append_take_drop_id)
  then have p: "take ?p c = encode_all B (es @ [e])" "drop ?p c = rest" by simp_all
  then have "decode_all B (take ?p c) = es @ [e]" by (simp only: decode_encode)
  moreover have "decode_all B (take pos c) = es" unfolding es(1) by simp
  moreover have "local_read B r = (Ok e, r\<lparr>lr_reader := Some (c, ?p)\<rparr>)"
    by (subst local_read.simps) (simp add: r e roundtrip)
  moreover have "local_ok B (r\<lparr>lr_reader := Some (c, ?p)\<rparr>)"
    using ok r rest p(2) exI [of "\<lambda>es. take ?p c = encode_all B es", OF p(1)] by (auto simp: local_ok_def)
  ultimately show ?thesis using r e p(2)
    by (simp add: local_remaining_def local_consumed_def Let_def)
qed

lemma local_read_effect:
  assumes "local_ok B r"
  shows "\<exists>r'. local_read B r = (Ok (case local_remaining B r of [] \<Rightarrow> EvFinished | e # _ \<Rightarrow> e), r')
    \<and> local_ok B r' \<and> local_remaining B r' = tl (local_remaining B r)
    \<and> local_consumed B r' = local_consumed B r @ take 1 (local_remaining B r) \<and> lr_dir r' = lr_dir r"
  using assms
proof (induction "2 * (length (lr_times r) - lr_next r) + (if lr_reader r = None then 0 else 1)"
    arbitrary: r rule: less_induct)
  case less
  show ?case
  proof (cases "lr_reader r")
    case None
    show ?thesis
    proof (cases "lr_next r < length (lr_times r)")
      case True
      from local_open_next [OF less.prems None this] obtain c where
        "local_read B r = local_read B (r\<lparr>lr_reader := Some (c, 0), lr_next := lr_next r + 1\<rparr>)"
        "local_ok B (r\<lparr>lr_reader := Some (c, 0), lr_next := lr_next r + 1\<rparr>)"
        "local_remaining B (r\<lparr>lr_reader := Some (c, 0), lr_next := lr_next r + 1\<rparr>) = local_remaining B r"
        "local_consumed B (r\<lparr>lr_reader := Some (c, 0), lr_next := lr_next r + 1\<rparr>) = local_consumed B r"
        by blast
      with less.hyps [of "r\<lparr>lr_reader := Some (c, 0), lr_next := lr_next r + 1\<rparr>"] None True show ?thesis
        by simp
    next
      case False
      with None have "local_remaining B r = []" "local_read B r = (Ok EvFinished, r)"
        by (simp_all add: local_remaining_def local_read.simps)
      with less.prems show ?thesis by simp
    qed
  next
    case (Some cp)
    obtain c pos where cp: "lr_reader r = Some (c, pos)" using Some by (cases cp) simp
    then have "readable B (drop pos c)" using less.prems by (simp add: local_ok_def)
    then show ?thesis
    proof (cases rule: readable_cases)
      case torn
      from local_close [OF less.prems cp torn(1)] less.hyps [of "r\<lparr>lr_reader := None\<rparr>"] cp
      show ?thesis by simp
    next
      case (entry e rest)
      from local_entry [OF less.prems cp entry(1,2)] show ?thesis by (simp add: Let_def)
    qed
  qed
qed

lemma filtered_dir:
  fixes R :: "timestamp set"
  assumes ok: "dir_ok B dir"
  defines "kept \<equiv> filter (\<lambda>p. fst p \<notin> timestamp_to_string ` R) dir"
  shows "dir_ok B kept"
    and "dir_events B kept
      = concat (map (file_events B dir) (filter (\<lambda>t. t \<notin> R) (parsed_times (map fst dir))))"
proof -
  obtain ts where ts: "map fst dir = map timestamp_to_string ts" "distinct ts" using ok by (auto simp: dir_ok_def)
  have "map fst kept = filter (\<lambda>k. k \<notin> timestamp_to_string ` R) (map fst dir)"
    by (simp add: kept_def filter_map o_def)
  also have "\<dots> = map timestamp_to_string (filter (\<lambda>t. t \<notin> R) ts)"
    using ts(1) by (auto simp: filter_map o_def intro!: arg_cong [of _ _ "map timestamp_to_string"] filter_cong)
  finally have names: "map fst kept = map timestamp_to_string (filter (\<lambda>t. t \<notin> R) ts)" .
  with ts(2) ok show "dir_ok B kept" by (auto simp: dir_ok_def kept_def)
  have "parsed_times (map fst kept) = filter (\<lambda>t. t \<notin> R) (parsed_times (map fst dir))"
    using names ts(1) by (simp add: filter_sort)
  moreover have "file_events B kept u = file_events B dir u" if "u \<notin> R" for u
    using that
    by (auto simp: file_events_def kept_def map_of_filter_key [of "\<lambda>k. k \<notin> timestamp_to_string ` R"])
  ultimately show "dir_events B kept
      = concat (map (file_events B dir) (filter (\<lambda>t. t \<notin> R) (parsed_times (map fst dir))))"
    by (auto simp: dir_events_def intro!: arg_cong [of _ _ concat] map_cong)
qed

lemma kept_dir:
  fixes n :: nat
  assumes ok: "dir_ok B dir" and tms: "tms = parsed_times (map fst dir)"
  defines "kept \<equiv> filter (\<lambda>p. fst p \<notin> timestamp_to_string ` set (drop n tms)) dir"
  shows "remove_files (drop n tms) dir = (Ok (), kept)" and "dir_ok B kept"
    and "dir_events B kept = concat (map (file_events B dir) (take n tms))"
proof -
  have dist: "distinct tms" using dir_ok_times(1) [OF ok] tms by simp
  show "remove_files (drop n tms) dir = (Ok (), kept)"
    unfolding kept_def using dist dir_ok_times(2) [OF ok] tms
    by (intro remove_files_ok) (auto dest: in_set_dropD)
  show "dir_ok B kept" unfolding kept_def by (rule filtered_dir(1) [OF ok])
  show "dir_events B kept = concat (map (file_events B dir) (take n tms))"
    unfolding kept_def filtered_dir(2) [OF ok] tms [symmetric] using sort_filter_distinct [OF dist] by simp
qed

lemma shrunk_dir:
  assumes ok: "dir_ok B dir" and c: "map_of dir (timestamp_to_string t) = Some c" and new: "readable B c'"
  defines "dir' \<equiv> AList.update (timestamp_to_string t) c' dir"
  shows "dir_ok B dir'" and "map fst dir' = map fst dir"
    and "file_events B dir' u = (if u = t then decode_all B c' else file_events B dir u)"
proof -
  have "timestamp_to_string t \<in> fst ` set dir" using c by (metis domI dom_map_of_conv_image_fst)
  then show names: "map fst dir' = map fst dir" by (simp add: dir'_def update_keys)
  have "set dir' \<subseteq> insert (timestamp_to_string t, c') (set dir)" unfolding dir'_def by (rule set_update_subset)
  then show "dir_ok B dir'" using ok new names by (auto simp: dir_ok_def)
  show "file_events B dir' u = (if u = t then decode_all B c' else file_events B dir u)"
    by (simp add: file_events_def dir'_def update_conv)
qed

text \<open>A new file behind all others.\<close>

lemma appended_dir:
  fixes c :: "'b list"
  assumes ok: "dir_ok B dir" and now: "now < 2 ^ 64"
    and new: "\<forall>t \<in> set (parsed_times (map fst dir)). unat t < now" and c: "readable B c"
  defines "dir' \<equiv> AList.update (show_nat now) c dir"
  shows "dir_ok B dir'" and "parsed_times (map fst dir') = parsed_times (map fst dir) @ [of_nat now]"
    and "file_events B dir' t = (if t = of_nat now then decode_all B c else file_events B dir t)"
    and "dir_events B dir' = dir_events B dir @ decode_all B c"
proof -
  obtain ts where ts: "map fst dir = map timestamp_to_string ts" "distinct ts" using ok by (auto simp: dir_ok_def)
  let ?t = "of_nat now :: timestamp"
  have un: "unat ?t = now" using now by (simp add: unat_of_nat take_bit_eq_mod)
  then have name: "show_nat now = timestamp_to_string ?t" by (simp add: timestamp_to_string_def)
  have less: "\<forall>t \<in> set ts. t < ?t" using new ts un by (auto simp: word_less_nat_alt)
  then have "timestamp_to_string ?t \<notin> set (map fst dir)" using ts by auto
  then have names: "map fst dir' = map timestamp_to_string (ts @ [?t])"
    using ts by (simp add: dir'_def name update_keys)
  moreover have "set dir' \<subseteq> insert (show_nat now, c) (set dir)" unfolding dir'_def by (rule set_update_subset)
  moreover have "distinct (ts @ [?t])" using ts(2) less by auto
  ultimately show "dir_ok B dir'" using ok c unfolding dir_ok_def by (metis (no_types, lifting) insertE snd_conv subsetD)
  have "sort (ts @ [?t]) = sort ts @ [?t]"
    using less by (intro properties_for_sort) (auto simp: sorted_append less_imp_le)
  with names ts show all: "parsed_times (map fst dir') = parsed_times (map fst dir) @ [of_nat now]"
    using parsed_times_strings [of "ts @ [?t]"] by simp
  show ev: "file_events B dir' t = (if t = of_nat now then decode_all B c else file_events B dir t)" for t
    by (simp add: file_events_def dir'_def name update_conv)
  have "map (file_events B dir') (sort ts) = map (file_events B dir) (sort ts)" using ev less by auto
  then have "concat (map (file_events B dir') (parsed_times (map fst dir))) = dir_events B dir"
    unfolding dir_events_def ts(1) parsed_times_strings by (rule arg_cong)
  then show "dir_events B dir' = dir_events B dir @ decode_all B c"
    unfolding dir_events_def [of B dir'] all map_append concat_append using ev [of ?t] by simp
qed

lemma written_new: "written B dir t0 [] (local_writer_new dir)"
  by (simp add: written_def local_writer_new_def)

lemma append_file_update: "append_file k bs (AList.update k c dir) = AList.update k (c @ bs) dir"
  by (simp add: append_file_def update_conv)

lemma written_write:
  assumes "written B dir t0 es w" and "lw_lazy w = None \<Longrightarrow> now = t0"
  shows "written B dir t0 (es @ [e]) (local_write B now spill e w)"
proof (cases "lw_lazy w")
  case None
  with assms have "es = []" "lw_dir w = dir" "now = t0" by (simp_all add: written_def)
  then show ?thesis using None
    by (simp add: written_def local_write_def append_file_update Let_def exI [of _ "take spill (bc_serialize B e)"])
next
  case (Some nb)
  obtain name buffer where nb: "lw_lazy w = Some (name, buffer)" using Some by (cases nb) simp
  then obtain c where c: "name = show_nat t0" "lw_dir w = AList.update name c dir" "c @ buffer = encode_all B es"
    using assms(1) by (auto simp: written_def)
  have "(c @ take spill (buffer @ bc_serialize B e)) @ drop spill (buffer @ bc_serialize B e) = encode_all B (es @ [e])"
    using c(3) by (metis append.assoc append_take_drop_id append.right_neutral encode_all_simps)
  with nb c(1,2) show ?thesis
    by (auto simp: written_def local_write_def append_file_update Let_def)
qed

lemma written_flush:
  assumes "written B dir t0 es w"
  shows "written B dir t0 es (local_flush w)"
    and "lw_lazy w \<noteq> None \<Longrightarrow> lw_dir (local_flush w) = AList.update (show_nat t0) (encode_all B es) dir"
  using assms
  by (auto simp: written_def local_flush_def append_file_update split: option.splits)

lemma local_split:
  assumes ok: "local_ok B r"
  shows "dir_events B (lr_dir r) = local_consumed B r @ local_remaining B r"
proof -
  have all: "dir_events B (lr_dir r)
    = concat (map (file_events B (lr_dir r)) (take n (lr_times r) @ drop n (lr_times r)))" for n
    using ok by (simp add: dir_events_def local_ok_def)
  show ?thesis
  proof (cases "lr_reader r")
    case None
    then show ?thesis
      using all [of "lr_next r"] by (simp add: local_consumed_def local_remaining_def del: append_take_drop_id)
  next
    case (Some cp)
    obtain c pos where cp: "lr_reader r = Some (c, pos)" using Some by (cases cp) simp
    obtain n where n: "lr_next r = Suc n" using ok cp by (cases "lr_next r") (auto simp: local_ok_def)
    have c: "n < length (lr_times r)" "file_events B (lr_dir r) (lr_times r ! n) = decode_all B c"
      using ok cp n by (auto simp: local_ok_def file_events_def)
    obtain es where "take pos c = encode_all B es" using ok cp by (auto simp: local_ok_def)
    then have "decode_all B c = decode_all B (take pos c) @ decode_all B (drop pos c)"
      using decode_encode_append [of es "drop pos c"] by (metis append_take_drop_id decode_encode)
    with cp n c all [of "Suc n"] show ?thesis
      by (simp add: local_consumed_def local_remaining_def take_Suc_conv_app_nth del: append_take_drop_id)
  qed
qed

lemma local_truncate_effect:
  assumes ok: "local_ok B r"
  shows "\<exists>r'. local_truncate r = (Ok (), r') \<and> dir_ok B (lr_dir r')
    \<and> dir_events B (lr_dir r') = local_consumed B r"
proof (cases "lr_reader r")
  case None
  from kept_dir [of "lr_dir r" "lr_times r" "lr_next r"] ok None show ?thesis
    by (auto simp: local_truncate_def local_ok_def local_consumed_def)
next
  case (Some cp)
  obtain c pos where cp: "lr_reader r = Some (c, pos)" using Some by (cases cp) simp
  obtain n where n: "lr_next r = Suc n" using ok cp by (cases "lr_next r") (auto simp: local_ok_def)
  let ?t = "lr_times r ! n" and ?times = "lr_times r"
  have dir: "dir_ok B (lr_dir r)" "?times = parsed_times (map fst (lr_dir r))" "n < length ?times"
    "map_of (lr_dir r) (timestamp_to_string ?t) = Some c"
    using ok cp n by (auto simp: local_ok_def)
  obtain es where "take pos c = encode_all B es" using ok cp by (auto simp: local_ok_def)
  then have "readable B (take pos c)" using readable_encode [of "[]" es] by simp
  note shrunk = shrunk_dir [OF dir(1,4) this]
  let ?dir = "AList.update (timestamp_to_string ?t) (take pos c) (lr_dir r)"
  have times: "?times = parsed_times (map fst ?dir)" using dir(2) shrunk(2) by simp
  note kept = kept_dir [OF shrunk(1) times, of "Suc n"]
  have dist: "distinct ?times" using dir_ok_times(1) [OF dir(1)] dir(2) by simp
  have "file_events B ?dir u = file_events B (lr_dir r) u" if "u \<in> set (take n ?times)" for u
  proof -
    have "take (Suc n) ?times = take n ?times @ [?t]" using dir(3) by (rule take_Suc_conv_app_nth)
    with distinct_take [OF dist, of "Suc n"] that have "u \<noteq> ?t" by auto
    then show ?thesis using shrunk(3) [of u] by simp
  qed
  then have "concat (map (file_events B ?dir) (take (Suc n) ?times)) = local_consumed B r"
    using cp n dir(3) shrunk(3) [of ?t]
    by (simp add: local_consumed_def take_Suc_conv_app_nth cong: map_cong)
  with kept cp n dir(4) show ?thesis by (simp add: local_truncate_def)
qed

end

sublocale bincode_crate \<subseteq> local: truncating_source "local_impl B" "local_ok B" "local_remaining B"
  "local_consumed B" lr_dir "dir_ok B" "\<lambda>_. True" "dir_events B" local_open
proof unfold_locales
  fix r assume ok: "local_ok B r"
  show "\<exists>r'. si_read (local_impl B) r = (Ok (case local_remaining B r of [] \<Rightarrow> EvFinished | e # _ \<Rightarrow> e), r')
      \<and> local_ok B r' \<and> local_remaining B r' = tl (local_remaining B r)"
    using local_read_effect [OF ok] by (auto simp: local_impl_def)
  show "local_consumed B (snd (si_read (local_impl B) r)) = local_consumed B r @ take 1 (local_remaining B r)"
    using local_read_effect [OF ok] by (auto simp: local_impl_def)
  show "lr_dir (snd (si_read (local_impl B) r)) = lr_dir r"
    using local_read_effect [OF ok] by (auto simp: local_impl_def)
  show "\<exists>r'. si_truncate (local_impl B) r = (Ok (), r') \<and> dir_ok B (lr_dir r')
      \<and> dir_events B (lr_dir r') = local_consumed B r"
    using local_truncate_effect [OF ok] by (auto simp: local_impl_def)
  show "dir_ok B (lr_dir r) \<and> dir_events B (lr_dir r) = local_consumed B r @ local_remaining B r"
    using ok local_split [OF ok] by (simp add: local_ok_def)
next
  fix dir assume "dir_ok B dir"
  then show "local_ok B (local_open dir) \<and> lr_dir (local_open dir) = dir
      \<and> local_consumed B (local_open dir) = [] \<and> local_remaining B (local_open dir) = dir_events B dir"
    by (simp add: local_open_def local_ok_def local_consumed_def local_remaining_def dir_events_def)
next
  show "si_check_threshold (local_impl B)" by (simp add: local_impl_def)
qed

end
