(* ===== verification/Metadata.thy ===== *)
theory Metadata
  imports Snapshots
begin

text \<open>
  The metadata of persistence and its coordinator: persistence/metadata\_backends, persistence/state.rs
  and persistence/tracker.rs.

  A backend is a record of the operations of the trait \<open>MetadataBackend\<close> on a store; its contract is
  the locale \<open>metadata_backend\<close>, interpreted on the file system and, given the documented behaviour
  of the S3 bucket, on S3. The JSON text of the stored metadata is serde's, the argument \<open>J\<close>, with
  its contract in the locale \<open>metadata_json\<close>. The clocks, \<open>SystemTime\<close> and \<open>Instant\<close>, and the outcome
  of flushing the snapshot writers are arguments of the operations that read them.
\<close>

section \<open>Backends\<close>

datatype metadata_error = MetaFileSystem | MetaS3 | MetaUtf8 | MetaIncorrectFormat

record 's metadata_ops =
  mb_list_keys :: "'s \<Rightarrow> (metadata_error, string list) result"
  mb_get_value :: "string \<Rightarrow> 's \<Rightarrow> (metadata_error, string) result"
  mb_put_value :: "string \<Rightarrow> string \<Rightarrow> 's \<Rightarrow> (metadata_error, 's) result"
  mb_remove_key :: "string \<Rightarrow> 's \<Rightarrow> (metadata_error, 's) result"

text \<open>The directory of the file system backend; an entry is a file with its text, or something else.\<close>

type_synonym meta_dir = "(string \<times> string option) list"

definition fs_list_keys :: "meta_dir \<Rightarrow> (metadata_error, string list) result" where
  "fs_list_keys dir = Ok (map fst (filter (\<lambda>entry. snd entry \<noteq> None) dir))"

definition fs_get_value :: "string \<Rightarrow> meta_dir \<Rightarrow> (metadata_error, string) result" where
  "fs_get_value key dir = (case map_of dir key of Some (Some text) \<Rightarrow> Ok text | _ \<Rightarrow> Err MetaFileSystem)"

definition fs_put_value :: "string \<Rightarrow> string \<Rightarrow> meta_dir \<Rightarrow> (metadata_error, meta_dir) result" where
  "fs_put_value key text dir =
     (if map_of dir key = Some None then Err MetaFileSystem else Ok (AList.update key (Some text) dir))"

definition fs_remove_key :: "string \<Rightarrow> meta_dir \<Rightarrow> (metadata_error, meta_dir) result" where
  "fs_remove_key key dir =
     (case map_of dir key of Some (Some _) \<Rightarrow> Ok (AList.delete key dir) | _ \<Rightarrow> Err MetaFileSystem)"

definition fs_ops :: "meta_dir metadata_ops" where
  "fs_ops = \<lparr>mb_list_keys = fs_list_keys, mb_get_value = fs_get_value, mb_put_value = fs_put_value,
     mb_remove_key = fs_remove_key\<rparr>"

definition mock_ops :: "unit metadata_ops" where
  "mock_ops = \<lparr>mb_list_keys = (\<lambda>_. Ok []), mb_get_value = (\<lambda>_ _. Panic), mb_put_value = (\<lambda>_ _ s. Ok s),
     mb_remove_key = (\<lambda>_ s. Ok s)\<rparr>"

text \<open>The bucket of the crate s3, an external system: the keys with a prefix, and the operations on
  an object.\<close>

record 's bucket_api =
  ba_list :: "string \<Rightarrow> 's \<Rightarrow> (metadata_error, string list) result"
  ba_get :: "string \<Rightarrow> 's \<Rightarrow> (metadata_error, string) result"
  ba_put :: "string \<Rightarrow> string \<Rightarrow> 's \<Rightarrow> (metadata_error, 's) result"
  ba_delete :: "string \<Rightarrow> 's \<Rightarrow> (metadata_error, 's) result"

definition s3_root_path :: "string \<Rightarrow> string" where
  "s3_root_path root_path =
     (if root_path \<noteq> [] \<and> last root_path = CHR ''/'' then root_path else root_path @ ''/'')"

definition full_key_path :: "string \<Rightarrow> string \<Rightarrow> string" where
  "full_key_path root_path key = root_path @ key"

fun strip_keys :: "string \<Rightarrow> string list \<Rightarrow> (metadata_error, string list) result" where
  "strip_keys root_path [] = Ok []"
| "strip_keys root_path (key # keys) =
     (if length root_path < length key
      then map_ok (Cons (drop (length root_path) key)) (strip_keys root_path keys) else Panic)"

definition s3_ops :: "'s bucket_api \<Rightarrow> string \<Rightarrow> 's metadata_ops" where
  "s3_ops A root =
     \<lparr>mb_list_keys = (\<lambda>s. and_then (ba_list A (s3_root_path root) s) (strip_keys (s3_root_path root))),
      mb_get_value = (\<lambda>key. ba_get A (full_key_path (s3_root_path root) key)),
      mb_put_value = (\<lambda>key. ba_put A (full_key_path (s3_root_path root) key)),
      mb_remove_key = (\<lambda>key. ba_delete A (full_key_path (s3_root_path root) key))\<rparr>"

section \<open>Metadata keys\<close>

record metadata_key =
  mk_version :: u128
  mk_worker_id :: u64
  mk_rotation_id :: u64

definition metadata_key_from_str :: "string \<Rightarrow> metadata_key option" where
  "metadata_key_from_str key =
     (case split_on (CHR ''-'') key of
        [version, worker_id, rotation_id] \<Rightarrow>
          Option.bind (parse_unsigned 128 version) (\<lambda>v.
          Option.bind (parse_unsigned 64 worker_id) (\<lambda>w.
          Option.bind (parse_unsigned 64 rotation_id) (\<lambda>r.
            Some \<lparr>mk_version = of_nat v, mk_worker_id = of_nat w, mk_rotation_id = of_nat r\<rparr>)))
      | _ \<Rightarrow> None)"

definition from_components :: "u128 \<Rightarrow> u64 \<Rightarrow> u64 \<Rightarrow> metadata_key" where
  "from_components version worker_id rotation_id =
     \<lparr>mk_version = version, mk_worker_id = worker_id, mk_rotation_id = rotation_id\<rparr>"

definition metadata_key_to_string :: "metadata_key \<Rightarrow> string" where
  "metadata_key_to_string k =
     show_nat (unat (mk_version k)) @ ''-'' @ show_nat (unat (mk_worker_id k)) @ ''-''
       @ show_nat (unat (mk_rotation_id k))"

section \<open>Stored metadata\<close>

datatype storage_type = StFileSystem | StS3Csv | StS3Lines | StCsvFilesystem | StKafka | StPython | StSqlite

record stored_metadata =
  sm_storage_types :: "(u128 \<times> storage_type) list"
  sm_last_advanced_timestamp :: "timestamp total_frontier"

definition stored_metadata_new :: stored_metadata where
  "stored_metadata_new = \<lparr>sm_storage_types = [], sm_last_advanced_timestamp = At 0\<rparr>"

record metadata_codec =
  mj_from_str :: "string \<Rightarrow> stored_metadata option"
  mj_to_string :: "stored_metadata \<Rightarrow> string"

definition stored_metadata_parse :: "metadata_codec \<Rightarrow> string \<Rightarrow> (metadata_error, stored_metadata) result" where
  "stored_metadata_parse J data = ok_or MetaIncorrectFormat (mj_from_str J (trim_end data))"

definition stored_metadata_merge :: "stored_metadata \<Rightarrow> stored_metadata \<Rightarrow> stored_metadata" where
  "stored_metadata_merge self other =
     self\<lparr>sm_storage_types :=
       foldl (\<lambda>m (k, v). AList.update k v m) (sm_storage_types self) (sm_storage_types other)\<rparr>"

section \<open>The accessor\<close>

record 's metadata_accessor =
  acc_backend :: 's
  acc_internal_state :: stored_metadata
  acc_past_runs_threshold_times :: "(u64 \<times> timestamp total_frontier) list"
  acc_current_key_to_use :: string
  acc_next_key_to_use :: string

definition or_modify :: "('v \<Rightarrow> 'v \<Rightarrow> 'v) \<Rightarrow> 'k \<Rightarrow> 'v \<Rightarrow> ('k \<times> 'v) list \<Rightarrow> ('k \<times> 'v) list" where
  "or_modify f k v m = AList.update k (case map_of m k of Some old \<Rightarrow> f old v | None \<Rightarrow> v) m"

fun last_versions :: "string list \<Rightarrow> (u64 \<times> u128) list \<Rightarrow> (u64 \<times> u128) list" where
  "last_versions [] last_version_per_worker = last_version_per_worker"
| "last_versions (key # keys) last_version_per_worker =
     (case metadata_key_from_str key of
        None \<Rightarrow> last_versions keys last_version_per_worker
      | Some metadata_key \<Rightarrow> last_versions keys
          (or_modify max (mk_worker_id metadata_key) (mk_version metadata_key) last_version_per_worker))"

type_synonym 's load_state = "'s \<times> stored_metadata \<times> (u64 \<times> timestamp total_frontier) list"

fun load_blocks ::
    "'s metadata_ops \<Rightarrow> metadata_codec \<Rightarrow> (u64 \<times> u128) list \<Rightarrow> string list \<Rightarrow> 's load_state
      \<Rightarrow> (metadata_error, 's load_state) result" where
  "load_blocks M J last_version_per_worker [] st = Ok st"
| "load_blocks M J last_version_per_worker (key # keys) (backend, internal_state, threshold_times) =
     (case metadata_key_from_str key of
        None \<Rightarrow> load_blocks M J last_version_per_worker keys (backend, internal_state, threshold_times)
      | Some metadata_key \<Rightarrow>
          (case map_of last_version_per_worker (mk_worker_id metadata_key) of
             None \<Rightarrow> Panic
           | Some target_version \<Rightarrow>
               if mk_version metadata_key < target_version then
                 (case mb_remove_key M key backend of
                    Ok backend \<Rightarrow> load_blocks M J last_version_per_worker keys
                      (backend, internal_state, threshold_times)
                  | Err _ \<Rightarrow> load_blocks M J last_version_per_worker keys
                      (backend, internal_state, threshold_times)
                  | Panic \<Rightarrow> Panic)
               else
                 and_then (mb_get_value M key backend) (\<lambda>raw_block.
                   case stored_metadata_parse J raw_block of
                     Ok block \<Rightarrow> load_blocks M J last_version_per_worker keys
                       (backend, stored_metadata_merge internal_state block,
                        or_modify max (mk_worker_id metadata_key) (sm_last_advanced_timestamp block) threshold_times)
                   | Err _ \<Rightarrow> load_blocks M J last_version_per_worker keys
                       (backend, internal_state, threshold_times)
                   | Panic \<Rightarrow> Panic)))"

definition accessor_new ::
    "'s metadata_ops \<Rightarrow> metadata_codec \<Rightarrow> u128 \<Rightarrow> 's \<Rightarrow> u64 \<Rightarrow> (metadata_error, 's metadata_accessor) result" where
  "accessor_new M J current_timestamp backend worker_id =
     and_then (mb_list_keys M backend) (\<lambda>keys.
     and_then (load_blocks M J (last_versions keys []) keys (backend, stored_metadata_new, []))
       (\<lambda>(backend, internal_state, past_runs_threshold_times).
       Ok \<lparr>acc_backend = backend, acc_internal_state = internal_state,
           acc_past_runs_threshold_times = past_runs_threshold_times,
           acc_current_key_to_use = metadata_key_to_string (from_components current_timestamp worker_id 0),
           acc_next_key_to_use = metadata_key_to_string (from_components current_timestamp worker_id 1)\<rparr>))"

definition accessor_register_input_source ::
    "u128 \<Rightarrow> storage_type \<Rightarrow> 's metadata_accessor \<Rightarrow> 's metadata_accessor" where
  "accessor_register_input_source persistent_id storage_type a =
     a\<lparr>acc_internal_state := (acc_internal_state a)
         \<lparr>sm_storage_types := AList.update persistent_id storage_type (sm_storage_types (acc_internal_state a))\<rparr>\<rparr>"

definition accessor_accept_finalized_timestamp ::
    "timestamp total_frontier \<Rightarrow> 's metadata_accessor \<Rightarrow> 's metadata_accessor" where
  "accessor_accept_finalized_timestamp timestamp a =
     a\<lparr>acc_internal_state := (acc_internal_state a)\<lparr>sm_last_advanced_timestamp := timestamp\<rparr>\<rparr>"

definition last_advanced_timestamp :: "'s metadata_accessor \<Rightarrow> timestamp total_frontier" where
  "last_advanced_timestamp a = sm_last_advanced_timestamp (acc_internal_state a)"

definition save_current_state ::
    "'s metadata_ops \<Rightarrow> metadata_codec \<Rightarrow> 's metadata_accessor \<Rightarrow> (metadata_error, 's metadata_accessor) result" where
  "save_current_state M J a =
     map_ok (\<lambda>backend. a\<lparr>acc_backend := backend, acc_current_key_to_use := acc_next_key_to_use a,
                         acc_next_key_to_use := acc_current_key_to_use a\<rparr>)
       (mb_put_value M (acc_current_key_to_use a) (mj_to_string J (acc_internal_state a)) (acc_backend a))"

section \<open>The coordinator of a worker\<close>

text \<open>What waiting for the flush of a snapshot writer gives: the channel was dropped, or a result was
  received, which may itself be the error of the write.\<close>

datatype flush_outcome = FlushCanceled | FlushReceived "write_error option"

record 's worker_persistent_storage =
  wps_metadata_storage :: "'s metadata_accessor"
  wps_snapshot_writers :: "u128 list"
  wps_sink_threshold_times :: "timestamp total_frontier list"
  wps_registered_persistent_ids :: "u128 list"

definition wps_new ::
    "'s metadata_ops \<Rightarrow> metadata_codec \<Rightarrow> u128 \<Rightarrow> 's \<Rightarrow> u64
      \<Rightarrow> (metadata_error, 's worker_persistent_storage) result" where
  "wps_new M J now backend worker_id =
     map_ok (\<lambda>accessor. \<lparr>wps_metadata_storage = accessor, wps_snapshot_writers = [],
               wps_sink_threshold_times = [], wps_registered_persistent_ids = []\<rparr>)
       (accessor_new M J now backend worker_id)"

fun prepare :: "flush_outcome list \<Rightarrow> bool \<Rightarrow> bool" where
  "prepare [] is_snapshot_saved = is_snapshot_saved"
| "prepare (flush_result # futures) is_snapshot_saved =
     prepare futures (case flush_result of FlushCanceled \<Rightarrow> False | FlushReceived _ \<Rightarrow> is_snapshot_saved)"

definition last_finalized_timestamp :: "'s worker_persistent_storage \<Rightarrow> timestamp total_frontier" where
  "last_finalized_timestamp t = last_advanced_timestamp (wps_metadata_storage t)"

definition wps_register_input_source ::
    "u128 \<Rightarrow> storage_type \<Rightarrow> 's worker_persistent_storage
      \<Rightarrow> (metadata_error, 's worker_persistent_storage) result" where
  "wps_register_input_source persistent_id storage_type t =
     (if persistent_id \<in> set (wps_registered_persistent_ids t) then Panic
      else Ok (t\<lparr>wps_registered_persistent_ids := persistent_id # wps_registered_persistent_ids t,
                 wps_metadata_storage :=
                   accessor_register_input_source persistent_id storage_type (wps_metadata_storage t)\<rparr>))"

definition register_sink :: "'s worker_persistent_storage \<Rightarrow> nat \<times> 's worker_persistent_storage" where
  "register_sink t =
     (let sinks = wps_sink_threshold_times t @ [At 0]
      in (length sinks - 1, t\<lparr>wps_sink_threshold_times := sinks\<rparr>))"

text \<open>\<open>writer\<close> is what \<open>config.create_snapshot_writer\<close> gives; the writer itself is modelled in \<open>Snapshots\<close>.\<close>

definition wps_create_snapshot_writer ::
    "(write_error, unit) result \<Rightarrow> u128 \<Rightarrow> 's worker_persistent_storage
      \<Rightarrow> (write_error, 's worker_persistent_storage) result" where
  "wps_create_snapshot_writer writer persistent_id t =
     (if persistent_id \<in> set (wps_snapshot_writers t) then Ok t
      else map_ok (\<lambda>_. t\<lparr>wps_snapshot_writers := persistent_id # wps_snapshot_writers t\<rparr>) writer)"

text \<open>The first phase of a commit: the flushes to wait for, one for each snapshot writer, and the
  timestamp. \<open>flush\<close> gives the outcome of the flush of a writer.\<close>

definition wps_accept_finalized_timestamp ::
    "(u128 \<Rightarrow> flush_outcome) \<Rightarrow> timestamp total_frontier \<Rightarrow> 's worker_persistent_storage
      \<Rightarrow> flush_outcome list \<times> timestamp total_frontier" where
  "wps_accept_finalized_timestamp flush finalized_timestamp t =
     (if finalized_timestamp \<le> last_finalized_timestamp t then ([], last_finalized_timestamp t)
      else (map flush (wps_snapshot_writers t), finalized_timestamp))"

definition commit_finalized_timestamp ::
    "'s metadata_ops \<Rightarrow> metadata_codec \<Rightarrow> timestamp total_frontier \<Rightarrow> 's worker_persistent_storage
      \<Rightarrow> (metadata_error, 's worker_persistent_storage) result" where
  "commit_finalized_timestamp M J timestamp t =
     (let accessor = accessor_accept_finalized_timestamp timestamp (wps_metadata_storage t)
      in case save_current_state M J accessor of
           Ok accessor \<Rightarrow> Ok (t\<lparr>wps_metadata_storage := accessor\<rparr>)
         | Err _ \<Rightarrow> Ok (t\<lparr>wps_metadata_storage := accessor\<rparr>)
         | Panic \<Rightarrow> Panic)"

definition update_sink_finalized_time ::
    "'s metadata_ops \<Rightarrow> metadata_codec \<Rightarrow> bool \<Rightarrow> (u128 \<Rightarrow> flush_outcome) \<Rightarrow> nat \<Rightarrow> timestamp option
      \<Rightarrow> 's worker_persistent_storage \<Rightarrow> (metadata_error, 's worker_persistent_storage) result" where
  "update_sink_finalized_time M J interval_passed flush sink_id reported_timestamp t =
     (if sink_id < length (wps_sink_threshold_times t) then
        let sinks = (wps_sink_threshold_times t)
              [sink_id := (case reported_timestamp of None \<Rightarrow> Done | Some ts \<Rightarrow> At ts)];
            t = t\<lparr>wps_sink_threshold_times := sinks\<rparr>;
            worker_finalized_timestamp = foldl min (hd sinks) (tl sinks)
        in if worker_finalized_timestamp \<noteq> last_finalized_timestamp t
              \<and> (worker_finalized_timestamp = Done \<or> interval_passed) then
             (case wps_accept_finalized_timestamp flush worker_finalized_timestamp t of
                (snapshot_futures, timestamp) \<Rightarrow>
                  if prepare snapshot_futures True then commit_finalized_timestamp M J timestamp t else Ok t)
           else Ok t
      else Panic)"

section \<open>Keys round trip\<close>

lemma show_nat_no_dash: "CHR ''-'' \<notin> set (show_nat n)"
  using show_nat_digits [of "CHR ''-''" n] by (auto simp: is_digit_def)

lemma metadata_key_roundtrip_split:
  "split_on (CHR ''-'') (metadata_key_to_string k) =
     [show_nat (unat (mk_version k)), show_nat (unat (mk_worker_id k)), show_nat (unat (mk_rotation_id k))]"
  by (simp add: metadata_key_to_string_def split_on_append split_on_no_sep show_nat_no_dash)

lemma metadata_key_parse_show [simp]: "metadata_key_from_str (metadata_key_to_string k) = Some k"
proof -
  have "unat (mk_version k) < 2 ^ 128" by (rule order.strict_trans2 [OF unsigned_less]) simp
  then show ?thesis
    by (simp add: metadata_key_from_str_def metadata_key_roundtrip_split parse_unsigned_show unat_u64
        del: numeral_power_eq_of_nat_cancel_iff power_numeral)
qed

lemma metadata_key_to_string_inject [simp]:
  "metadata_key_to_string k = metadata_key_to_string k' \<longleftrightarrow> k = k'"
  by (metis metadata_key_parse_show option.inject)

section \<open>What the stored blocks mean\<close>

text \<open>The abstract view: the blocks are a partial function from names to texts. The threshold of a worker
  is the latest time among its readable blocks of its latest version.\<close>

definition version_set :: "(string \<rightharpoonup> string) \<Rightarrow> u64 \<Rightarrow> u128 set" where
  "version_set c w = {mk_version mk |mk k. k \<in> dom c \<and> metadata_key_from_str k = Some mk \<and> mk_worker_id mk = w}"

definition obsolete :: "(string \<rightharpoonup> string) \<Rightarrow> string \<Rightarrow> bool" where
  "obsolete c k \<longleftrightarrow> (\<exists>mk. metadata_key_from_str k = Some mk \<and> (\<exists>v \<in> version_set c (mk_worker_id mk). mk_version mk < v))"

definition block_of :: "metadata_codec \<Rightarrow> (string \<rightharpoonup> string) \<Rightarrow> string \<Rightarrow> stored_metadata option" where
  "block_of J c k = Option.bind (c k) (\<lambda>raw. mj_from_str J (trim_end raw))"

definition block_times :: "metadata_codec \<Rightarrow> (string \<rightharpoonup> string) \<Rightarrow> string set \<Rightarrow> u64 \<Rightarrow> timestamp total_frontier set" where
  "block_times J c K w =
     {sm_last_advanced_timestamp b |b k mk. k \<in> K \<and> metadata_key_from_str k = Some mk \<and> mk_worker_id mk = w
        \<and> \<not> obsolete c k \<and> block_of J c k = Some b}"

definition is_latest :: "'a::linorder set \<Rightarrow> 'a option \<Rightarrow> bool" where
  "is_latest S r \<longleftrightarrow> (case r of None \<Rightarrow> S = {} | Some x \<Rightarrow> x \<in> S \<and> (\<forall>y \<in> S. y \<le> x))"

lemma version_setI: "k \<in> dom c \<Longrightarrow> metadata_key_from_str k = Some mk \<Longrightarrow> mk_version mk \<in> version_set c (mk_worker_id mk)"
  by (auto simp: version_set_def)

lemma is_latest_unique: "is_latest S r \<Longrightarrow> is_latest S r' \<Longrightarrow> r = r'"
  by (auto simp: is_latest_def split: option.splits intro: antisym)

lemma is_latest_or_modify:
  assumes "is_latest S (map_of m w)"
  shows "is_latest (if k = w then insert x S else S) (map_of (or_modify max k x m) w)"
  using assms by (auto simp: is_latest_def or_modify_def update_conv max_def split: option.splits)

lemma is_latest_less: "is_latest S (Some v) \<Longrightarrow> x < v \<longleftrightarrow> (\<exists>y \<in> S. x < y)"
  by (auto simp: is_latest_def)

lemma last_versions_latest:
  assumes "is_latest S (map_of m w)"
  shows "is_latest (S \<union> {mk_version mk |mk k. k \<in> set keys \<and> metadata_key_from_str k = Some mk \<and> mk_worker_id mk = w})
           (map_of (last_versions keys m) w)"
  using assms
proof (induction keys arbitrary: S m)
  case Nil
  then show ?case by simp
next
  case (Cons key keys)
  show ?case
  proof (cases "metadata_key_from_str key")
    case None
    then have "{mk_version mk |mk k. k \<in> set (key # keys) \<and> metadata_key_from_str k = Some mk \<and> mk_worker_id mk = w}
        = {mk_version mk |mk k. k \<in> set keys \<and> metadata_key_from_str k = Some mk \<and> mk_worker_id mk = w}"
      by auto
    with None Cons.IH [OF Cons.prems] show ?thesis by simp
  next
    case (Some mk)
    let ?S = "if mk_worker_id mk = w then insert (mk_version mk) S else S"
    have "?S \<union> {mk_version mk |mk k. k \<in> set keys \<and> metadata_key_from_str k = Some mk \<and> mk_worker_id mk = w}
        = S \<union> {mk_version mk |mk k. k \<in> set (key # keys) \<and> metadata_key_from_str k = Some mk \<and> mk_worker_id mk = w}"
      using Some by auto
    moreover have "is_latest ?S (map_of (or_modify max (mk_worker_id mk) (mk_version mk) m) w)"
      using is_latest_or_modify [OF Cons.prems] by simp
    ultimately show ?thesis using Cons.IH [of ?S] Some by simp
  qed
qed

lemma last_versions_exact: "set keys = dom c \<Longrightarrow> is_latest (version_set c w) (map_of (last_versions keys []) w)"
  using last_versions_latest [of "{}" "[]" w keys] by (simp add: is_latest_def version_set_def)

lemma block_times_iff:
  "x \<in> block_times J c K w \<longleftrightarrow> (\<exists>k \<in> K. \<exists>mk b. metadata_key_from_str k = Some mk \<and> mk_worker_id mk = w
     \<and> \<not> obsolete c k \<and> block_of J c k = Some b \<and> x = sm_last_advanced_timestamp b)"
  by (auto simp: block_times_def)

lemma block_times_insert:
  assumes "metadata_key_from_str k = Some mk" and "\<not> obsolete c k" and "block_of J c k = Some b"
  shows "block_times J c (insert k K) w =
    (if mk_worker_id mk = w then insert (sm_last_advanced_timestamp b) (block_times J c K w) else block_times J c K w)"
  by (rule set_eqI) (simp add: assms block_times_iff)

text \<open>Dropping obsolete blocks of a worker does not change which of its blocks are obsolete, nor its times.\<close>

definition pruned_for :: "u64 \<Rightarrow> (string \<rightharpoonup> string) \<Rightarrow> (string \<rightharpoonup> string) \<Rightarrow> bool" where
  "pruned_for w c d \<longleftrightarrow> (\<forall>k mk. metadata_key_from_str k = Some mk \<and> mk_worker_id mk = w \<longrightarrow>
     d k = c k \<or> obsolete c k \<and> d k = None)"

lemma pruned_for_dom: "pruned_for w c d \<Longrightarrow> metadata_key_from_str k = Some mk \<Longrightarrow> mk_worker_id mk = w \<Longrightarrow> k \<in> dom d \<Longrightarrow> k \<in> dom c"
  unfolding pruned_for_def dom_def by (metis (mono_tags, lifting) mem_Collect_eq)

lemma pruned_for_obsolete:
  assumes "pruned_for w c d" and key: "metadata_key_from_str k = Some mk" "mk_worker_id mk = w"
  shows "obsolete d k \<longleftrightarrow> obsolete c k"
proof -
  have sub: "version_set d w \<subseteq> version_set c w"
    using pruned_for_dom [OF assms(1)] unfolding version_set_def by blast
  have "\<exists>u \<in> version_set d w. v \<le> u" if v: "v \<in> version_set c w" for v
  proof -
    have fin: "finite (version_set c w)" by (rule finite_subset [OF subset_UNIV]) simp
    then have "Max (version_set c w) \<in> version_set c w" using v by (intro Max_in) auto
    then obtain k mk where k: "k \<in> dom c" "metadata_key_from_str k = Some mk" "mk_worker_id mk = w"
      "Max (version_set c w) = mk_version mk"
      by (auto simp: version_set_def)
    then have "\<not> obsolete c k" using Max_ge [OF fin] by (auto simp: obsolete_def not_less)
    then have "d k = c k" using assms(1) k(2,3) unfolding pruned_for_def by blast
    then have "k \<in> dom d" using k(1) by (simp add: dom_def)
    then have "Max (version_set c w) \<in> version_set d w" using version_setI k(2-4) by metis
    then show ?thesis using Max_ge [OF fin v] by blast
  qed
  then have "(\<exists>v \<in> version_set d w. mk_version mk < v) \<longleftrightarrow> (\<exists>v \<in> version_set c w. mk_version mk < v)"
    using sub by (meson less_le_trans subsetD)
  then show ?thesis using key by (simp add: obsolete_def)
qed

lemma pruned_for_block_times:
  assumes "pruned_for w c d"
  shows "block_times J d (dom d) w = block_times J c (dom c) w"
proof -
  have "k \<in> dom d \<and> \<not> obsolete d k \<and> block_of J d k = Some b \<longleftrightarrow> k \<in> dom c \<and> \<not> obsolete c k \<and> block_of J c k = Some b"
    if key: "metadata_key_from_str k = Some mk" "mk_worker_id mk = w" for k mk b
  proof (cases "obsolete c k")
    case True
    then show ?thesis using pruned_for_obsolete [OF assms key] by simp
  next
    case False
    then have "d k = c k" using assms key unfolding pruned_for_def by blast
    then show ?thesis using pruned_for_obsolete [OF assms key] by (simp add: block_of_def dom_def)
  qed
  then show ?thesis unfolding block_times_def by blast
qed

section \<open>The contract of a backend\<close>

text \<open>\<open>contents\<close> is the abstract view of a store. An operation that succeeds acts on it as on a partial
  function; a reliable backend moreover does not fail.\<close>

locale metadata_backend =
  fixes M :: "'s metadata_ops" and good :: "'s \<Rightarrow> bool" and contents :: "'s \<Rightarrow> string \<rightharpoonup> string"
  assumes list_keys: "good s \<Longrightarrow> mb_list_keys M s = Ok ks \<Longrightarrow> set ks = dom (contents s)"
    and get_value: "good s \<Longrightarrow> mb_get_value M k s = Ok text \<Longrightarrow> contents s k = Some text"
    and put_value: "good s \<Longrightarrow> metadata_key_from_str k \<noteq> None \<Longrightarrow> mb_put_value M k text s = Ok s'
      \<Longrightarrow> good s' \<and> contents s' = (contents s)(k \<mapsto> text)"
    and remove_key: "good s \<Longrightarrow> metadata_key_from_str k \<noteq> None \<Longrightarrow> mb_remove_key M k s = Ok s'
      \<Longrightarrow> good s' \<and> contents s' = (contents s)(k := None)"
begin

definition pruned :: "(string \<rightharpoonup> string) \<Rightarrow> 's \<Rightarrow> bool" where
  "pruned c s \<longleftrightarrow> good s \<and> (\<forall>k. contents s k = c k \<or> obsolete c k \<and> contents s k = None)"

lemma load_blocks_latest:
  assumes "load_blocks M J vs keys (s, st, th) = Ok (s', st', th')"
    and "\<And>w. is_latest (version_set c w) (map_of vs w)"
    and "pruned c s"
    and "is_latest T (map_of th w)"
  shows "pruned c s' \<and> sm_last_advanced_timestamp st' = sm_last_advanced_timestamp st
    \<and> is_latest (T \<union> block_times J c (set keys) w) (map_of th' w)"
  using assms(1,3,4)
proof (induction keys arbitrary: s st th T)
  case Nil
  then show ?case by (simp add: block_times_def)
next
  case (Cons key keys)
  show ?case
  proof (cases "metadata_key_from_str key")
    case None
    then have "block_times J c (set (key # keys)) w = block_times J c (set keys) w"
      by (auto simp: block_times_def)
    with Cons None show ?thesis by simp
  next
    case (Some mk)
    obtain v where v: "map_of vs (mk_worker_id mk) = Some v"
      using Cons.prems(1) Some by (auto split: option.splits)
    have obs: "mk_version mk < v \<longleftrightarrow> obsolete c key"
      using is_latest_less [of "version_set c (mk_worker_id mk)" v] assms(2) [of "mk_worker_id mk"] v Some
      by (simp add: obsolete_def)
    show ?thesis
    proof (cases "mk_version mk < v")
      case True
      with obs have "block_times J c (set (key # keys)) w = block_times J c (set keys) w"
        by (auto simp: block_times_def)
      moreover obtain s1 where "load_blocks M J vs keys (s1, st, th) = Ok (s', st', th')" "pruned c s1"
        using Cons.prems(1,2) Some v True obs remove_key [of s key]
        by (auto simp: pruned_def split: result.splits if_splits)
      ultimately show ?thesis using Cons.IH Cons.prems(3) by simp
    next
      case False
      with obs have nobs: "\<not> obsolete c key" by simp
      obtain raw where raw: "mb_get_value M key s = Ok raw"
        using Cons.prems(1) Some v False by (auto simp: result_simps)
      then have c: "c key = Some raw"
        using get_value [of s key raw] Cons.prems(2) nobs unfolding pruned_def by (metis)
      show ?thesis
      proof (cases "mj_from_str J (trim_end raw)")
        case None
        with c have "block_times J c (set (key # keys)) w = block_times J c (set keys) w"
          by (auto simp: block_times_def block_of_def)
        moreover have "load_blocks M J vs keys (s, st, th) = Ok (s', st', th')"
          using Cons.prems(1) Some v False raw None by (simp add: stored_metadata_parse_def)
        ultimately show ?thesis using Cons.IH Cons.prems(2,3) by simp
      next
        case block: (Some b)
        let ?x = "sm_last_advanced_timestamp b"
        let ?T = "if mk_worker_id mk = w then insert ?x T else T"
        have "?T \<union> block_times J c (set keys) w = T \<union> block_times J c (set (key # keys)) w"
          using block_times_insert [OF Some nobs, of J b "set keys" w] block c by (simp add: block_of_def)
        moreover have "load_blocks M J vs keys (s, stored_metadata_merge st b,
            or_modify max (mk_worker_id mk) ?x th) = Ok (s', st', th')"
          using Cons.prems(1) Some v False raw block by (simp add: stored_metadata_parse_def)
        moreover have "is_latest ?T (map_of (or_modify max (mk_worker_id mk) ?x th) w)"
          using is_latest_or_modify [OF Cons.prems(3)] by simp
        ultimately show ?thesis
          using Cons.IH [of s "stored_metadata_merge st b" _ ?T] Cons.prems(2)
          by (simp add: stored_metadata_merge_def)
      qed
    qed
  qed
qed

lemma accessor_new_latest:
  assumes "accessor_new M J now s w0 = Ok a" and "good s"
  shows "is_latest (block_times J (contents s) (dom (contents s)) w) (map_of (acc_past_runs_threshold_times a) w)"
    and "pruned (contents s) (acc_backend a)"
    and "last_advanced_timestamp a = At 0"
    and "acc_current_key_to_use a = metadata_key_to_string (from_components now w0 0)"
    and "acc_next_key_to_use a = metadata_key_to_string (from_components now w0 1)"
proof -
  obtain ks s' st' th' where keys: "mb_list_keys M s = Ok ks"
    and load: "load_blocks M J (last_versions ks []) ks (s, stored_metadata_new, []) = Ok (s', st', th')"
    and a: "a = \<lparr>acc_backend = s', acc_internal_state = st', acc_past_runs_threshold_times = th',
           acc_current_key_to_use = metadata_key_to_string (from_components now w0 0),
           acc_next_key_to_use = metadata_key_to_string (from_components now w0 1)\<rparr>"
    using assms(1) by (auto simp: accessor_new_def result_simps)
  have ks: "set ks = dom (contents s)" using list_keys [OF assms(2) keys] .
  have "pruned (contents s) s" using assms(2) by (simp add: pruned_def)
  note exact = load_blocks_latest [OF load last_versions_exact [OF ks] this, of "{}" w]
  show "is_latest (block_times J (contents s) (dom (contents s)) w) (map_of (acc_past_runs_threshold_times a) w)"
    and "pruned (contents s) (acc_backend a)" and "last_advanced_timestamp a = At 0"
    and "acc_current_key_to_use a = metadata_key_to_string (from_components now w0 0)"
    and "acc_next_key_to_use a = metadata_key_to_string (from_components now w0 1)"
    using exact by (simp_all add: a ks is_latest_def last_advanced_timestamp_def stored_metadata_new_def)
qed

end

section \<open>Runs of commits\<close>

text \<open>A run commits a sequence of times, each saved under one of the two keys of the run in turn.\<close>

fun save_all ::
    "'s metadata_ops \<Rightarrow> metadata_codec \<Rightarrow> timestamp total_frontier list \<Rightarrow> 's metadata_accessor
      \<Rightarrow> (metadata_error, 's metadata_accessor) result" where
  "save_all M J [] a = Ok a"
| "save_all M J (t # ts) a =
     and_then (save_current_state M J (accessor_accept_finalized_timestamp t a)) (save_all M J ts)"

text \<open>The text of a state determines it, and no proper part of the text does: what serde's JSON promises
  for an object, which ends with its closing brace.\<close>

locale metadata_json =
  fixes J :: metadata_codec
  assumes parse_complete: "mj_from_str J (trim_end (mj_to_string J m)) = Some m"
    and parse_torn: "strict_prefix p (mj_to_string J m) \<Longrightarrow> mj_from_str J (trim_end p) = None"

locale metadata_run = metadata_backend M good contents + metadata_json J
  for M :: "'s metadata_ops" and good contents J +
  fixes c :: "string \<rightharpoonup> string" and version :: u128 and worker :: u64
  assumes newer: "v \<in> version_set c worker \<Longrightarrow> v < version"
begin

definition run_key :: "u64 \<Rightarrow> string" where
  "run_key i = metadata_key_to_string (from_components version worker i)"

text \<open>The blocks of the run: the key to use next may hold anything, an older block, or nothing;
  the other key holds the latest time.\<close>

definition run_ok :: "timestamp total_frontier \<Rightarrow> 's metadata_accessor \<Rightarrow> bool" where
  "run_ok t a \<longleftrightarrow> good (acc_backend a)
     \<and> (acc_current_key_to_use a, acc_next_key_to_use a) \<in> {(run_key 0, run_key 1), (run_key 1, run_key 0)}
     \<and> (\<forall>k. k \<noteq> run_key 0 \<and> k \<noteq> run_key 1 \<longrightarrow>
            contents (acc_backend a) k = c k \<or> obsolete c k \<and> contents (acc_backend a) k = None)
     \<and> (\<exists>m. contents (acc_backend a) (acc_next_key_to_use a) = Some (mj_to_string J m)
            \<and> sm_last_advanced_timestamp m = t)
     \<and> (\<forall>text. contents (acc_backend a) (acc_current_key_to_use a) = Some text \<longrightarrow>
            (\<exists>m. text = mj_to_string J m \<and> sm_last_advanced_timestamp m \<le> t))"

lemma run_key_parse [simp]: "metadata_key_from_str (run_key i) = Some (from_components version worker i)"
  by (simp add: run_key_def)

lemma run_key_inject [simp]: "run_key i = run_key j \<longleftrightarrow> i = j"
  by (simp add: run_key_def from_components_def)

lemma version_not_in: "metadata_key_from_str k = Some mk \<Longrightarrow> mk_worker_id mk = worker \<Longrightarrow> mk_version mk = version \<Longrightarrow> c k = None"
proof (rule ccontr)
  assume k: "metadata_key_from_str k = Some mk" "mk_worker_id mk = worker" "mk_version mk = version" "c k \<noteq> None"
  then have "version \<in> version_set c worker" by (force simp: version_set_def)
  with newer show False by blast
qed

lemma run_key_not_in [simp]: "c (run_key i) = None"
  by (rule version_not_in [OF run_key_parse]) (simp_all add: from_components_def)

lemma save_run_ok:
  assumes "run_ok t a" and "t \<le> t'"
    and "save_current_state M J (accessor_accept_finalized_timestamp t' a) = Ok a'"
  shows "run_ok t' a'"
proof -
  let ?m = "(acc_internal_state a)\<lparr>sm_last_advanced_timestamp := t'\<rparr>"
  obtain s where put: "mb_put_value M (acc_current_key_to_use a) (mj_to_string J ?m) (acc_backend a) = Ok s"
    and a': "acc_backend a' = s" "acc_current_key_to_use a' = acc_next_key_to_use a"
      "acc_next_key_to_use a' = acc_current_key_to_use a"
    using assms(3) by (auto simp: save_current_state_def accessor_accept_finalized_timestamp_def result_simps)
  have "metadata_key_from_str (acc_current_key_to_use a) \<noteq> None" using assms(1) by (auto simp: run_ok_def)
  moreover have "good (acc_backend a)" using assms(1) by (simp add: run_ok_def)
  ultimately have s: "good s" "contents s = (contents (acc_backend a))(acc_current_key_to_use a \<mapsto> mj_to_string J ?m)"
    using put_value put by blast+
  show ?thesis
    using assms(1,2) unfolding run_ok_def a' s(2) by (auto simp: s(1))
qed

text \<open>Before the first save, the store has only lost obsolete blocks.\<close>

definition fresh :: "'s metadata_accessor \<Rightarrow> bool" where
  "fresh a \<longleftrightarrow> pruned c (acc_backend a) \<and> acc_current_key_to_use a = run_key 0 \<and> acc_next_key_to_use a = run_key 1"

lemma accessor_new_fresh:
  "accessor_new M J version s worker = Ok a \<Longrightarrow> good s \<Longrightarrow> contents s = c \<Longrightarrow> fresh a"
  using accessor_new_latest(2,4,5) [of J version s worker a] by (simp add: fresh_def run_key_def)

lemma first_save_run_ok:
  assumes "fresh a" and "save_current_state M J (accessor_accept_finalized_timestamp t a) = Ok a'"
  shows "run_ok t a'"
proof -
  let ?m = "(acc_internal_state a)\<lparr>sm_last_advanced_timestamp := t\<rparr>"
  obtain s' where put: "mb_put_value M (run_key 0) (mj_to_string J ?m) (acc_backend a) = Ok s'"
    and a': "acc_backend a' = s'" "acc_current_key_to_use a' = run_key 1" "acc_next_key_to_use a' = run_key 0"
    using assms by (auto simp: fresh_def save_current_state_def accessor_accept_finalized_timestamp_def result_simps)
  have pruned: "good (acc_backend a)" "\<And>k. contents (acc_backend a) k = c k \<or> obsolete c k \<and> contents (acc_backend a) k = None"
    using assms(1) by (auto simp: fresh_def pruned_def)
  then have s': "good s'" "contents s' = (contents (acc_backend a))(run_key 0 \<mapsto> mj_to_string J ?m)"
    using put_value [OF _ _ put] by simp_all
  have "contents (acc_backend a) (run_key 1) = None" using pruned(2) [of "run_key 1"] by auto
  then show ?thesis
    using pruned(2) unfolding run_ok_def a' s'(2) by (auto simp: s'(1))
qed

lemma save_all_run_ok:
  assumes "run_ok t a" and "sorted (t # ts)" and "save_all M J ts a = Ok a'"
  shows "run_ok (last (t # ts)) a'"
  using assms
proof (induction ts arbitrary: t a)
  case Nil
  then show ?case by simp
next
  case (Cons t' ts)
  then obtain a1 where "save_current_state M J (accessor_accept_finalized_timestamp t' a) = Ok a1"
    "save_all M J ts a1 = Ok a'" by (auto simp: result_simps)
  then show ?case using Cons save_run_ok [of t a t' a1] by simp
qed

text \<open>Of the worker's blocks only those of the run count, once the run has written one.\<close>

definition of_run :: "(string \<rightharpoonup> string) \<Rightarrow> bool" where
  "of_run d \<longleftrightarrow> (\<forall>k. k \<noteq> run_key 0 \<and> k \<noteq> run_key 1 \<longrightarrow> d k = c k \<or> obsolete c k \<and> d k = None)"

lemma run_ok_of_run: "run_ok t a \<Longrightarrow> of_run (contents (acc_backend a))"
  by (simp add: run_ok_def of_run_def)

lemma of_run_update: "of_run d \<Longrightarrow> i \<in> {0, 1} \<Longrightarrow> of_run (d(run_key i := x))"
  by (auto simp: of_run_def)

lemma of_run_others: "of_run d \<Longrightarrow> w \<noteq> worker \<Longrightarrow> block_times J d (dom d) w = block_times J c (dom c) w"
proof (rule pruned_for_block_times, unfold pruned_for_def, intro allI impI)
  fix k mk
  assume d: "of_run d" "w \<noteq> worker" and key: "metadata_key_from_str k = Some mk \<and> mk_worker_id mk = w"
  then have "k \<noteq> run_key 0" "k \<noteq> run_key 1" by (auto simp: from_components_def)
  with d(1) show "d k = c k \<or> obsolete c k \<and> d k = None" by (simp add: of_run_def)
qed

lemma of_run_version:
  assumes "of_run d" and "k \<in> dom d" and "metadata_key_from_str k = Some mk" and "mk_worker_id mk = worker"
  shows "mk_version mk \<le> version \<and> (mk_version mk = version \<longrightarrow> k \<in> {run_key 0, run_key 1})"
proof (cases "k \<in> {run_key 0, run_key 1}")
  case True
  then show ?thesis using assms(3) by (auto simp: from_components_def)
next
  case False
  then have "k \<in> dom c" using assms(1,2) by (fastforce simp: of_run_def dom_def)
  then have "mk_version mk < version" using newer version_setI [OF _ assms(3)] assms(4) by simp
  then show ?thesis by (auto simp: less_imp_le)
qed

lemma of_run_times:
  assumes "of_run d" and "i \<in> {0, 1}" and "run_key i \<in> dom d"
  shows "block_times J d (dom d) worker =
    (\<Union>j \<in> {0, 1}. sm_last_advanced_timestamp ` set_option (block_of J d (run_key j)))"
proof -
  have version: "version \<in> version_set d worker"
    using version_setI [OF assms(3) run_key_parse] by (simp add: from_components_def)
  have le: "v \<le> version" if "v \<in> version_set d worker" for v
    using that of_run_version [OF assms(1)] by (auto simp: version_set_def)
  have in_run: "k \<in> {run_key 0, run_key 1}"
    if "k \<in> dom d" "metadata_key_from_str k = Some mk" "mk_worker_id mk = worker" "\<not> obsolete d k" for k mk
    using of_run_version [OF assms(1) that(1-3)] that version by (auto simp: obsolete_def)
  have run: "\<not> obsolete d (run_key j)" for j
    using le by (auto simp: obsolete_def from_components_def not_less)
  have dom: "block_of J d k = Some b \<Longrightarrow> k \<in> dom d" for k b by (cases "d k") (auto simp: block_of_def)
  show ?thesis
  proof (intro equalityI subsetI)
    fix x
    assume "x \<in> block_times J d (dom d) worker"
    then obtain k mk b where "k \<in> {run_key 0, run_key 1}" "block_of J d k = Some b" "x = sm_last_advanced_timestamp b"
      using in_run unfolding block_times_iff by blast
    then show "x \<in> (\<Union>j \<in> {0, 1}. sm_last_advanced_timestamp ` set_option (block_of J d (run_key j)))" by auto
  next
    fix x
    assume "x \<in> (\<Union>j \<in> {0, 1}. sm_last_advanced_timestamp ` set_option (block_of J d (run_key j)))"
    then obtain b j where "block_of J d (run_key j) = Some b" "x = sm_last_advanced_timestamp b" by (auto simp: elem_set)
    then show "x \<in> block_times J d (dom d) worker"
      using run dom run_key_parse unfolding block_times_iff
      by (metis from_components_def metadata_key.select_convs(2))
  qed
qed

lemma block_of_torn:
  assumes "prefix p (mj_to_string J m)"
  shows "block_of J (d(k \<mapsto> p)) k = (if p = mj_to_string J m then Some m else None)"
  using assms parse_complete parse_torn [of p m] by (auto simp: block_of_def strict_prefix_def)

lemma run_ok_latest:
  assumes "run_ok t a"
  defines "d \<equiv> contents (acc_backend a)"
  shows "is_latest (block_times J d (dom d) worker) (Some t)"
proof -
  obtain i j where ij: "i \<in> {0, 1}" "j \<in> {0, 1}" "i \<noteq> j" "acc_current_key_to_use a = run_key i"
    "acc_next_key_to_use a = run_key j"
    using assms(1) by (auto simp: run_ok_def)
  obtain m0 where m0: "d (run_key j) = Some (mj_to_string J m0)" "sm_last_advanced_timestamp m0 = t"
    using assms(1) ij(5) by (auto simp: run_ok_def d_def)
  have "of_run d" unfolding d_def by (rule run_ok_of_run [OF assms(1)])
  then have times: "block_times J d (dom d) worker =
      (\<Union>j \<in> {0, 1}. sm_last_advanced_timestamp ` set_option (block_of J d (run_key j)))"
    by (rule of_run_times [OF _ ij(2)]) (simp add: m0 dom_def)
  have "block_of J d (run_key j) = Some m0" using m0(1) parse_complete by (simp add: block_of_def)
  moreover have "sm_last_advanced_timestamp b \<le> t" if "block_of J d (run_key i) = Some b" for b
    using that assms(1) parse_complete unfolding block_of_def d_def run_ok_def ij(4)
    by (cases "contents (acc_backend a) (run_key i)") auto
  moreover have "{0, 1} = {i, j}" using ij(1-3) by auto
  ultimately show ?thesis
    unfolding times using m0(2) by (auto simp: is_latest_def)
qed

lemma fresh_of_run: "fresh a \<Longrightarrow> of_run (contents (acc_backend a)) \<and> contents (acc_backend a) (run_key 1) = None"
  unfolding fresh_def pruned_def of_run_def by (metis run_key_not_in)

lemma torn_save_latest:
  assumes "run_ok t a" and "t \<le> sm_last_advanced_timestamp m" and "prefix p (mj_to_string J m)"
  defines "d \<equiv> (contents (acc_backend a))(acc_current_key_to_use a \<mapsto> p)"
  shows "is_latest (block_times J d (dom d) worker)
    (Some (if p = mj_to_string J m then sm_last_advanced_timestamp m else t))"
proof -
  obtain i j where ij: "i \<in> {0, 1}" "j \<in> {0, 1}" "i \<noteq> j" "acc_current_key_to_use a = run_key i"
    "acc_next_key_to_use a = run_key j"
    using assms(1) by (auto simp: run_ok_def)
  have "of_run d" unfolding d_def ij(4) using of_run_update [OF run_ok_of_run [OF assms(1)] ij(1)] .
  then have times: "block_times J d (dom d) worker =
      (\<Union>j \<in> {0, 1}. sm_last_advanced_timestamp ` set_option (block_of J d (run_key j)))"
    by (rule of_run_times [OF _ ij(1)]) (simp add: d_def ij(4))
  obtain m0 where m0: "contents (acc_backend a) (run_key j) = Some (mj_to_string J m0)" "sm_last_advanced_timestamp m0 = t"
    using assms(1) ij(5) by (auto simp: run_ok_def)
  have "block_of J d (run_key j) = Some m0"
    using m0(1) ij(3) parse_complete by (simp add: d_def ij(4) block_of_def)
  moreover have "block_of J d (run_key i) = (if p = mj_to_string J m then Some m else None)"
    unfolding d_def ij(4) by (rule block_of_torn [OF assms(3)])
  moreover have "{0, 1} = {i, j}" using ij(1-3) by auto
  ultimately show ?thesis
    unfolding times using m0(2) assms(2) by (simp add: is_latest_def)
qed

lemma torn_first_save_latest:
  assumes "of_run d" and "strict_prefix p (mj_to_string J m)" and "d (run_key 1) = None"
  shows "is_latest (block_times J (d(run_key 0 \<mapsto> p)) (dom (d(run_key 0 \<mapsto> p))) worker) None"
proof -
  let ?d = "d(run_key 0 \<mapsto> p)"
  have "block_of J ?d (run_key 0) = None" "block_of J ?d (run_key 1) = None"
    using assms(2,3) parse_torn by (auto simp: block_of_def)
  then show ?thesis
    using of_run_times [of ?d 0] of_run_update [OF assms(1), of 0] by (auto simp: is_latest_def)
qed

end

section \<open>Reliable backends\<close>

locale reliable_backend = metadata_backend +
  assumes list_total: "good s \<Longrightarrow> \<exists>ks. mb_list_keys M s = Ok ks"
    and get_total: "good s \<Longrightarrow> contents s k \<noteq> None \<Longrightarrow> \<exists>text. mb_get_value M k s = Ok text"
    and put_total: "good s \<Longrightarrow> metadata_key_from_str k \<noteq> None \<Longrightarrow> \<exists>s'. mb_put_value M k text s = Ok s'"
    and remove_total: "mb_remove_key M k s \<noteq> Panic"
begin

lemma load_blocks_total:
  assumes "\<And>w. is_latest (version_set c w) (map_of vs w)" and "pruned c s" and "set keys \<subseteq> dom c"
  shows "\<exists>r. load_blocks M J vs keys (s, st, th) = Ok r"
  using assms(2,3)
proof (induction keys arbitrary: s st th)
  case Nil
  then show ?case by simp
next
  case (Cons key keys)
  show ?case
  proof (cases "metadata_key_from_str key")
    case None
    then show ?thesis using Cons by simp
  next
    case (Some mk)
    then have "mk_version mk \<in> version_set c (mk_worker_id mk)" using version_setI [of key c mk] Cons.prems(2) by simp
    then obtain v where v: "map_of vs (mk_worker_id mk) = Some v"
      using assms(1) [of "mk_worker_id mk"] by (auto simp: is_latest_def split: option.splits)
    have obs: "mk_version mk < v \<longleftrightarrow> obsolete c key"
      using is_latest_less [of "version_set c (mk_worker_id mk)" v] assms(1) [of "mk_worker_id mk"] v Some
      by (simp add: obsolete_def)
    show ?thesis
    proof (cases "mk_version mk < v")
      case True
      then have "pruned c s'" if "mb_remove_key M key s = Ok s'" for s'
        using Cons.prems(1) obs remove_key [of s key s'] that Some by (auto simp: pruned_def)
      then show ?thesis
        using Cons Some v True remove_total [of key s] by (auto split: result.splits)
    next
      case False
      with obs Cons.prems(1) have "contents s key = c key" unfolding pruned_def by blast
      with Cons.prems(2) have "contents s key \<noteq> None" by auto
      then obtain raw where "mb_get_value M key s = Ok raw"
        using get_total Cons.prems(1) unfolding pruned_def by blast
      then show ?thesis
        using Cons Some v False by (cases "mj_from_str J (trim_end raw)") (auto simp: stored_metadata_parse_def)
    qed
  qed
qed

lemma accessor_new_total: "good s \<Longrightarrow> \<exists>a. accessor_new M J now s w = Ok a"
proof -
  assume s: "good s"
  then obtain ks where ks: "mb_list_keys M s = Ok ks" using list_total by blast
  have dom: "set ks = dom (contents s)" using list_keys [OF s ks] .
  obtain r where "load_blocks M J (last_versions ks []) ks (s, stored_metadata_new, []) = Ok r"
    using load_blocks_total [of "contents s", OF last_versions_exact [OF dom], of s ks J stored_metadata_new "[]"] s dom
    by (force simp: pruned_def)
  then show ?thesis using ks by (cases r) (simp add: accessor_new_def)
qed

lemma save_total:
  "good (acc_backend a) \<Longrightarrow> metadata_key_from_str (acc_current_key_to_use a) \<noteq> None
    \<Longrightarrow> \<exists>a'. save_current_state M J (accessor_accept_finalized_timestamp t a) = Ok a'"
  using put_total [of "acc_backend a" "acc_current_key_to_use a"
      "mj_to_string J ((acc_internal_state a)\<lparr>sm_last_advanced_timestamp := t\<rparr>)"]
  by (auto simp: save_current_state_def accessor_accept_finalized_timestamp_def)

end

text \<open>In a run on a reliable backend every commit is saved.\<close>

locale reliable_run = metadata_run + reliable_backend
begin

lemma save_all_total:
  "run_ok t a \<Longrightarrow> sorted (t # ts) \<Longrightarrow> \<exists>a'. save_all M J ts a = Ok a'"
proof (induction ts arbitrary: t a)
  case Nil
  then show ?case by simp
next
  case (Cons t' ts)
  have "good (acc_backend a)" "metadata_key_from_str (acc_current_key_to_use a) \<noteq> None"
    using Cons.prems(1) by (auto simp: run_ok_def)
  then obtain a1 where a1: "save_current_state M J (accessor_accept_finalized_timestamp t' a) = Ok a1"
    using save_total by blast
  then have "run_ok t' a1" using save_run_ok Cons.prems by simp
  then show ?case using Cons a1 by auto
qed

lemma run_total:
  assumes "good s" and "contents s = c" and "sorted (t # ts)"
  obtains a a' where "accessor_new M J version s worker = Ok a" and "save_all M J (t # ts) a = Ok a'"
    and "run_ok (last (t # ts)) a'"
proof -
  obtain a where a: "accessor_new M J version s worker = Ok a" using accessor_new_total assms(1) by blast
  have "good (acc_backend a)" "metadata_key_from_str (acc_current_key_to_use a) \<noteq> None"
    using accessor_new_latest(2,4) [OF a assms(1)] by (auto simp: pruned_def)
  then obtain a1 where a1: "save_current_state M J (accessor_accept_finalized_timestamp t a) = Ok a1"
    using save_total by blast
  have ok: "run_ok t a1" using first_save_run_ok [OF accessor_new_fresh [OF a assms(1,2)] a1] .
  obtain a' where a': "save_all M J ts a1 = Ok a'" using save_all_total [OF ok assms(3)] by blast
  show thesis using that [OF a _ save_all_run_ok [OF ok assms(3) a']] a1 a' by simp
qed

end

section \<open>The file system backend keeps the contract\<close>

definition fs_contents :: "meta_dir \<Rightarrow> string \<rightharpoonup> string" where
  "fs_contents dir k = (case map_of dir k of Some (Some text) \<Rightarrow> Some text | _ \<Rightarrow> None)"

text \<open>Names are unique, and what is not a file does not have the name of a block.\<close>

definition fs_good :: "meta_dir \<Rightarrow> bool" where
  "fs_good dir \<longleftrightarrow> distinct (map fst dir) \<and> (\<forall>(k, x) \<in> set dir. x = None \<longrightarrow> metadata_key_from_str k = None)"

lemma fs_good_map_of: "fs_good dir \<Longrightarrow> map_of dir k = Some None \<Longrightarrow> metadata_key_from_str k = None"
  using map_of_SomeD by (fastforce simp: fs_good_def)

lemma fs_good_update: "fs_good dir \<Longrightarrow> fs_good (AList.update k (Some text) dir)"
  by (auto simp: fs_good_def AList.distinct_update split: prod.splits dest: set_update_subset [THEN subsetD])

lemma fs_good_delete: "fs_good dir \<Longrightarrow> fs_good (AList.delete k dir)"
  by (auto simp: fs_good_def AList.delete_eq distinct_map inj_on_def split: prod.splits)

lemma fs_contents_update [simp]: "fs_contents (AList.update k (Some text) dir) = (fs_contents dir)(k \<mapsto> text)"
  by (rule ext) (simp add: fs_contents_def update_conv)

lemma fs_contents_delete [simp]: "fs_contents (AList.delete k dir) = (fs_contents dir)(k := None)"
  by (rule ext) (simp add: fs_contents_def delete_conv)

lemma fs_list_keys_dom:
  assumes "fs_good dir"
  shows "fst ` {e \<in> set dir. snd e \<noteq> None} = dom (fs_contents dir)"
proof (rule set_eqI)
  fix k
  have "k \<in> fst ` {e \<in> set dir. snd e \<noteq> None} \<longleftrightarrow> (\<exists>text. (k, Some text) \<in> set dir)" by force
  also have "\<dots> \<longleftrightarrow> (\<exists>text. map_of dir k = Some (Some text))"
    using assms by (simp add: fs_good_def)
  also have "\<dots> \<longleftrightarrow> k \<in> dom (fs_contents dir)"
    by (simp add: fs_contents_def dom_def split: option.splits)
  finally show "k \<in> fst ` {e \<in> set dir. snd e \<noteq> None} \<longleftrightarrow> k \<in> dom (fs_contents dir)" .
qed

interpretation fs: reliable_backend fs_ops fs_good fs_contents
proof unfold_locales
  fix s ks
  assume "fs_good s" "mb_list_keys fs_ops s = Ok ks"
  then show "set ks = dom (fs_contents s)"
    using fs_list_keys_dom [of s] by (auto simp: fs_ops_def fs_list_keys_def)
qed (auto simp: fs_ops_def fs_list_keys_def fs_get_value_def fs_put_value_def fs_remove_key_def fs_contents_def
    fs_good_update fs_good_delete fs_contents_update [unfolded fs_contents_def] split: option.splits if_splits
    dest: fs_good_map_of)

section \<open>The S3 backend keeps the contract\<close>

text \<open>What the crate s3 promises of a bucket: an operation that succeeds acts on the objects.\<close>

locale s3_bucket =
  fixes A :: "'s bucket_api" and good :: "'s \<Rightarrow> bool" and objects :: "'s \<Rightarrow> string \<rightharpoonup> string"
  assumes bucket_list: "good s \<Longrightarrow> ba_list A p s = Ok ks \<Longrightarrow> set ks = {k \<in> dom (objects s). prefix p k}"
    and bucket_get: "good s \<Longrightarrow> ba_get A k s = Ok text \<Longrightarrow> objects s k = Some text"
    and bucket_put: "good s \<Longrightarrow> ba_put A k text s = Ok s' \<Longrightarrow> good s' \<and> objects s' = (objects s)(k \<mapsto> text)"
    and bucket_delete: "good s \<Longrightarrow> ba_delete A k s = Ok s' \<Longrightarrow> good s' \<and> objects s' = (objects s)(k := None)"

lemma strip_keys_Ok:
  "strip_keys root keys = Ok ks \<longleftrightarrow> (\<forall>k \<in> set keys. length root < length k) \<and> ks = map (drop (length root)) keys"
  by (induction keys arbitrary: ks) (auto simp: result_simps)

lemma strip_keys_Panic: "strip_keys root keys = Panic \<longleftrightarrow> (\<exists>k \<in> set keys. length k \<le> length root)"
  by (induction keys) (auto simp: result_simps not_less)

text \<open>An object whose name is the root itself, the marker of a folder, makes the listing panic.\<close>

lemma s3_folder_marker_panics:
  "ba_list A (s3_root_path root) s = Ok keys \<Longrightarrow> s3_root_path root \<in> set keys
    \<Longrightarrow> mb_list_keys (s3_ops A root) s = Panic"
  by (auto simp: s3_ops_def strip_keys_Panic)

sublocale s3_bucket \<subseteq> s3kv: metadata_backend "s3_ops A root" good "\<lambda>s k. objects s (s3_root_path root @ k)" for root
proof unfold_locales
  fix s ks
  assume s: "good s" and "mb_list_keys (s3_ops A root) s = Ok ks"
  then obtain keys where "ba_list A (s3_root_path root) s = Ok keys" "ks = map (drop (length (s3_root_path root))) keys"
    by (auto simp: s3_ops_def result_simps strip_keys_Ok)
  moreover have "{k \<in> dom (objects s). prefix r k} = (\<lambda>k. r @ k) ` dom (\<lambda>k. objects s (r @ k))" for r
    by (auto simp: prefix_def dom_def)
  ultimately show "set ks = dom (\<lambda>k. objects s (s3_root_path root @ k))"
    using bucket_list [OF s] by (simp add: image_image)
qed (auto simp: s3_ops_def full_key_path_def fun_eq_iff dest: bucket_get bucket_put bucket_delete)

text \<open>An instance of the contract: a bucket in memory, which never fails.\<close>

definition plain_bucket :: "(string \<times> string) list bucket_api" where
  "plain_bucket =
     \<lparr>ba_list = (\<lambda>p s. Ok (filter (prefix p) (map fst s))), ba_get = (\<lambda>k s. ok_or MetaS3 (map_of s k)),
      ba_put = (\<lambda>k text s. Ok (AList.update k text s)), ba_delete = (\<lambda>k s. Ok (AList.delete k s))\<rparr>"

interpretation plain_bucket: s3_bucket plain_bucket "\<lambda>_. True" map_of
  by unfold_locales (auto simp: plain_bucket_def result_simps update_conv' delete_conv' dom_map_of_conv_image_fst)

section \<open>What the coordinator finalizes\<close>

datatype tracker_op =
    RegisterInputSource u128 storage_type
  | RegisterSink
  | CreateSnapshotWriter "(write_error, unit) result" u128
  | ReportSink bool "u128 \<Rightarrow> flush_outcome" nat "timestamp option"

fun tracker_step ::
    "'s metadata_ops \<Rightarrow> metadata_codec \<Rightarrow> tracker_op \<Rightarrow> 's worker_persistent_storage
      \<Rightarrow> (metadata_error, 's worker_persistent_storage) result" where
  "tracker_step M J (RegisterInputSource pid st) t = wps_register_input_source pid st t"
| "tracker_step M J RegisterSink t = Ok (snd (register_sink t))"
| "tracker_step M J (CreateSnapshotWriter writer pid) t =
     (case wps_create_snapshot_writer writer pid t of Ok t \<Rightarrow> Ok t | Err _ \<Rightarrow> Ok t | Panic \<Rightarrow> Panic)"
| "tracker_step M J (ReportSink interval_passed flush sink_id ts) t =
     update_sink_finalized_time M J interval_passed flush sink_id ts t"

fun tracker_run ::
    "'s metadata_ops \<Rightarrow> metadata_codec \<Rightarrow> tracker_op list \<Rightarrow> 's worker_persistent_storage
      \<Rightarrow> (metadata_error, 's worker_persistent_storage) result" where
  "tracker_run M J [] t = Ok t"
| "tracker_run M J (op # ops) t = and_then (tracker_step M J op t) (tracker_run M J ops)"

lemma foldl_min: "foldl min (x :: 'a::linorder) xs = Min (set (x # xs))"
proof (induction xs arbitrary: x)
  case (Cons y xs)
  then show ?case by (cases "xs = []") (simp_all add: min.assoc)
qed simp

lemma worker_finalized: "xs \<noteq> [] \<Longrightarrow> foldl min (hd xs) (tl xs) = Min (set (xs :: 'a::linorder list))"
  by (cases xs) (simp_all only: foldl_min list.sel not_Cons_self2 simp_thms)

text \<open>A report leaves the finalized time alone, or saves the minimum of the sinks, which is later, or saves
  the finalized time once more.\<close>

lemma report_cases:
  assumes "update_sink_finalized_time M J interval_passed flush sink_id ts t = Ok t'"
  defines "sinks \<equiv> (wps_sink_threshold_times t)[sink_id := (case ts of None \<Rightarrow> Done | Some ts \<Rightarrow> At ts)]"
  obtains (idle) "wps_metadata_storage t' = wps_metadata_storage t" "wps_sink_threshold_times t' = sinks"
  | (commit) final where "final = max (last_finalized_timestamp t) (Min (set sinks))"
      "Min (set sinks) \<noteq> last_finalized_timestamp t"
      "last_finalized_timestamp t' = final" "wps_sink_threshold_times t' = sinks"
      "save_current_state M J (accessor_accept_finalized_timestamp final (wps_metadata_storage t)) = Ok (wps_metadata_storage t')
       \<or> \<not> is_ok (save_current_state M J (accessor_accept_finalized_timestamp final (wps_metadata_storage t)))"
proof -
  have len: "sink_id < length (wps_sink_threshold_times t)"
    using assms(1) by (auto simp: update_sink_finalized_time_def split: if_splits)
  then have ne: "sinks \<noteq> []" by (auto simp: sinks_def)
  let ?w = "Min (set sinks)" and ?t = "t\<lparr>wps_sink_threshold_times := sinks\<rparr>"
  let ?acc = "wps_accept_finalized_timestamp flush ?w ?t"
  have last: "last_finalized_timestamp ?t = last_finalized_timestamp t" by (simp add: last_finalized_timestamp_def)
  obtain futures final where acc: "?acc = (futures, final)" by (cases ?acc)
  then have final: "final = max (last_finalized_timestamp t) ?w"
    by (auto simp: wps_accept_finalized_timestamp_def last max_def split: if_splits)
  have upd: "(if ?w \<noteq> last_finalized_timestamp t \<and> (?w = Done \<or> interval_passed) then
      if prepare futures True then commit_finalized_timestamp M J final ?t else Ok ?t else Ok ?t) = Ok t'"
    using assms(1) len unfolding update_sink_finalized_time_def sinks_def [symmetric] Let_def
      worker_finalized [OF ne] last acc prod.case by simp
  show thesis
  proof (cases "t' = ?t")
    case True
    then show thesis using idle by simp
  next
    case False
    with upd have w: "?w \<noteq> last_finalized_timestamp t"
      and c: "commit_finalized_timestamp M J (max (last_finalized_timestamp t) ?w) ?t = Ok t'"
      by (auto simp: final split: if_splits)
    show thesis
      by (rule commit [OF refl w])
        (use c in \<open>auto simp: commit_finalized_timestamp_def Let_def last_finalized_timestamp_def
            last_advanced_timestamp_def save_current_state_def accessor_accept_finalized_timestamp_def
            result_simps split: result.splits\<close>)
  qed
qed

definition no_later_than_sinks :: "'s worker_persistent_storage \<Rightarrow> bool" where
  "no_later_than_sinks t \<longleftrightarrow> (\<forall>x \<in> set (wps_sink_threshold_times t). last_finalized_timestamp t \<le> x)"

definition frontier_of :: "timestamp option \<Rightarrow> timestamp total_frontier" where
  "frontier_of ts = (case ts of None \<Rightarrow> Done | Some ts \<Rightarrow> At ts)"

text \<open>Every sink reports times that do not go back, and the sinks were registered before.\<close>

fun ordered_reports :: "timestamp total_frontier list \<Rightarrow> tracker_op list \<Rightarrow> bool" where
  "ordered_reports sinks [] = True"
| "ordered_reports sinks (RegisterSink # ops) = False"
| "ordered_reports sinks (ReportSink i f k ts # ops) =
     (k < length sinks \<and> sinks ! k \<le> frontier_of ts \<and> ordered_reports (sinks[k := frontier_of ts]) ops)"
| "ordered_reports sinks (_ # ops) = ordered_reports sinks ops"

lemma report_monotone:
  assumes "update_sink_finalized_time M J i f k ts t = Ok t'"
  shows "last_finalized_timestamp t \<le> last_finalized_timestamp t'"
  using assms by (cases rule: report_cases) (auto simp: last_finalized_timestamp_def)

lemma report_no_later:
  assumes "update_sink_finalized_time M J i f k ts t = Ok t'" and "no_later_than_sinks t"
    and "wps_sink_threshold_times t ! k \<le> frontier_of ts" and "k < length (wps_sink_threshold_times t)"
  shows "no_later_than_sinks t'"
proof -
  let ?sinks = "(wps_sink_threshold_times t)[k := frontier_of ts]"
  have le: "\<forall>x \<in> set ?sinks. last_finalized_timestamp t \<le> x"
  proof
    fix x
    assume "x \<in> set ?sinks"
    then have "x = frontier_of ts \<or> x \<in> set (wps_sink_threshold_times t)"
      using set_update_subset_insert by fastforce
    moreover have "last_finalized_timestamp t \<le> frontier_of ts"
      using assms(2-4) nth_mem [OF assms(4)] unfolding no_later_than_sinks_def by (meson order_trans)
    ultimately show "last_finalized_timestamp t \<le> x" using assms(2) by (auto simp: no_later_than_sinks_def)
  qed
  show ?thesis
    using assms(1)
  proof (cases rule: report_cases)
    case idle
    then show ?thesis using le by (simp add: no_later_than_sinks_def last_finalized_timestamp_def frontier_of_def)
  next
    case (commit final)
    have "set ?sinks \<noteq> {}" using assms(4) by (auto simp: list_update_nonempty)
    then have "final = Min (set ?sinks)" using le commit(1) by (simp add: frontier_of_def max_absorb2)
    then show ?thesis using commit(3,4) by (simp add: no_later_than_sinks_def frontier_of_def)
  qed
qed

lemma report_sinks:
  "update_sink_finalized_time M J i f k ts t = Ok t' \<Longrightarrow>
     wps_sink_threshold_times t' = (wps_sink_threshold_times t)[k := frontier_of ts]"
  by (erule report_cases) (simp_all add: frontier_of_def)

lemma run_no_later:
  assumes "tracker_run M J ops t = Ok t'" and "ordered_reports (wps_sink_threshold_times t) ops"
    and "no_later_than_sinks t"
  shows "last_finalized_timestamp t \<le> last_finalized_timestamp t' \<and> no_later_than_sinks t'"
  using assms
proof (induction ops arbitrary: t)
  case Nil
  then show ?case by simp
next
  case (Cons op ops)
  obtain t1 where t1: "tracker_step M J op t = Ok t1" "tracker_run M J ops t1 = Ok t'"
    using Cons.prems(1) by (auto simp: result_simps)
  have "last_finalized_timestamp t \<le> last_finalized_timestamp t1 \<and> no_later_than_sinks t1
      \<and> ordered_reports (wps_sink_threshold_times t1) ops"
  proof (cases op)
    case (ReportSink i f k ts)
    then show ?thesis
      using t1(1) Cons.prems(2,3) report_monotone report_no_later report_sinks by fastforce
  qed (use t1(1) Cons.prems(2,3) in \<open>auto simp: wps_register_input_source_def wps_create_snapshot_writer_def
      no_later_than_sinks_def last_finalized_timestamp_def last_advanced_timestamp_def
      accessor_register_input_source_def result_simps split: if_splits result.splits\<close>)
  then show ?case using Cons.IH t1(2) order_trans by blast
qed

text \<open>When every sink is done and no flush is dropped, the finalized time is the end.\<close>

fun sinks_after :: "timestamp total_frontier list \<Rightarrow> tracker_op list \<Rightarrow> timestamp total_frontier list" where
  "sinks_after sinks [] = sinks"
| "sinks_after sinks (ReportSink i f k ts # ops) = sinks_after (sinks[k := frontier_of ts]) ops"
| "sinks_after sinks (_ # ops) = sinks_after sinks ops"

definition flushed_report :: "nat \<Rightarrow> tracker_op \<Rightarrow> bool" where
  "flushed_report n op \<longleftrightarrow>
     (case op of ReportSink i flush k ts \<Rightarrow> k < n \<and> (\<forall>pid. flush pid \<noteq> FlushCanceled) | _ \<Rightarrow> False)"

lemma prepare_received: "FlushCanceled \<notin> set fs \<Longrightarrow> prepare fs True"
  by (induction fs) (auto split: flush_outcome.splits)

lemma commit_total:
  assumes "\<And>k text s. mb_put_value M k text s \<noteq> Panic"
  shows "\<exists>t'. commit_finalized_timestamp M J final t = Ok t' \<and> last_finalized_timestamp t' = final"
proof -
  let ?a = "accessor_accept_finalized_timestamp final (wps_metadata_storage t)"
  show ?thesis
    using assms [of "acc_current_key_to_use ?a" "mj_to_string J (acc_internal_state ?a)" "acc_backend ?a"]
    by (cases "mb_put_value M (acc_current_key_to_use ?a) (mj_to_string J (acc_internal_state ?a)) (acc_backend ?a)")
      (auto simp: commit_finalized_timestamp_def save_current_state_def last_finalized_timestamp_def
        last_advanced_timestamp_def accessor_accept_finalized_timestamp_def)
qed

lemma Done_le_iff: "Done \<le> x \<longleftrightarrow> x = (Done :: 't::linorder total_frontier)"
  by (cases x) simp_all

lemma At_0_le: "At 0 \<le> (x :: timestamp total_frontier)"
  by (cases x) simp_all

lemma report_done:
  assumes "\<And>k text s. mb_put_value M k text s \<noteq> Panic" and "k < length (wps_sink_threshold_times t)"
    and "\<And>pid. flush pid \<noteq> FlushCanceled"
  shows "\<exists>t'. update_sink_finalized_time M J i flush k ts t = Ok t'
    \<and> (set (wps_sink_threshold_times t') = {Done} \<longrightarrow> last_finalized_timestamp t' = Done)"
proof -
  let ?sinks = "(wps_sink_threshold_times t)[k := frontier_of ts]"
  let ?t = "t\<lparr>wps_sink_threshold_times := ?sinks\<rparr>"
  have ne: "?sinks \<noteq> []" using assms(2) by (auto simp: list_update_nonempty)
  obtain futures final where acc: "wps_accept_finalized_timestamp flush (Min (set ?sinks)) ?t = (futures, final)"
    by fastforce
  then have p: "prepare futures True"
    using assms(3) [THEN not_sym]
    by (intro prepare_received) (auto simp: wps_accept_finalized_timestamp_def split: if_splits)
  have upd: "update_sink_finalized_time M J i flush k ts t =
      (if Min (set ?sinks) \<noteq> last_finalized_timestamp ?t \<and> (Min (set ?sinks) = Done \<or> i)
       then commit_finalized_timestamp M J final ?t else Ok ?t)"
    using assms(2) p unfolding update_sink_finalized_time_def frontier_of_def [symmetric] Let_def
      worker_finalized [OF ne] acc prod.case by simp
  obtain t1 where t1: "commit_finalized_timestamp M J final ?t = Ok t1" "last_finalized_timestamp t1 = final"
    using commit_total [OF assms(1)] by blast
  obtain t' where t': "update_sink_finalized_time M J i flush k ts t = Ok t'" using upd t1(1) by metis
  have "last_finalized_timestamp t' = Done" if "set (wps_sink_threshold_times t') = {Done}"
  proof -
    have "Min (set ?sinks) = Done" using that report_sinks [OF t'] by simp
    moreover from this acc have "final = Done \<or> last_finalized_timestamp ?t = Done"
      by (auto simp: wps_accept_finalized_timestamp_def Done_le_iff split: if_splits)
    ultimately show ?thesis using t' upd t1 by (auto split: if_splits)
  qed
  then show ?thesis using t' by blast
qed

lemma run_done:
  assumes "\<And>k text s. mb_put_value M k text s \<noteq> Panic"
    and "\<forall>op \<in> set ops. flushed_report (length (wps_sink_threshold_times t)) op"
    and "set (wps_sink_threshold_times t) = {Done} \<Longrightarrow> last_finalized_timestamp t = Done"
  shows "\<exists>t'. tracker_run M J ops t = Ok t'
    \<and> wps_sink_threshold_times t' = sinks_after (wps_sink_threshold_times t) ops
    \<and> (set (wps_sink_threshold_times t') = {Done} \<longrightarrow> last_finalized_timestamp t' = Done)"
  using assms(2,3)
proof (induction ops arbitrary: t)
  case Nil
  then show ?case by simp
next
  case (Cons op ops)
  have report: "flushed_report (length (wps_sink_threshold_times t)) op" using Cons.prems(1) by simp
  then obtain i flush k ts where op1: "op = ReportSink i flush k ts" by (cases op) (auto simp: flushed_report_def)
  with report have op: "op = ReportSink i flush k ts" "k < length (wps_sink_threshold_times t)"
    "\<And>pid. flush pid \<noteq> FlushCanceled"
    by (auto simp: flushed_report_def)
  obtain t1 where t1: "update_sink_finalized_time M J i flush k ts t = Ok t1"
    "set (wps_sink_threshold_times t1) = {Done} \<longrightarrow> last_finalized_timestamp t1 = Done"
    using report_done [where flush = flush and J = J and i = i and ts = ts, OF assms(1) op(2,3)] by blast
  have "\<exists>t'. tracker_run M J ops t1 = Ok t' \<and> wps_sink_threshold_times t' = sinks_after (wps_sink_threshold_times t1) ops
      \<and> (set (wps_sink_threshold_times t') = {Done} \<longrightarrow> last_finalized_timestamp t' = Done)"
    using Cons.prems(1) t1(2) report_sinks [OF t1(1)] by (intro Cons.IH) simp_all
  then show ?case using op(1) t1(1) report_sinks [OF t1(1)] by simp
qed

section \<open>The coordinator over a reliable backend\<close>

context reliable_run begin

definition tracked :: "'a metadata_accessor \<Rightarrow> bool" where
  "tracked a \<longleftrightarrow> (if last_advanced_timestamp a = At 0 then fresh a else run_ok (last_advanced_timestamp a) a)"

lemma tracked_report:
  assumes "update_sink_finalized_time M J i f k ts t = Ok t'" and "tracked (wps_metadata_storage t)"
  shows "tracked (wps_metadata_storage t')"
  using assms(1)
proof (cases rule: report_cases)
  case idle
  then show ?thesis using assms(2) by simp
next
  case (commit final)
  let ?a = "wps_metadata_storage t" and ?a' = "wps_metadata_storage t'"
  have last: "last_advanced_timestamp ?a' = final" using commit(3) by (simp add: last_finalized_timestamp_def)
  have pos: "final \<noteq> At 0"
    using commit(1,2) At_0_le by (auto simp: max_def split: if_splits intro: antisym)
  have "good (acc_backend ?a)" "metadata_key_from_str (acc_current_key_to_use ?a) \<noteq> None"
    using assms(2) by (auto simp: tracked_def fresh_def pruned_def run_ok_def split: if_splits)
  then have save: "save_current_state M J (accessor_accept_finalized_timestamp final ?a) = Ok ?a'"
    using save_total [of ?a J final] commit(5) by (auto simp: is_ok_iff)
  have "last_advanced_timestamp ?a \<le> final" using commit(1) by (simp add: last_finalized_timestamp_def)
  then have "run_ok final ?a'"
    using assms(2) save first_save_run_ok save_run_ok by (auto simp: tracked_def split: if_splits)
  then show ?thesis using last pos by (simp add: tracked_def)
qed

lemma tracked_register [simp]: "tracked (accessor_register_input_source pid st a) = tracked a"
  by (simp add: tracked_def fresh_def run_ok_def last_advanced_timestamp_def accessor_register_input_source_def)

lemma tracked_run:
  assumes "tracker_run M J ops t = Ok t'" and "tracked (wps_metadata_storage t)"
  shows "tracked (wps_metadata_storage t')"
  using assms
proof (induction ops arbitrary: t)
  case Nil
  then show ?case by simp
next
  case (Cons op ops)
  obtain t1 where t1: "tracker_step M J op t = Ok t1" "tracker_run M J ops t1 = Ok t'"
    using Cons.prems(1) by (auto simp: result_simps)
  have "tracked (wps_metadata_storage t1)"
  proof (cases op)
    case (ReportSink i f k ts)
    then show ?thesis using t1(1) Cons.prems(2) tracked_report by simp
  qed (use t1(1) Cons.prems(2) in \<open>auto simp: wps_register_input_source_def register_sink_def
      wps_create_snapshot_writer_def Let_def result_simps split: if_splits result.splits\<close>)
  then show ?case using Cons.IH t1(2) by blast
qed

lemma restart_threshold:
  assumes "tracked a" and "is_latest (block_times J c (dom c) worker) before"
  shows "\<exists>b. accessor_new M J now (acc_backend a) w = Ok b
    \<and> map_of (acc_past_runs_threshold_times b) worker =
      (if last_advanced_timestamp a = At 0 then before else Some (last_advanced_timestamp a))"
proof -
  have good: "good (acc_backend a)" using assms(1) by (auto simp: tracked_def fresh_def pruned_def run_ok_def split: if_splits)
  then obtain b where b: "accessor_new M J now (acc_backend a) w = Ok b" using accessor_new_total by blast
  let ?d = "contents (acc_backend a)"
  have "is_latest (block_times J ?d (dom ?d) worker)
      (if last_advanced_timestamp a = At 0 then before else Some (last_advanced_timestamp a))"
  proof (cases "last_advanced_timestamp a = At 0")
    case True
    then have "pruned_for worker c ?d" using assms(1) by (simp add: tracked_def fresh_def pruned_def pruned_for_def)
    then show ?thesis using True assms(2) pruned_for_block_times by simp
  next
    case False
    then show ?thesis using assms(1) run_ok_latest by (simp add: tracked_def)
  qed
  then show ?thesis using b is_latest_unique [OF accessor_new_latest(1) [OF b good]] by blast
qed

lemma run_ok_good: "run_ok t a \<Longrightarrow> good (acc_backend a)"
  by (simp add: run_ok_def)

lemma fresh_good: "fresh a \<Longrightarrow> good (acc_backend a)"
  by (simp add: fresh_def pruned_def)

lemma of_run_restart:
  assumes "of_run (contents s)" and "good s" and "\<And>u. is_latest (block_times J c (dom c) u) (before u)"
    and "is_latest (block_times J (contents s) (dom (contents s)) worker) r"
  shows "\<exists>b. accessor_new M J now s w = Ok b \<and> map_of (acc_past_runs_threshold_times b) worker = r
    \<and> (\<forall>u. u \<noteq> worker \<longrightarrow> map_of (acc_past_runs_threshold_times b) u = before u)"
proof -
  obtain b where b: "accessor_new M J now s w = Ok b" using accessor_new_total assms(2) by blast
  note latest = accessor_new_latest(1) [OF b assms(2)]
  have "map_of (acc_past_runs_threshold_times b) u = before u" if "u \<noteq> worker" for u
    using is_latest_unique [OF latest] assms(3) of_run_others [OF assms(1) that] by simp
  moreover have "map_of (acc_past_runs_threshold_times b) worker = r"
    using is_latest_unique [OF latest assms(4)] .
  ultimately show ?thesis using b by blast
qed

lemma torn_restart:
  assumes "run_ok t a" and "t \<le> sm_last_advanced_timestamp m" and "prefix p (mj_to_string J m)"
    and "good s" and "contents s = (contents (acc_backend a))(acc_current_key_to_use a \<mapsto> p)"
    and "\<And>u. is_latest (block_times J c (dom c) u) (before u)"
  shows "\<exists>b. accessor_new M J now s w = Ok b
    \<and> map_of (acc_past_runs_threshold_times b) worker =
        Some (if p = mj_to_string J m then sm_last_advanced_timestamp m else t)
    \<and> (\<forall>u. u \<noteq> worker \<longrightarrow> map_of (acc_past_runs_threshold_times b) u = before u)"
proof (rule of_run_restart [OF _ assms(4,6)])
  show "of_run (contents s)"
    using assms(1,5) of_run_update [OF run_ok_of_run [OF assms(1)]] by (auto simp: run_ok_def)
  show "is_latest (block_times J (contents s) (dom (contents s)) worker)
      (Some (if p = mj_to_string J m then sm_last_advanced_timestamp m else t))"
    unfolding assms(5) by (rule torn_save_latest [OF assms(1-3)])
qed

lemma torn_first_restart:
  assumes "fresh a" and "strict_prefix p (mj_to_string J m)"
    and "good s" and "contents s = (contents (acc_backend a))(acc_current_key_to_use a \<mapsto> p)"
    and "\<And>u. is_latest (block_times J c (dom c) u) (before u)"
  shows "\<exists>b. accessor_new M J now s w = Ok b
    \<and> map_of (acc_past_runs_threshold_times b) worker = None
    \<and> (\<forall>u. u \<noteq> worker \<longrightarrow> map_of (acc_past_runs_threshold_times b) u = before u)"
proof (rule of_run_restart [OF _ assms(3,5)])
  note run = fresh_of_run [OF assms(1)]
  have key: "acc_current_key_to_use a = run_key 0" using assms(1) by (simp add: fresh_def)
  show "of_run (contents s)" unfolding assms(4) key using run of_run_update by simp
  show "is_latest (block_times J (contents s) (dom (contents s)) worker) None"
    unfolding assms(4) key using run torn_first_save_latest [OF _ assms(2)] by blast
qed

end

end
