(* ===== verification/S3Snapshots.thy ===== *)
theory S3Snapshots
  imports Snapshots
begin

text \<open>
  The snapshot storage on S3 of connectors/snapshot.rs, whose operations are in \<open>Snapshots\<close>: the
  reader keeps the contract \<open>truncating_source\<close>, although it truncates an object by copying the
  entries read from it into a new object, and the writer and its uploader thread keep every event.
  What is relied on from the S3 service is the locale \<open>s3_storage\<close>.
\<close>

section \<open>The S3 reader keeps the contract\<close>

text \<open>What the code relies on from S3: uploads with at least one part replace an object, uploads
  without parts are rejected, deletions remove an object, and a download delivers it if it exists.\<close>

locale s3_storage = bincode_crate B for B :: "'b bincode" +
  fixes S :: "'b s3_service"
  assumes initiate: "s3_initiate S path"
    and put_part: "s3_put_part S path n bs"
    and complete: "parts \<noteq> [] \<Longrightarrow> s3_complete S path parts bucket = Some (AList.update path (concat parts) bucket)"
    and complete_empty: "s3_complete S path [] bucket = None"
    and deleted: "s3_delete S path bucket = Some (AList.delete path bucket)"
    and fetch: "s3_fetch S bucket path
      = (case map_of bucket path of Some bs \<Rightarrow> (bs, True) | None \<Rightarrow> ([], False))"

definition plain_s3 :: "'b s3_service" where
  "plain_s3 = \<lparr>s3_initiate = (\<lambda>_. True), s3_put_part = (\<lambda>_ _ _. True),
     s3_complete = (\<lambda>path parts bucket. if parts = [] then None else Some (AList.update path (concat parts) bucket)),
     s3_delete = (\<lambda>path bucket. Some (AList.delete path bucket)),
     s3_fetch = (\<lambda>bucket path. case map_of bucket path of Some bs \<Rightarrow> (bs, True) | None \<Rightarrow> ([], False))\<rparr>"

interpretation plain_s3: s3_storage unit_bincode plain_s3
  by unfold_locales (auto simp: plain_s3_def)

text \<open>The objects under a root, as a directory.\<close>

definition bucket_dir :: "string \<Rightarrow> 'b dir \<Rightarrow> 'b dir" where
  "bucket_dir root bucket =
     map (\<lambda>(k, c). (drop (length root + 1) k, c)) (filter (\<lambda>p. prefix root (fst p)) bucket)"

definition bucket_ok :: "'b bincode \<Rightarrow> string \<Rightarrow> 'b dir \<Rightarrow> bool" where
  "bucket_ok B root bucket \<longleftrightarrow> dir_ok B (bucket_dir root bucket)
     \<and> (\<forall>p \<in> set bucket. prefix root (fst p) \<longrightarrow> prefix (root @ ''/'') (fst p))"

lemma bucket_dir_simps [simp]:
  "bucket_dir root [] = []"
  "bucket_dir root ((object_key root n, c) # bucket) = (n, c) # bucket_dir root bucket"
  "\<not> prefix root k \<Longrightarrow> bucket_dir root ((k, c) # bucket) = bucket_dir root bucket"
  by (simp_all add: bucket_dir_def object_key_def)

lemma object_key_inject [simp]: "object_key root m = object_key root n \<longleftrightarrow> m = n"
  by (simp add: object_key_def)

lemma prefix_object_key [simp]: "prefix root (object_key root n)"
  by (simp add: object_key_def)

lemma bucket_cases [consumes 1, case_names Nil key other]:
  assumes "\<forall>p \<in> set bucket. prefix root (fst p) \<longrightarrow> prefix (root @ ''/'') (fst p)"
    and "P []"
    and "\<And>n c bucket. P bucket \<Longrightarrow> P ((object_key root n, c) # bucket)"
    and "\<And>k c bucket. \<not> prefix root k \<Longrightarrow> P bucket \<Longrightarrow> P ((k, c) # bucket)"
  shows "P bucket"
  using assms(1)
proof (induction bucket)
  case (Cons p bucket)
  obtain k c where p: "p = (k, c)" by (cases p)
  show ?case
  proof (cases "prefix root k")
    case True
    with Cons.prems p obtain n where "k = object_key root n" by (auto simp: prefix_def object_key_def)
    with Cons assms(3) p show ?thesis by simp
  qed (use Cons assms(4) p in simp)
qed (rule assms(2))

lemma bucket_lookup:
  assumes "\<forall>p \<in> set bucket. prefix root (fst p) \<longrightarrow> prefix (root @ ''/'') (fst p)"
  shows "map_of bucket (object_key root n) = map_of (bucket_dir root bucket) n"
  using assms by (induction rule: bucket_cases) auto

lemma bucket_delete:
  assumes "\<forall>p \<in> set bucket. prefix root (fst p) \<longrightarrow> prefix (root @ ''/'') (fst p)"
  shows "bucket_dir root (AList.delete (object_key root n) bucket) = AList.delete n (bucket_dir root bucket)"
  using assms by (induction rule: bucket_cases) (auto simp: AList.delete_eq)

lemma bucket_update:
  assumes "\<forall>p \<in> set bucket. prefix root (fst p) \<longrightarrow> prefix (root @ ''/'') (fst p)"
  shows "bucket_dir root (AList.update (object_key root n) c bucket) = AList.update n c (bucket_dir root bucket)"
  using assms by (induction rule: bucket_cases) auto

lemma bucket_names:
  assumes "\<forall>p \<in> set bucket. prefix root (fst p) \<longrightarrow> prefix (root @ ''/'') (fst p)"
  shows "filter (prefix root) (map fst bucket) = map (object_key root) (map fst (bucket_dir root bucket))"
  using assms by (induction rule: bucket_cases) auto

lemma split_on_last: "s \<notin> set ys \<Longrightarrow> split_on s (xs @ s # ys) = split_on s xs @ [ys]"
proof (induction xs)
  case Nil
  then show ?case by (simp add: split_on_no_sep)
next
  case (Cons x xs)
  then show ?case by (cases "split_on s xs") auto
qed

lemma file_name_timestamp: "path_file_name (object_key root (timestamp_to_string t)) = Some (timestamp_to_string t)"
proof -
  have digits: "\<forall>c \<in> set (timestamp_to_string t). is_digit c"
    using show_nat_digits by (auto simp: timestamp_to_string_def)
  then have "CHR ''/'' \<notin> set (timestamp_to_string t)" "CHR ''.'' \<notin> set (timestamp_to_string t)"
    by (auto simp: is_digit_def)
  moreover have "timestamp_to_string t \<noteq> []" by (simp add: timestamp_to_string_def)
  ultimately show ?thesis
    by (auto simp: path_file_name_def object_key_def split_on_last)
qed

lemma s3_reader_times:
  assumes "bucket_ok B root bucket"
  shows "sx_times (s3_reader_new bucket root) = parsed_times (map fst (bucket_dir root bucket))"
proof -
  obtain ts where ts: "map fst (bucket_dir root bucket) = map timestamp_to_string ts"
    using assms by (auto simp: bucket_ok_def dir_ok_def)
  have "List.map_filter path_file_name (map (object_key root \<circ> timestamp_to_string) ts) = map timestamp_to_string ts"
    by (induction ts) (simp_all add: List.map_filter_def file_name_timestamp)
  with assms ts show ?thesis
    by (simp add: s3_reader_new_def bucket_names bucket_ok_def)
qed

text \<open>The invariant of the reader. The clock of \<open>truncate\<close> is ahead of every object, and an object has
  fewer entries than an upload may have parts.\<close>

definition s3_events :: "'b bincode \<Rightarrow> 'b s3_reader \<Rightarrow> timestamp \<Rightarrow> event list" where
  "s3_events B r t = file_events B (bucket_dir (sx_root r) (sx_bucket r)) t"

definition s3_current :: "'b bincode \<Rightarrow> 'b s3_reader \<Rightarrow> event list" where
  "s3_current B r = (if sx_next r = 0 then [] else s3_events B r (sx_times r ! (sx_next r - 1)))"

definition s3_ok :: "'b bincode \<Rightarrow> nat \<Rightarrow> 'b s3_reader \<Rightarrow> bool" where
  "s3_ok B now r \<longleftrightarrow> bucket_ok B (sx_root r) (sx_bucket r)
     \<and> sx_times r = parsed_times (map fst (bucket_dir (sx_root r) (sx_bucket r)))
     \<and> sx_next r \<le> length (sx_times r) \<and> sx_state r \<noteq> Some False
     \<and> now < 2 ^ 64 \<and> (\<forall>t \<in> set (sx_times r). unat t < now \<and> length (s3_events B r t) < 2 ^ 32)
     \<and> sx_chunk_len r \<le> length (s3_current B r)
     \<and> (case sx_reader r of
          None \<Rightarrow> sx_chunk_len r = length (s3_current B r)
        | Some bs \<Rightarrow> 0 < sx_next r \<and> readable B bs \<and> decode_all B bs = drop (sx_chunk_len r) (s3_current B r))"

definition s3_remaining :: "'b bincode \<Rightarrow> 'b s3_reader \<Rightarrow> event list" where
  "s3_remaining B r = drop (sx_chunk_len r) (s3_current B r)
     @ concat (map (s3_events B r) (drop (sx_next r) (sx_times r)))"

definition s3_consumed :: "'b bincode \<Rightarrow> 'b s3_reader \<Rightarrow> event list" where
  "s3_consumed B r = concat (map (s3_events B r) (take (sx_next r - 1) (sx_times r)))
     @ take (sx_chunk_len r) (s3_current B r)"

lemma s3_events_update [simp]:
  "s3_events B (sx_reader_update f r) = s3_events B r" "s3_events B (sx_next_update g r) = s3_events B r"
  "s3_events B (sx_state_update h r) = s3_events B r" "s3_events B (sx_chunk_len_update g r) = s3_events B r"
  by (simp_all add: s3_events_def fun_eq_iff)

lemma s3_current_update [simp]:
  "s3_current B (sx_reader_update f r) = s3_current B r" "s3_current B (sx_state_update h r) = s3_current B r"
  "s3_current B (sx_chunk_len_update g r) = s3_current B r"
  by (simp_all add: s3_current_def)

context s3_storage begin

lemma s3_open_next:
  assumes ok: "s3_ok B now r" and r: "sx_reader r = None" "sx_next r < length (sx_times r)"
  shows "\<exists>c. let r' = r\<lparr>sx_reader := Some c, sx_next := Suc (sx_next r), sx_state := Some True, sx_chunk_len := 0\<rparr>
    in s3_read B S r = s3_read B S r' \<and> s3_ok B now r' \<and> s3_remaining B r' = s3_remaining B r
      \<and> s3_consumed B r' = s3_consumed B r"
proof -
  let ?r = "\<lambda>c. r\<lparr>sx_reader := Some c, sx_next := Suc (sx_next r), sx_state := Some True, sx_chunk_len := 0\<rparr>"
  have ok': "bucket_ok B (sx_root r) (sx_bucket r)" "dir_ok B (bucket_dir (sx_root r) (sx_bucket r))"
    "sx_times r = parsed_times (map fst (bucket_dir (sx_root r) (sx_bucket r)))"
    using ok by (auto simp: s3_ok_def bucket_ok_def)
  let ?t = "sx_times r ! sx_next r"
  have "?t \<in> set (parsed_times (map fst (bucket_dir (sx_root r) (sx_bucket r))))" using r ok'(3) by (metis nth_mem)
  from file_present [OF ok'(2) this] obtain c where
    c: "map_of (bucket_dir (sx_root r) (sx_bucket r)) (timestamp_to_string ?t) = Some c" "readable B c"
      "s3_events B r ?t = decode_all B c" unfolding s3_events_def by blast
  then have "map_of (sx_bucket r) (object_key (sx_root r) (timestamp_to_string ?t)) = Some c"
    using bucket_lookup ok'(1) by (metis bucket_ok_def)
  then have read: "s3_read B S r = s3_read B S (?r c)"
    by (subst s3_read.simps) (use r ok in \<open>simp add: fetch s3_ok_def\<close>)
  have cur: "s3_current B (?r c) = decode_all B c" using c(3) by (simp add: s3_current_def)
  have "s3_ok B now (?r c)" using ok r c(2) cur by (simp add: s3_ok_def)
  moreover have full: "sx_chunk_len r = length (s3_current B r)" using ok r by (simp add: s3_ok_def)
  then have "s3_remaining B (?r c) = s3_remaining B r"
    using r c(3) cur by (simp add: s3_remaining_def Cons_nth_drop_Suc [symmetric])
  moreover have "s3_consumed B (?r c) = s3_consumed B r"
    using r full by (cases "sx_next r") (simp_all add: s3_consumed_def s3_current_def take_Suc_conv_app_nth)
  ultimately show ?thesis using read by (intro exI [of _ c]) (simp add: Let_def)
qed

lemma s3_read_effect:
  assumes "s3_ok B now r"
  shows "\<exists>r'. s3_read B S r = (Ok (case s3_remaining B r of [] \<Rightarrow> EvFinished | e # _ \<Rightarrow> e), r')
    \<and> s3_ok B now r' \<and> s3_remaining B r' = tl (s3_remaining B r)
    \<and> s3_consumed B r' = s3_consumed B r @ take 1 (s3_remaining B r)
    \<and> sx_root r' = sx_root r \<and> sx_bucket r' = sx_bucket r"
  using assms
proof (induction "2 * (length (sx_times r) - sx_next r) + (if sx_reader r = None then 0 else 1)"
    arbitrary: r rule: less_induct)
  case less
  show ?case
  proof (cases "sx_reader r")
    case None
    show ?thesis
    proof (cases "sx_next r < length (sx_times r)")
      case True
      from s3_open_next [OF less.prems None this] obtain c where
        open_c: "let r' = r\<lparr>sx_reader := Some c, sx_next := Suc (sx_next r), sx_state := Some True, sx_chunk_len := 0\<rparr>
          in s3_read B S r = s3_read B S r' \<and> s3_ok B now r' \<and> s3_remaining B r' = s3_remaining B r
            \<and> s3_consumed B r' = s3_consumed B r"
        by blast
      let ?r = "r\<lparr>sx_reader := Some c, sx_next := Suc (sx_next r), sx_state := Some True, sx_chunk_len := 0\<rparr>"
      have c: "s3_read B S r = s3_read B S ?r" "s3_ok B now ?r" "s3_remaining B ?r = s3_remaining B r"
        "s3_consumed B ?r = s3_consumed B r" using open_c by (simp_all add: Let_def)
      have "2 * (length (sx_times ?r) - sx_next ?r) + (if sx_reader ?r = None then 0 else 1)
        < 2 * (length (sx_times r) - sx_next r) + (if sx_reader r = None then 0 else 1)"
        using None True by simp
      from less.hyps [OF this c(2)] c show ?thesis by simp
    next
      case False
      with None less.prems have "s3_remaining B r = []" "s3_read B S r = (Ok EvFinished, r)"
        by (simp_all add: s3_remaining_def s3_ok_def s3_read.simps)
      with less.prems show ?thesis by simp
    qed
  next
    case (Some bs)
    then have ok: "readable B bs" "decode_all B bs = drop (sx_chunk_len r) (s3_current B r)" "0 < sx_next r"
      using less.prems by (auto simp: s3_ok_def)
    from ok(1) show ?thesis
    proof (cases rule: readable_cases)
      case torn
      let ?r = "r\<lparr>sx_reader := None\<rparr>"
      have "s3_read B S r = s3_read B S ?r" by (subst s3_read.simps) (simp add: Some decode_torn [OF torn(1)])
      moreover have "s3_ok B now ?r" using less.prems Some ok torn(2) by (auto simp: s3_ok_def)
      moreover have "s3_remaining B ?r = s3_remaining B r" "s3_consumed B ?r = s3_consumed B r"
        by (simp_all add: s3_remaining_def s3_consumed_def)
      ultimately show ?thesis using less.hyps [of ?r] Some by simp
    next
      case (entry e rest)
      let ?r = "r\<lparr>sx_reader := Some rest, sx_chunk_len := sx_chunk_len r + 1\<rparr>"
      have cur: "drop (sx_chunk_len r) (s3_current B r) = e # decode_all B rest" using ok(2) entry(3) by simp
      then have len: "sx_chunk_len r < length (s3_current B r)" "s3_current B r ! sx_chunk_len r = e"
        "drop (Suc (sx_chunk_len r)) (s3_current B r) = decode_all B rest"
        by (metis drop_all list.discI not_less, metis hd_drop_conv_nth list.sel(1) drop_all list.discI not_less,
            metis drop_Suc list.sel(3) tl_drop)
      have "s3_read B S r = (Ok e, ?r)" by (subst s3_read.simps) (simp add: Some entry(1) roundtrip)
      moreover have "s3_ok B now ?r" using less.prems Some entry(2) len ok by (auto simp: s3_ok_def)
      moreover have "s3_remaining B r = e # s3_remaining B ?r"
        using cur len by (simp add: s3_remaining_def)
      moreover have "s3_consumed B ?r = s3_consumed B r @ [e]"
        using len by (simp add: s3_consumed_def take_Suc_conv_app_nth)
      ultimately show ?thesis by simp
    qed
  qed
qed

lemma put_chunk_ok:
  "length (s3w_parts w) < 2 ^ 32 \<Longrightarrow> put_chunk B S es w = Ok (w\<lparr>s3w_parts := s3w_parts w @ [encode_all B es]\<rparr>)"
  by (simp add: put_chunk_def put_part encode_all_def)

lemma copy_entries_ok:
  assumes "readable B bs" and "n \<le> length (decode_all B bs)" and "length (s3w_parts w) + n < 2 ^ 32"
    and "length chunk < MAX_CHUNK_LEN"
  shows "\<exists>w'. copy_entries B S n bs chunk w = Ok w' \<and> s3w_key w' = s3w_key w
    \<and> concat (s3w_parts w') = concat (s3w_parts w) @ encode_all B (chunk @ take n (decode_all B bs))
    \<and> (chunk @ take n (decode_all B bs) \<noteq> [] \<longrightarrow> s3w_parts w' \<noteq> [])"
  using assms
proof (induction n arbitrary: bs chunk w)
  case 0
  then show ?case by (simp add: put_chunk_ok)
next
  case (Suc n)
  from Suc.prems(1) show ?case
  proof (cases rule: readable_cases)
    case torn
    with Suc.prems(2) show ?thesis by simp
  next
    case (entry e rest)
    show ?thesis
    proof (cases "length (chunk @ [e]) = MAX_CHUNK_LEN")
      case True
      let ?w = "w\<lparr>s3w_parts := s3w_parts w @ [encode_all B (chunk @ [e])]\<rparr>"
      have "put_chunk B S (chunk @ [e]) w = Ok ?w" using Suc.prems(3) by (intro put_chunk_ok) simp
      moreover from Suc.IH [of rest ?w "[]"] Suc.prems entry obtain w' where
        "copy_entries B S n rest [] ?w = Ok w'" "s3w_key w' = s3w_key w"
        "concat (s3w_parts w') = concat (s3w_parts ?w) @ encode_all B (take n (decode_all B rest))"
        by (auto simp: MAX_CHUNK_LEN_def)
      moreover from this(3) have "s3w_parts w' \<noteq> []" using serialize_nonempty by auto
      ultimately show ?thesis using True entry by (simp add: roundtrip)
    next
      case False
      with Suc.prems(4) have "length (chunk @ [e]) < MAX_CHUNK_LEN" by simp
      with Suc.IH [of rest w "chunk @ [e]"] Suc.prems entry obtain w' where
        "copy_entries B S n rest (chunk @ [e]) w = Ok w'" "s3w_key w' = s3w_key w"
        "concat (s3w_parts w') = concat (s3w_parts w) @ encode_all B ((chunk @ [e]) @ take n (decode_all B rest))"
        "s3w_parts w' \<noteq> []"
        by auto
      with False entry show ?thesis by (simp add: roundtrip)
    qed
  qed
qed

lemma delete_objects_ok:
  assumes "\<forall>p \<in> set bucket. prefix root (fst p) \<longrightarrow> prefix (root @ ''/'') (fst p)"
  shows "\<exists>bucket'. delete_objects S root ts bucket = (Ok (), bucket')
    \<and> (\<forall>p \<in> set bucket'. prefix root (fst p) \<longrightarrow> prefix (root @ ''/'') (fst p))
    \<and> bucket_dir root bucket' = filter (\<lambda>p. fst p \<notin> timestamp_to_string ` set ts) (bucket_dir root bucket)"
  using assms
proof (induction ts arbitrary: bucket)
  case (Cons t ts)
  let ?b = "AList.delete (object_key root (timestamp_to_string t)) bucket"
  have "\<forall>p \<in> set ?b. prefix root (fst p) \<longrightarrow> prefix (root @ ''/'') (fst p)"
    using Cons.prems by (auto simp: AList.delete_eq)
  from Cons.IH [OF this] obtain bucket' where b: "delete_objects S root ts ?b = (Ok (), bucket')"
    "\<forall>p \<in> set bucket'. prefix root (fst p) \<longrightarrow> prefix (root @ ''/'') (fst p)"
    "bucket_dir root bucket' = filter (\<lambda>p. fst p \<notin> timestamp_to_string ` set ts) (bucket_dir root ?b)" by blast
  have "bucket_dir root bucket' = filter (\<lambda>p. fst p \<notin> timestamp_to_string ` set ts)
      (AList.delete (timestamp_to_string t) (bucket_dir root bucket))"
    using b(3) bucket_delete [OF Cons.prems] by simp
  also have "\<dots> = filter (\<lambda>p. fst p \<notin> timestamp_to_string ` set (t # ts)) (bucket_dir root bucket)"
    by (auto simp: AList.delete_eq intro!: filter_cong)
  finally show ?case using b(1,2) by (simp add: deleted)
qed simp

lemma save_chunk_ok:
  assumes ok: "s3_ok B now r" and some: "0 < sx_next r" "0 < sx_chunk_len r"
  shows "save_chunk B S now r = Ok (AList.update (object_key (sx_root r) (show_nat now))
    (encode_all B (take (sx_chunk_len r) (s3_current B r))) (sx_bucket r))"
proof -
  let ?t = "sx_times r ! (sx_next r - 1)"
  have ok': "bucket_ok B (sx_root r) (sx_bucket r)" "dir_ok B (bucket_dir (sx_root r) (sx_bucket r))"
    "sx_times r = parsed_times (map fst (bucket_dir (sx_root r) (sx_bucket r)))"
    "sx_next r - 1 < length (sx_times r)"
    using ok some by (auto simp: s3_ok_def bucket_ok_def)
  then have t: "?t \<in> set (sx_times r)" by simp
  then obtain c where
    c: "map_of (bucket_dir (sx_root r) (sx_bucket r)) (timestamp_to_string ?t) = Some c" "readable B c"
      "s3_events B r ?t = decode_all B c"
    using file_present [OF ok'(2), of ?t] ok'(3) unfolding s3_events_def by metis
  have cur: "s3_current B r = decode_all B c" using some c(3) by (simp add: s3_current_def)
  have fetched: "s3_fetch S (sx_bucket r) (object_key (sx_root r) (timestamp_to_string ?t)) = (c, True)"
    using c(1) bucket_lookup [of "sx_bucket r" "sx_root r"] ok'(1) by (simp add: fetch bucket_ok_def)
  have bound: "sx_chunk_len r \<le> length (decode_all B c)" "length (decode_all B c) < 2 ^ 32"
  proof -
    show "sx_chunk_len r \<le> length (decode_all B c)" using ok cur by (simp add: s3_ok_def)
    have "length (s3_events B r ?t) < 2 ^ 32" using ok t unfolding s3_ok_def by blast
    then show "length (decode_all B c) < 2 ^ 32" unfolding c(3) .
  qed
  then have "length (s3w_parts \<lparr>s3w_key = object_key (sx_root r) (show_nat now), s3w_parts = []\<rparr>) + sx_chunk_len r < 2 ^ 32"
    by simp
  from copy_entries_ok [OF c(2) bound(1) this, of "[]"] obtain w' where
    "copy_entries B S (sx_chunk_len r) c [] \<lparr>s3w_key = object_key (sx_root r) (show_nat now), s3w_parts = []\<rparr> = Ok w'"
    "s3w_key w' = object_key (sx_root r) (show_nat now)"
    "concat (s3w_parts w') = encode_all B (take (sx_chunk_len r) (decode_all B c))"
    "take (sx_chunk_len r) (decode_all B c) \<noteq> [] \<longrightarrow> s3w_parts w' \<noteq> []"
    by (auto simp: MAX_CHUNK_LEN_def)
  moreover have "take (sx_chunk_len r) (decode_all B c) \<noteq> []" using some bound(1) by auto
  ultimately show ?thesis
    using some fetched by (simp add: save_chunk_def Let_def s3_writer_new_def initiate s3_finalize_def complete cur)
qed

lemma s3_truncate_effect:
  assumes ok: "s3_ok B now r"
  shows "\<exists>r'. s3_truncate B S now r = (Ok (), r') \<and> sx_root r' = sx_root r
    \<and> bucket_ok B (sx_root r) (sx_bucket r')
    \<and> dir_events B (bucket_dir (sx_root r) (sx_bucket r')) = s3_consumed B r"
proof -
  let ?root = "sx_root r" and ?dir = "bucket_dir (sx_root r) (sx_bucket r)" and ?n = "sx_next r - 1"
  have keys: "\<forall>p \<in> set (sx_bucket r). prefix ?root (fst p) \<longrightarrow> prefix (?root @ ''/'') (fst p)"
    and dir: "dir_ok B ?dir" and times: "sx_times r = parsed_times (map fst ?dir)"
    and now: "now < 2 ^ 64" "\<forall>t \<in> set (sx_times r). unat t < now"
    using ok by (auto simp: s3_ok_def bucket_ok_def)
  have dist: "distinct (sx_times r)" using dir_ok_times(1) [OF dir] times by simp
  show ?thesis
  proof (cases "0 < sx_next r \<and> 0 < sx_chunk_len r")
    case True
    let ?es = "take (sx_chunk_len r) (s3_current B r)"
    let ?b = "AList.update (object_key ?root (show_nat now)) (encode_all B ?es) (sx_bucket r)"
    have keys': "\<forall>p \<in> set ?b. prefix ?root (fst p) \<longrightarrow> prefix (?root @ ''/'') (fst p)"
      using keys set_update_subset [of "object_key ?root (show_nat now)" "encode_all B ?es" "sx_bucket r"]
      by (auto simp: object_key_def)
    have new: "\<forall>t \<in> set (parsed_times (map fst ?dir)). unat t < now" using now(2) times by simp
    have "readable B (encode_all B ?es)" using readable_encode [of "[]" ?es] by simp
    note app = appended_dir [OF dir now(1) new this]
    let ?dir1 = "AList.update (show_nat now) (encode_all B ?es) ?dir"
    have b_dir: "bucket_dir ?root ?b = ?dir1" using bucket_update [OF keys] .
    from delete_objects_ok [OF keys', of "drop ?n (sx_times r)"] obtain b' where
      b': "delete_objects S ?root (drop ?n (sx_times r)) ?b = (Ok (), b')"
        "\<forall>p \<in> set b'. prefix ?root (fst p) \<longrightarrow> prefix (?root @ ''/'') (fst p)"
        "bucket_dir ?root b' = filter (\<lambda>p. fst p \<notin> timestamp_to_string ` set (drop ?n (sx_times r))) ?dir1"
      using b_dir by auto
    note kept = filtered_dir [OF app(1), of "set (drop ?n (sx_times r))"]
    have fresh: "of_nat now \<notin> set (sx_times r)"
      using now by (auto simp: unat_of_nat take_bit_eq_mod)
    then have filt: "filter (\<lambda>t. t \<notin> set (drop ?n (sx_times r))) (parsed_times (map fst ?dir1))
        = take ?n (sx_times r) @ [of_nat now]"
      using app(2) times sort_filter_distinct [OF dist, of ?n] by (auto dest: in_set_dropD)
    have evs: "map (file_events B ?dir1) (take ?n (sx_times r)) = map (s3_events B r) (take ?n (sx_times r))"
      using fresh app(3) by (auto simp: s3_events_def dest: in_set_takeD)
    have "dir_events B (bucket_dir ?root b')
        = concat (map (file_events B ?dir1) (take ?n (sx_times r) @ [of_nat now]))"
      unfolding b'(3) kept(2) filt ..
    also have "\<dots> = s3_consumed B r"
      unfolding map_append concat_append evs using app(3) [of "of_nat now"] by (simp add: s3_consumed_def)
    finally have "dir_events B (bucket_dir ?root b') = s3_consumed B r" .
    with kept(1) b' True save_chunk_ok [OF ok] show ?thesis by (simp add: s3_truncate_def bucket_ok_def)
  next
    case False
    then have saved: "save_chunk B S now r = Ok (sx_bucket r)" by (auto simp: save_chunk_def)
    have cur: "take (sx_chunk_len r) (s3_current B r) = []" using False by (auto simp: s3_current_def)
    from delete_objects_ok [OF keys, of "drop ?n (sx_times r)"] obtain b' where
      b': "delete_objects S ?root (drop ?n (sx_times r)) (sx_bucket r) = (Ok (), b')"
        "\<forall>p \<in> set b'. prefix ?root (fst p) \<longrightarrow> prefix (?root @ ''/'') (fst p)"
        "bucket_dir ?root b' = filter (\<lambda>p. fst p \<notin> timestamp_to_string ` set (drop ?n (sx_times r))) ?dir"
      by blast
    have "file_events B ?dir = s3_events B r" by (simp add: s3_events_def fun_eq_iff)
    then have "dir_events B (bucket_dir ?root b') = s3_consumed B r"
      unfolding b'(3) kept_dir(3) [OF dir times] s3_consumed_def cur by simp
    with kept_dir(2) [OF dir times, of ?n] b' saved show ?thesis by (simp add: s3_truncate_def bucket_ok_def)
  qed
qed

lemma s3_split:
  assumes ok: "s3_ok B now r"
  shows "dir_events B (bucket_dir (sx_root r) (sx_bucket r)) = s3_consumed B r @ s3_remaining B r"
proof -
  have all: "dir_events B (bucket_dir (sx_root r) (sx_bucket r))
    = concat (map (s3_events B r) (take n (sx_times r) @ drop n (sx_times r)))" for n
    using ok by (simp add: dir_events_def s3_ok_def s3_events_def [abs_def])
  show ?thesis
  proof (cases "sx_next r")
    case 0
    then show ?thesis using all [of 0] by (simp add: s3_consumed_def s3_remaining_def s3_current_def)
  next
    case (Suc n)
    moreover have "n < length (sx_times r)" using ok Suc by (auto simp: s3_ok_def)
    ultimately show ?thesis using all [of "Suc n"]
      by (simp add: s3_consumed_def s3_remaining_def s3_current_def take_Suc_conv_app_nth del: append_take_drop_id)
        simp
  qed
qed

end

definition s3_fits :: "'b bincode \<Rightarrow> nat \<Rightarrow> string \<times> 'b dir \<Rightarrow> bool" where
  "s3_fits B now s \<longleftrightarrow> now < 2 ^ 64
     \<and> (\<forall>t \<in> set (parsed_times (map fst (bucket_dir (fst s) (snd s)))).
          unat t < now \<and> length (file_events B (bucket_dir (fst s) (snd s)) t) < 2 ^ 32)"

sublocale s3_storage \<subseteq> s3: truncating_source "s3_impl B S now" "s3_ok B now" "s3_remaining B"
  "s3_consumed B" "\<lambda>r. (sx_root r, sx_bucket r)" "\<lambda>s. bucket_ok B (fst s) (snd s)" "s3_fits B now"
  "\<lambda>s. dir_events B (bucket_dir (fst s) (snd s))" "\<lambda>s. s3_reader_new (snd s) (fst s)" for now
proof unfold_locales
  fix r assume ok: "s3_ok B now r"
  show "\<exists>r'. si_read (s3_impl B S now) r = (Ok (case s3_remaining B r of [] \<Rightarrow> EvFinished | e # _ \<Rightarrow> e), r')
      \<and> s3_ok B now r' \<and> s3_remaining B r' = tl (s3_remaining B r)"
    using s3_read_effect [OF ok] by (auto simp: s3_impl_def)
  show "s3_consumed B (snd (si_read (s3_impl B S now) r)) = s3_consumed B r @ take 1 (s3_remaining B r)"
    using s3_read_effect [OF ok] by (auto simp: s3_impl_def)
  show "(sx_root (snd (si_read (s3_impl B S now) r)), sx_bucket (snd (si_read (s3_impl B S now) r)))
      = (sx_root r, sx_bucket r)"
    using s3_read_effect [OF ok] by (auto simp: s3_impl_def)
  show "\<exists>r'. si_truncate (s3_impl B S now) r = (Ok (), r')
      \<and> bucket_ok B (fst (sx_root r', sx_bucket r')) (snd (sx_root r', sx_bucket r'))
      \<and> dir_events B (bucket_dir (fst (sx_root r', sx_bucket r')) (snd (sx_root r', sx_bucket r'))) = s3_consumed B r"
    using s3_truncate_effect [OF ok] by (auto simp: s3_impl_def)
  show "bucket_ok B (fst (sx_root r, sx_bucket r)) (snd (sx_root r, sx_bucket r))
      \<and> dir_events B (bucket_dir (fst (sx_root r, sx_bucket r)) (snd (sx_root r, sx_bucket r)))
        = s3_consumed B r @ s3_remaining B r"
    using ok s3_split [OF ok] by (simp add: s3_ok_def)
next
  fix s :: "string \<times> 'b dir" assume "bucket_ok B (fst s) (snd s)" "s3_fits B now s"
  moreover from this have "sx_times (s3_reader_new (snd s) (fst s)) = parsed_times (map fst (bucket_dir (fst s) (snd s)))"
    by (simp add: s3_reader_times)
  ultimately show "s3_ok B now (s3_reader_new (snd s) (fst s))
      \<and> (sx_root (s3_reader_new (snd s) (fst s)), sx_bucket (s3_reader_new (snd s) (fst s))) = s
      \<and> s3_consumed B (s3_reader_new (snd s) (fst s)) = []
      \<and> s3_remaining B (s3_reader_new (snd s) (fst s)) = dir_events B (bucket_dir (fst s) (snd s))"
    by (auto simp: s3_ok_def s3_consumed_def s3_remaining_def s3_current_def dir_events_def s3_fits_def
        s3_events_def [abs_def] s3_reader_new_def)
next
  show "si_check_threshold (s3_impl B S now)" by (simp add: s3_impl_def)
qed

section \<open>The S3 writer keeps every event\<close>

text \<open>The steps of a writer: an event is written, a flush is requested, or the uploader thread
  takes a message at a time of its clock.\<close>

datatype s3_op = OpWrite event | OpFlush | OpStep nat

fun s3_run :: "'b bincode \<Rightarrow> 'b s3_service \<Rightarrow> s3_op list \<Rightarrow> 'b s3_snapshot_writer \<Rightarrow> 'b s3_snapshot_writer" where
  "s3_run B S [] w = w"
| "s3_run B S (OpWrite e # ops) w = s3_run B S ops (s3_write e w)"
| "s3_run B S (OpFlush # ops) w = s3_run B S ops (s3_flush w)"
| "s3_run B S (OpStep now # ops) w = s3_run B S ops (uploader_step B S now w)"

fun op_events :: "s3_op list \<Rightarrow> event list" where
  "op_events [] = []"
| "op_events (OpWrite e # ops) = e # op_events ops"
| "op_events (_ # ops) = op_events ops"

fun op_clocks :: "s3_op list \<Rightarrow> nat list" where
  "op_clocks [] = []"
| "op_clocks (OpStep now # ops) = now # op_clocks ops"
| "op_clocks (_ # ops) = op_clocks ops"

definition msg_events :: "s3_message list \<Rightarrow> event list" where
  "msg_events ms = concat (map (\<lambda>m. case m of MsgChunk es \<Rightarrow> es | _ \<Rightarrow> []) ms)"

lemma msg_events_simps [simp]:
  "msg_events [] = []" "msg_events (MsgChunk es # ms) = es @ msg_events ms"
  "msg_events (MsgFlush # ms) = msg_events ms" "msg_events (MsgFinish # ms) = msg_events ms"
  "msg_events (xs @ ys) = msg_events xs @ msg_events ys"
  by (simp_all add: msg_events_def)

text \<open>The uploader holds an upload named by a time behind all objects, whose parts are the encoding of
  \<open>parts\<close>; what is stored, in parts, queued and in the chunk is what was written, in order.\<close>

definition s3_writing :: "'b bincode \<Rightarrow> nat \<Rightarrow> nat \<Rightarrow> event list \<Rightarrow> 'b s3_snapshot_writer \<Rightarrow> bool" where
  "s3_writing B t limit es w \<longleftrightarrow>
     (\<exists>u parts. sw_uploader w = Some u \<and> s3w_key u = object_key (sw_root w) (show_nat t)
        \<and> concat (s3w_parts u) = encode_all B parts \<and> (s3w_parts u = [] \<longrightarrow> parts = [])
        \<and> length (s3w_parts u) + limit < 2 ^ 32
        \<and> dir_events B (bucket_dir (sw_root w) (sw_bucket w)) @ parts @ msg_events (sw_queue w) @ sw_chunk w = es)
     \<and> MsgFinish \<notin> set (sw_queue w) \<and> bucket_ok B (sw_root w) (sw_bucket w) \<and> t < 2 ^ 64
     \<and> (\<forall>s \<in> set (parsed_times (map fst (bucket_dir (sw_root w) (sw_bucket w)))). unat s < t)"

context s3_storage begin

lemma s3_writing_weaken:
  assumes "s3_writing B t (Suc n) es w"
  shows "s3_writing B t n es w"
proof -
  obtain u parts where "sw_uploader w = Some u" "s3w_key u = object_key (sw_root w) (show_nat t)"
    "concat (s3w_parts u) = encode_all B parts" "s3w_parts u = [] \<longrightarrow> parts = []"
    "length (s3w_parts u) + Suc n < 2 ^ 32"
    "dir_events B (bucket_dir (sw_root w) (sw_bucket w)) @ parts @ msg_events (sw_queue w) @ sw_chunk w = es"
    using assms unfolding s3_writing_def by blast
  with assms show ?thesis
    unfolding s3_writing_def by (intro conjI exI [of _ u] exI [of _ parts]) auto
qed

lemma s3_writing_write: "s3_writing B t n es w \<Longrightarrow> s3_writing B t n (es @ [e]) (s3_write e w)"
  by (auto simp: s3_writing_def s3_write_def Let_def)

lemma s3_writing_flush: "s3_writing B t n es w \<Longrightarrow> s3_writing B t n es (s3_flush w)"
  by (auto simp: s3_writing_def s3_flush_def Let_def)

lemma finalize_parts:
  assumes ok: "bucket_ok B root bucket" and t: "t < 2 ^ 64"
    "\<forall>s \<in> set (parsed_times (map fst (bucket_dir root bucket))). unat s < t"
    and u: "s3w_key u = object_key root (show_nat t)" "concat (s3w_parts u) = encode_all B parts" "s3w_parts u \<noteq> []"
  shows "\<exists>bucket'. s3_finalize S u bucket = Ok bucket' \<and> bucket_ok B root bucket'
    \<and> dir_events B (bucket_dir root bucket') = dir_events B (bucket_dir root bucket) @ parts
    \<and> parsed_times (map fst (bucket_dir root bucket')) = parsed_times (map fst (bucket_dir root bucket)) @ [of_nat t]"
proof -
  let ?b = "AList.update (object_key root (show_nat t)) (encode_all B parts) bucket"
  have keys: "\<forall>p \<in> set bucket. prefix root (fst p) \<longrightarrow> prefix (root @ ''/'') (fst p)"
    and dir: "dir_ok B (bucket_dir root bucket)" using ok by (auto simp: bucket_ok_def)
  have "\<forall>p \<in> set ?b. prefix root (fst p) \<longrightarrow> prefix (root @ ''/'') (fst p)"
    using keys set_update_subset [of "object_key root (show_nat t)" "encode_all B parts" bucket]
    by (auto simp: object_key_def)
  moreover have "readable B (encode_all B parts)" using readable_encode [of "[]" parts] by simp
  note app = appended_dir [OF dir t this]
  have "bucket_dir root ?b = AList.update (show_nat t) (encode_all B parts) (bucket_dir root bucket)"
    by (rule bucket_update [OF keys])
  ultimately show ?thesis using app u by (simp add: s3_finalize_def complete bucket_ok_def)
qed

lemma s3_writing_step:
  assumes w: "s3_writing B t (Suc n) es w" and now: "t < now" "now < 2 ^ 64"
  shows "\<exists>t'. t' \<le> now \<and> s3_writing B t' n es (uploader_step B S now w)"
proof -
  obtain u parts where u: "sw_uploader w = Some u" "s3w_key u = object_key (sw_root w) (show_nat t)"
    "concat (s3w_parts u) = encode_all B parts" "s3w_parts u = [] \<longrightarrow> parts = []"
    "length (s3w_parts u) + Suc n < 2 ^ 32"
    "dir_events B (bucket_dir (sw_root w) (sw_bucket w)) @ parts @ msg_events (sw_queue w) @ sw_chunk w = es"
    and rest: "MsgFinish \<notin> set (sw_queue w)" "bucket_ok B (sw_root w) (sw_bucket w)" "t < 2 ^ 64"
    "\<forall>s \<in> set (parsed_times (map fst (bucket_dir (sw_root w) (sw_bucket w)))). unat s < t"
    using w unfolding s3_writing_def by blast
  show ?thesis
  proof (cases "sw_queue w")
    case Nil
    then have "uploader_step B S now w = w" using u(1) by (simp add: uploader_step_def)
    with s3_writing_weaken [OF w] now show ?thesis by (intro exI [of _ t]) simp
  next
    case (Cons m queue)
    show ?thesis
    proof (cases m)
      case (MsgChunk chunk)
      let ?u = "u\<lparr>s3w_parts := s3w_parts u @ [encode_all B chunk]\<rparr>"
      have "uploader_step B S now w = w\<lparr>sw_queue := queue, sw_uploader := Some ?u\<rparr>"
        using u Cons MsgChunk put_chunk_ok [of u chunk] by (simp add: uploader_step_def)
      moreover have "s3_writing B t n es (w\<lparr>sw_queue := queue, sw_uploader := Some ?u\<rparr>)"
        using u rest Cons MsgChunk unfolding s3_writing_def
        by (intro conjI exI [of _ ?u] exI [of _ "parts @ chunk"]) auto
      ultimately show ?thesis using now by (intro exI [of _ t]) simp
    next
      case MsgFlush
      let ?u = "\<lparr>s3w_key = object_key (sw_root w) (show_nat now), s3w_parts = []\<rparr> :: 'b s3_writer"
      show ?thesis
      proof (cases "s3w_parts u = []")
        case True
        then have "s3_finalize S u (sw_bucket w) = Err ReadS3" by (simp add: s3_finalize_def complete_empty)
        then have "uploader_step B S now w = w\<lparr>sw_queue := queue, sw_bucket := sw_bucket w, sw_uploader := Some ?u,
            sw_flushed := sw_flushed w @ [False]\<rparr>"
          using u(1) Cons MsgFlush by (simp add: uploader_step_def s3_writer_new_def initiate)
        moreover have "s3_writing B now n es \<dots>"
          using u rest Cons MsgFlush now True unfolding s3_writing_def
          by (intro conjI exI [of _ ?u] exI [of _ "[]"]) (auto dest: less_trans)
        ultimately show ?thesis by (intro exI [of _ now]) simp
      next
        case False
        from finalize_parts [OF rest(2-4) u(2,3) False] obtain bucket where
          b: "s3_finalize S u (sw_bucket w) = Ok bucket" "bucket_ok B (sw_root w) bucket"
            "dir_events B (bucket_dir (sw_root w) bucket) = dir_events B (bucket_dir (sw_root w) (sw_bucket w)) @ parts"
            "parsed_times (map fst (bucket_dir (sw_root w) bucket))
              = parsed_times (map fst (bucket_dir (sw_root w) (sw_bucket w))) @ [of_nat t]"
          by blast
        then have "uploader_step B S now w = w\<lparr>sw_queue := queue, sw_bucket := bucket, sw_uploader := Some ?u,
            sw_flushed := sw_flushed w @ [True]\<rparr>"
          using u(1) Cons MsgFlush by (simp add: uploader_step_def s3_writer_new_def initiate)
        moreover have "unat (of_nat t :: timestamp) = t" using rest(3) by (simp add: unat_of_nat take_bit_eq_mod)
        then have "s3_writing B now n es (w\<lparr>sw_queue := queue, sw_bucket := bucket, sw_uploader := Some ?u,
            sw_flushed := sw_flushed w @ [True]\<rparr>)"
          using u rest Cons MsgFlush now b unfolding s3_writing_def
          by (intro conjI exI [of _ ?u] exI [of _ "[]"]) (auto dest: less_trans)
        ultimately show ?thesis by (intro exI [of _ now]) simp
      qed
    next
      case MsgFinish
      with rest(1) Cons show ?thesis by simp
    qed
  qed
qed

lemma s3_writing_run:
  assumes "s3_writing B t (length ops) es w" and "sorted_wrt (<) (t # op_clocks ops)"
    and "\<forall>now \<in> set (op_clocks ops). now < 2 ^ 64"
  shows "\<exists>t'. s3_writing B t' 0 (es @ op_events ops) (s3_run B S ops w)"
  using assms
proof (induction ops arbitrary: t es w)
  case (Cons op ops)
  have weaken: "s3_writing B t (length ops) es w" using Cons.prems(1) by (simp add: s3_writing_weaken)
  show ?case
  proof (cases op)
    case (OpWrite e)
    with Cons.IH [OF s3_writing_write [OF weaken]] Cons.prems show ?thesis by simp
  next
    case OpFlush
    with Cons.IH [OF s3_writing_flush [OF weaken]] Cons.prems show ?thesis by simp
  next
    case (OpStep now)
    then have "t < now" "now < 2 ^ 64" using Cons.prems by auto
    moreover have "s3_writing B t (Suc (length ops)) es w" using Cons.prems(1) by simp
    ultimately obtain t' where t': "t' \<le> now" "s3_writing B t' (length ops) es (uploader_step B S now w)"
      using s3_writing_step by blast
    have "sorted_wrt (<) (t' # op_clocks ops)" using Cons.prems(2) OpStep t'(1) by auto
    with Cons.IH [OF t'(2)] Cons.prems(3) OpStep show ?thesis by simp
  qed
qed auto

end



section \<open>Properties of the S3 storage\<close>



text \<open>Without an advancing clock the second of two flushes replaces the object of the first.\<close>

lemma s3_same_millisecond_overwrites:
  "sw_bucket (s3_run unit_bincode plain_s3
      [OpWrite (EvInsert 1 []), OpFlush, OpStep 5, OpStep 5, OpWrite (EvInsert 2 []), OpFlush, OpStep 5, OpStep 5]
      (s3_snapshot_writer_new plain_s3 5 [] ''r''))
   = [(object_key ''r'' (show_nat 5), [EvInsert 2 []])]"
  by (simp add: s3_snapshot_writer_new_def s3_writer_new_def plain_s3_def s3_write_def s3_flush_def
      uploader_step_def MAX_CHUNK_LEN_def put_chunk_def s3_finalize_def unit_bincode_def)

text \<open>A failed download of the last object is not reported: what arrived of it is read, and then the
  snapshot ends as if it were complete.\<close>

lemma s3_failed_download_unreported:
  assumes "bincode_crate B" and "sx_reader r = None" and "Suc (sx_next r) = length (sx_times r)"
    and "sx_state r = None" and "torn B bs"
    and "s3_fetch S (sx_bucket r) (object_key (sx_root r) (timestamp_to_string (sx_times r ! sx_next r))) = (bs, False)"
  shows "fst (s3_read B S r) = Ok EvFinished"
proof -
  note torn = bincode_crate.decode_torn [OF assms(1,5)]
  show ?thesis
    by (subst s3_read.simps, simp add: assms(2,4,6) assms(3) [symmetric])
      (subst s3_read.simps, simp add: torn, subst s3_read.simps, simp add: assms(3) [symmetric])
qed

end
