(* ===== verification/Replay.thy ===== *)
theory Replay
  imports S3Snapshots
begin

text \<open>
  The replay of snapshots at the start of a run: \<open>ReadersQueryPurpose\<close> and
  \<open>create_snapshot_readers\<close> of persistence/config.rs, \<open>PersistenceMode\<close>, \<open>SnapshotAccess\<close>,
  \<open>rewind_from_disk_snapshot\<close>, \<open>frontier_for\<close> and \<open>read_snapshot\<close> of connectors/mod.rs.

  The channel to the main thread is the list of what is sent. The loops over a reader end only if the
  reader does, so they are partial; that they end is part of what is shown.
\<close>

section \<open>Who reads what\<close>

datatype readers_query_purpose = ReadSnapshot | ReconstructFrontier

definition includes_worker :: "readers_query_purpose \<Rightarrow> nat \<Rightarrow> nat \<Rightarrow> nat \<Rightarrow> (read_error, bool) result" where
  "includes_worker purpose other_worker_id worker_id total_workers =
     (case purpose of
        ReadSnapshot \<Rightarrow>
          if total_workers = 0 then Panic else Ok (other_worker_id mod total_workers = worker_id)
      | ReconstructFrontier \<Rightarrow> Ok True)"

definition truncate_at_end :: "readers_query_purpose \<Rightarrow> bool" where
  "truncate_at_end purpose = (case purpose of ReadSnapshot \<Rightarrow> True | ReconstructFrontier \<Rightarrow> False)"

fun assigned_snapshots ::
    "readers_query_purpose \<Rightarrow> nat \<Rightarrow> nat \<Rightarrow> (nat \<times> 's) list \<Rightarrow> (read_error, 's list) result" where
  "assigned_snapshots purpose worker_id total_workers [] = Ok []"
| "assigned_snapshots purpose worker_id total_workers ((parsed_worker_id, path) # entries) =
     and_then (includes_worker purpose parsed_worker_id worker_id total_workers) (\<lambda>included.
       map_ok (\<lambda>paths. if included then path # paths else paths)
         (assigned_snapshots purpose worker_id total_workers entries))"

definition min_threshold_time :: "timestamp total_frontier list \<Rightarrow> timestamp total_frontier" where
  "min_threshold_time ts = (case ts of [] \<Rightarrow> At 0 | t # ts \<Rightarrow> foldl min t ts)"

fun new_readers ::
    "'r snapshot_impl \<Rightarrow> timestamp total_frontier \<Rightarrow> bool \<Rightarrow> 'r list
      \<Rightarrow> (read_error, 'r snapshot_reader list) result" where
  "new_readers I threshold trunc [] = Ok []"
| "new_readers I threshold trunc (reader_impl # reader_impls) =
     and_then (fst (snapshot_reader_new I reader_impl threshold trunc)) (\<lambda>reader.
       map_ok (Cons reader) (new_readers I threshold trunc reader_impls))"

text \<open>\<open>open_impl\<close> opens the reader of the stream storage on a path, an element of the storages of all
  workers found there. The threshold times are those of the past runs, one per worker.\<close>

definition create_snapshot_readers ::
    "'r snapshot_impl \<Rightarrow> ('s \<Rightarrow> (read_error, 'r) result) \<Rightarrow> nat \<Rightarrow> nat \<Rightarrow> readers_query_purpose
      \<Rightarrow> timestamp total_frontier list \<Rightarrow> (nat \<times> 's) list \<Rightarrow> (read_error, 'r snapshot_reader list) result" where
  "create_snapshot_readers I open_impl worker_id total_workers query_purpose threshold_times storages =
     and_then (assigned_snapshots query_purpose worker_id total_workers storages) (\<lambda>paths.
     and_then (try_collect (map open_impl paths)) (\<lambda>reader_impls.
       new_readers I (min_threshold_time threshold_times) (truncate_at_end query_purpose) reader_impls))"

section \<open>Rewinding\<close>

datatype persistence_mode =
  RealtimeReplay | SpeedrunReplay | Batch | Persisting | SelectivePersisting | UdfCaching

datatype snapshot_access = AccessReplay | AccessRecord | AccessFull

definition is_replay_allowed :: "snapshot_access \<Rightarrow> bool" where
  "is_replay_allowed a = (case a of AccessFull \<Rightarrow> True | AccessReplay \<Rightarrow> True | AccessRecord \<Rightarrow> False)"

definition is_snapshot_writing_allowed :: "snapshot_access \<Rightarrow> bool" where
  "is_snapshot_writing_allowed a = (case a of AccessFull \<Rightarrow> True | AccessRecord \<Rightarrow> True | AccessReplay \<Rightarrow> False)"

definition on_before_reading_snapshot :: "persistence_mode \<Rightarrow> nat \<Rightarrow> (unit, event list) result" where
  "on_before_reading_snapshot mode now =
     (if mode = Batch
      then if now < 2 ^ 64 then Ok [EvAdvanceTime (of_nat now) offset_antichain_new] else Panic
      else Ok [])"

definition handle_snapshot_time_advancement :: "persistence_mode \<Rightarrow> event \<Rightarrow> (unit, event list) result" where
  "handle_snapshot_time_advancement mode entry_read =
     (case mode of
        SpeedrunReplay \<Rightarrow> Ok [entry_read]
      | RealtimeReplay \<Rightarrow> Panic
      | _ \<Rightarrow> Ok [])"

partial_function (option) rewind_loop ::
    "'r snapshot_impl \<Rightarrow> persistence_mode \<Rightarrow> 'r snapshot_reader \<Rightarrow> event list
      \<Rightarrow> (unit, event list \<times> 'r snapshot_reader) result option" where
  "rewind_loop I mode reader sent =
     (case snapshot_read I reader of (entry_read, reader) \<Rightarrow>
        (case entry_read of
           Err _ \<Rightarrow> Some (Ok (sent, reader))
         | Panic \<Rightarrow> Some Panic
         | Ok entry \<Rightarrow>
             (case entry of
                EvFinished \<Rightarrow> Some (Ok (sent, reader))
              | EvAdvanceTime t f \<Rightarrow>
                  (case handle_snapshot_time_advancement mode entry of
                     Ok out \<Rightarrow> rewind_loop I mode reader (sent @ out)
                   | _ \<Rightarrow> Some Panic)
              | EvInsert k v \<Rightarrow> rewind_loop I mode reader (sent @ [entry])
              | EvDelete k v \<Rightarrow> rewind_loop I mode reader (sent @ [entry])
              | EvUpsert k v \<Rightarrow> rewind_loop I mode reader (sent @ [entry]))))"

fun rewind_readers ::
    "'r snapshot_impl \<Rightarrow> persistence_mode \<Rightarrow> 'r snapshot_reader list \<Rightarrow> event list
      \<Rightarrow> (unit, event list \<times> 'r snapshot_reader list) result option" where
  "rewind_readers I mode [] sent = Some (Ok (sent, []))"
| "rewind_readers I mode (reader # readers) sent =
     Option.bind (rewind_loop I mode reader sent) (\<lambda>r.
       case r of
         Ok (sent, reader) \<Rightarrow>
           map_option (map_ok (\<lambda>(sent, readers). (sent, reader # readers))) (rewind_readers I mode readers sent)
       | _ \<Rightarrow> Some Panic)"

definition rewind_from_disk_snapshot ::
    "'r snapshot_impl \<Rightarrow> persistence_mode \<Rightarrow> (read_error, 'r snapshot_reader list) result
      \<Rightarrow> (unit, event list \<times> 'r snapshot_reader list) result option" where
  "rewind_from_disk_snapshot I mode snapshot_readers =
     (case snapshot_readers of
        Ok readers \<Rightarrow> rewind_readers I mode readers []
      | Err _ \<Rightarrow> Some (Ok ([], []))
      | Panic \<Rightarrow> Some Panic)"

section \<open>The frontier of a snapshot\<close>

partial_function (option) frontier_loop ::
    "'r snapshot_impl \<Rightarrow> 'r snapshot_reader \<Rightarrow> (unit, 'r snapshot_reader) result option" where
  "frontier_loop I reader =
     (case snapshot_read I reader of (entry_read, reader) \<Rightarrow>
        (case entry_read of
           Err _ \<Rightarrow> Some (Ok reader)
         | Panic \<Rightarrow> Some Panic
         | Ok entry \<Rightarrow> if entry = EvFinished then Some (Ok reader) else frontier_loop I reader))"

fun frontier_readers ::
    "'r snapshot_impl \<Rightarrow> 'r snapshot_reader list \<Rightarrow> offset_antichain
      \<Rightarrow> (unit, offset_antichain) result option" where
  "frontier_readers I [] frontier = Some (Ok frontier)"
| "frontier_readers I (reader # readers) frontier =
     Option.bind (frontier_loop I reader) (\<lambda>r.
       case r of
         Ok reader \<Rightarrow> frontier_readers I readers (merge_two_frontiers frontier (sr_last_frontier reader))
       | _ \<Rightarrow> Some Panic)"

definition frontier_for ::
    "'r snapshot_impl \<Rightarrow> (read_error, 'r snapshot_reader list) result \<Rightarrow> (unit, offset_antichain) result option" where
  "frontier_for I snapshot_readers =
     (case snapshot_readers of
        Ok readers \<Rightarrow> frontier_readers I readers offset_antichain_new
      | Err _ \<Rightarrow> Some (Ok offset_antichain_new)
      | Panic \<Rightarrow> Some Panic)"

section \<open>Reading a snapshot\<close>

text \<open>The storages after the readers of this worker are done with theirs.\<close>

fun put_back ::
    "readers_query_purpose \<Rightarrow> nat \<Rightarrow> nat \<Rightarrow> (nat \<times> 's) list \<Rightarrow> 's list \<Rightarrow> (nat \<times> 's) list" where
  "put_back purpose worker_id total_workers ((w, s) # storages) (s' # ss) =
     (if includes_worker purpose w worker_id total_workers = Ok True
      then (w, s') # put_back purpose worker_id total_workers storages ss
      else (w, s) # put_back purpose worker_id total_workers storages (s' # ss))"
| "put_back purpose worker_id total_workers storages [] = storages"
| "put_back purpose worker_id total_workers [] ss = []"

text \<open>What is sent before the sentinel, the frontier the source is sought to and the sentinel
  carries, and the storages. \<open>persistent\<close> says that there is a storage and the reader has an id.\<close>

definition read_snapshot ::
    "'r snapshot_impl \<Rightarrow> ('s \<Rightarrow> (read_error, 'r) result) \<Rightarrow> ('r \<Rightarrow> 's) \<Rightarrow> nat \<Rightarrow> nat
      \<Rightarrow> snapshot_access \<Rightarrow> persistence_mode \<Rightarrow> nat \<Rightarrow> bool \<Rightarrow> timestamp total_frontier list
      \<Rightarrow> (nat \<times> 's) list \<Rightarrow> (unit, event list \<times> offset_antichain \<times> (nat \<times> 's) list) result option" where
  "read_snapshot I open_impl storage_of worker_id total_workers access mode now persistent thresholds storages =
     (if is_replay_allowed access then
        (case on_before_reading_snapshot mode now of
           Ok before \<Rightarrow>
             if persistent then
               Option.bind (rewind_from_disk_snapshot I mode
                   (create_snapshot_readers I open_impl worker_id total_workers ReadSnapshot thresholds storages)) (\<lambda>r.
                 case r of
                   Ok (sent, readers) \<Rightarrow>
                     let storages = put_back ReadSnapshot worker_id total_workers storages
                           (map (storage_of \<circ> sr_impl) readers)
                     in map_option (map_ok (\<lambda>frontier. (before @ sent, frontier, storages)))
                          (frontier_for I (create_snapshot_readers I open_impl worker_id total_workers
                             ReconstructFrontier thresholds storages))
                 | _ \<Rightarrow> Some Panic)
             else Some (Ok (before, offset_antichain_new, storages))
         | _ \<Rightarrow> Some Panic)
      else Some (Ok ([], offset_antichain_new, storages)))"

section \<open>What is replayed\<close>

text \<open>The event that ends the replay at a threshold, the events before it, the events up to it, and
  the last frontier among events.\<close>

definition ends :: "timestamp total_frontier \<Rightarrow> event \<Rightarrow> bool" where
  "ends thr e = (case e of EvAdvanceTime t _ \<Rightarrow> thr \<le> At t | _ \<Rightarrow> False)"

definition replayed :: "timestamp total_frontier \<Rightarrow> event list \<Rightarrow> event list" where
  "replayed thr es = takeWhile (\<lambda>e. \<not> ends thr e) es"

definition kept :: "timestamp total_frontier \<Rightarrow> event list \<Rightarrow> event list" where
  "kept thr es = replayed thr es @ take 1 (dropWhile (\<lambda>e. \<not> ends thr e) es)"

definition sent_in :: "persistence_mode \<Rightarrow> event list \<Rightarrow> event list" where
  "sent_in mode es = filter (\<lambda>e. case e of EvAdvanceTime _ _ \<Rightarrow> mode = SpeedrunReplay | _ \<Rightarrow> True) es"

fun frontier_at :: "offset_antichain \<Rightarrow> event list \<Rightarrow> offset_antichain" where
  "frontier_at f [] = f"
| "frontier_at f (EvAdvanceTime t g # es) = frontier_at g es"
| "frontier_at f (_ # es) = frontier_at f es"

lemma replay_simps [simp]:
  "replayed thr [] = []" "kept thr [] = []" "sent_in mode [] = []"
  "ends thr e \<Longrightarrow> replayed thr (e # es) = []" "ends thr e \<Longrightarrow> kept thr (e # es) = [e]"
  "\<not> ends thr e \<Longrightarrow> replayed thr (e # es) = e # replayed thr es"
  "\<not> ends thr e \<Longrightarrow> kept thr (e # es) = e # kept thr es"
  by (simp_all add: replayed_def kept_def sent_in_def)

lemma kept_kept [simp]: "kept thr (kept thr es) = kept thr es"
proof (induction es)
  case (Cons e es)
  then show ?case by (cases "ends thr e") simp_all
qed simp

lemma set_kept: "set (kept thr es) \<subseteq> set es"
  by (auto simp: kept_def replayed_def dest: set_takeWhileD in_set_takeD set_dropWhileD)

text \<open>The reader of a source that is checked against the threshold.\<close>

context truncating_source begin

lemma read_Nil:
  assumes "ok (sr_impl s)" and "remaining (sr_impl s) = []"
  shows "\<exists>r. snapshot_read I s = (Ok EvFinished, s\<lparr>sr_impl := r\<rparr>) \<and> storage r = storage (sr_impl s)"
  using read [OF assms(1)] read_storage [OF assms(1)] assms(2) by (auto simp: snapshot_read_def)

lemma read_Cons:
  assumes "ok (sr_impl s)" and "remaining (sr_impl s) = e # es" and "\<not> ends (sr_threshold_time s) e" and "e \<noteq> EvFinished"
  shows "\<exists>s'. snapshot_read I s = (Ok e, s') \<and> ok (sr_impl s') \<and> remaining (sr_impl s') = es
    \<and> consumed (sr_impl s') = consumed (sr_impl s) @ [e] \<and> storage (sr_impl s') = storage (sr_impl s)
    \<and> sr_threshold_time s' = sr_threshold_time s \<and> sr_truncate_at_end s' = sr_truncate_at_end s
    \<and> sr_last_frontier s' = frontier_at (sr_last_frontier s) [e]"
proof -
  obtain r' where "si_read I (sr_impl s) = (Ok e, r')" "ok r'" "remaining r' = es"
    using read [OF assms(1)] assms(2) by auto
  moreover from this(1) have "storage r' = storage (sr_impl s)" "consumed r' = consumed (sr_impl s) @ [e]"
    using read_storage [OF assms(1)] read_consumed [OF assms(1)] assms(2) by simp_all
  ultimately show ?thesis
    using assms(3,4) by (cases e) (auto simp: snapshot_read_def ends_def Let_def)
qed

lemma read_end:
  assumes "ok (sr_impl s)" and "remaining (sr_impl s) = e # es" and "ends (sr_threshold_time s) e"
  shows "\<exists>s'. snapshot_read I s = (Ok EvFinished, s') \<and> sr_last_frontier s' = frontier_at (sr_last_frontier s) [e]
    \<and> (if sr_truncate_at_end s
       then good (storage (sr_impl s')) \<and> stored (storage (sr_impl s')) = consumed (sr_impl s) @ [e]
       else storage (sr_impl s') = storage (sr_impl s))"
proof -
  obtain r' where r': "si_read I (sr_impl s) = (Ok e, r')" "ok r'" using read [OF assms(1)] assms(2) by auto
  then have "storage r' = storage (sr_impl s)" "consumed r' = consumed (sr_impl s) @ [e]"
    using read_storage [OF assms(1)] read_consumed [OF assms(1)] assms(2) by simp_all
  moreover obtain r'' where "si_truncate I r' = (Ok (), r'')" "good (storage r'')" "stored (storage r'') = consumed r'"
    using truncate [OF r'(2)] by blast
  ultimately show ?thesis
    using assms(3) r'(1) checks by (cases e) (auto simp: snapshot_read_def ends_def Let_def)
qed

lemma rewind_exact:
  assumes "ok (sr_impl s)" and "EvFinished \<notin> set (remaining (sr_impl s))" and "mode \<noteq> RealtimeReplay"
  shows "\<exists>s'. rewind_loop I mode s sent
      = Some (Ok (sent @ sent_in mode (replayed (sr_threshold_time s) (remaining (sr_impl s))), s'))
    \<and> sr_last_frontier s' = frontier_at (sr_last_frontier s) (kept (sr_threshold_time s) (remaining (sr_impl s)))
    \<and> (if sr_truncate_at_end s
       then good (storage (sr_impl s'))
         \<and> stored (storage (sr_impl s')) = consumed (sr_impl s) @ kept (sr_threshold_time s) (remaining (sr_impl s))
       else storage (sr_impl s') = storage (sr_impl s))"
  using assms
proof (induction "remaining (sr_impl s)" arbitrary: s sent)
  case Nil
  note stored_split [OF Nil.prems(1)]
  with read_Nil [OF Nil.prems(1)] Nil.hyps show ?case by (subst rewind_loop.simps) auto
next
  case (Cons e es)
  let ?thr = "sr_threshold_time s"
  show ?case
  proof (cases "ends ?thr e")
    case True
    with read_end [OF Cons.prems(1) Cons.hyps(2) [symmetric]] Cons.hyps(2) [symmetric] show ?thesis
      by (subst rewind_loop.simps) auto
  next
    case False
    have "e \<noteq> EvFinished" using Cons.prems(2) Cons.hyps(2) [symmetric] by auto
    from read_Cons [OF Cons.prems(1) Cons.hyps(2) [symmetric] False this] obtain s' where
      s': "snapshot_read I s = (Ok e, s')" "ok (sr_impl s')" "remaining (sr_impl s') = es"
        "consumed (sr_impl s') = consumed (sr_impl s) @ [e]" "storage (sr_impl s') = storage (sr_impl s)"
        "sr_threshold_time s' = ?thr" "sr_truncate_at_end s' = sr_truncate_at_end s"
        "sr_last_frontier s' = frontier_at (sr_last_frontier s) [e]" by blast
    have step: "rewind_loop I mode s sent = rewind_loop I mode s' (sent @ sent_in mode [e])"
      using s'(1) \<open>e \<noteq> EvFinished\<close> Cons.prems(3)
      by (subst rewind_loop.simps, cases e)
        (auto simp: sent_in_def handle_snapshot_time_advancement_def split: persistence_mode.splits)
    have fr: "frontier_at (frontier_at f [e]) xs = frontier_at f (e # xs)" for f xs by (cases e) simp_all
    have out: "sent_in mode (e # xs) = sent_in mode [e] @ sent_in mode xs" for xs by (simp add: sent_in_def)
    have "EvFinished \<notin> set (remaining (sr_impl s'))" using Cons.prems(2) Cons.hyps(2) [symmetric] s'(3) by auto
    from Cons.hyps(1) [OF s'(3) [symmetric] s'(2) this Cons.prems(3), of "sent @ sent_in mode [e]"]
    obtain s'' where "rewind_loop I mode s' (sent @ sent_in mode [e])
        = Some (Ok ((sent @ sent_in mode [e]) @ sent_in mode (replayed ?thr es), s''))"
      "sr_last_frontier s'' = frontier_at (frontier_at (sr_last_frontier s) [e]) (kept ?thr es)"
      "if sr_truncate_at_end s
       then good (storage (sr_impl s'')) \<and> stored (storage (sr_impl s'')) = (consumed (sr_impl s) @ [e]) @ kept ?thr es
       else storage (sr_impl s'') = storage (sr_impl s)"
      unfolding s'(3-8) by blast
    moreover have "remaining (sr_impl s) = e # es" using Cons.hyps(2) by simp
    ultimately show ?thesis
      unfolding step fr using False out [of "replayed ?thr es"] by (intro exI [of _ s'']) simp
  qed
qed

lemma frontier_exact:
  assumes "ok (sr_impl s)" and "EvFinished \<notin> set (remaining (sr_impl s))" and "\<not> sr_truncate_at_end s"
  shows "\<exists>s'. frontier_loop I s = Some (Ok s')
    \<and> sr_last_frontier s' = frontier_at (sr_last_frontier s) (kept (sr_threshold_time s) (remaining (sr_impl s)))"
  using assms
proof (induction "remaining (sr_impl s)" arbitrary: s)
  case Nil
  with read_Nil [OF Nil.prems(1)] show ?case by (subst frontier_loop.simps) auto
next
  case (Cons e es)
  let ?thr = "sr_threshold_time s"
  show ?case
  proof (cases "ends ?thr e")
    case True
    with read_end [OF Cons.prems(1) Cons.hyps(2) [symmetric]] Cons.hyps(2) [symmetric] show ?thesis
      by (subst frontier_loop.simps) auto
  next
    case False
    have "e \<noteq> EvFinished" using Cons.prems(2) Cons.hyps(2) [symmetric] by auto
    from read_Cons [OF Cons.prems(1) Cons.hyps(2) [symmetric] False this] obtain s' where
      s': "snapshot_read I s = (Ok e, s')" "ok (sr_impl s')" "remaining (sr_impl s') = es"
        "sr_threshold_time s' = ?thr" "sr_truncate_at_end s' = sr_truncate_at_end s"
        "sr_last_frontier s' = frontier_at (sr_last_frontier s) [e]" by blast
    have step: "frontier_loop I s = frontier_loop I s'"
      using s'(1) \<open>e \<noteq> EvFinished\<close> by (subst frontier_loop.simps) simp
    have fr: "frontier_at (frontier_at f [e]) xs = frontier_at f (e # xs)" for f xs by (cases e) simp_all
    have "EvFinished \<notin> set (remaining (sr_impl s'))" using Cons.prems(2) Cons.hyps(2) [symmetric] s'(3) by auto
    moreover have "\<not> sr_truncate_at_end s'" using s'(5) Cons.prems(3) by simp
    ultimately obtain s'' where "frontier_loop I s' = Some (Ok s'')"
      "sr_last_frontier s'' = frontier_at (frontier_at (sr_last_frontier s) [e]) (kept ?thr es)"
      using Cons.hyps(1) [OF s'(3) [symmetric] s'(2)] unfolding s'(3-6) by blast
    moreover have "remaining (sr_impl s) = e # es" using Cons.hyps(2) by simp
    ultimately show ?thesis unfolding step fr using False by simp
  qed
qed

end

text \<open>All readers of a worker, opened on good storages.\<close>

definition fresh_reader :: "timestamp total_frontier \<Rightarrow> bool \<Rightarrow> 'r \<Rightarrow> 'r snapshot_reader" where
  "fresh_reader thr trunc r = \<lparr>sr_impl = r, sr_threshold_time = thr, sr_entries_read = 0,
     sr_last_frontier = offset_antichain_new, sr_truncate_at_end = trunc\<rparr>"

lemma new_readers_fresh:
  "thr \<noteq> At 0 \<or> \<not> trunc \<Longrightarrow> new_readers I thr trunc rs = Ok (map (fresh_reader thr trunc) rs)"
  by (induction rs) (auto simp: snapshot_reader_new_def fresh_reader_def)

definition recoverable :: "('s \<Rightarrow> bool) \<Rightarrow> ('s \<Rightarrow> bool) \<Rightarrow> ('s \<Rightarrow> event list) \<Rightarrow> 's \<Rightarrow> bool" where
  "recoverable good fits stored s \<longleftrightarrow> good s \<and> fits s \<and> EvFinished \<notin> set (stored s)"

context truncating_source begin

abbreviation "recover \<equiv> recoverable good fits stored"

lemma fresh_ok:
  assumes "recover s"
  shows "ok (sr_impl (fresh_reader thr trunc (open_reader s)))"
    and "remaining (sr_impl (fresh_reader thr trunc (open_reader s))) = stored s"
    and "consumed (sr_impl (fresh_reader thr trunc (open_reader s))) = []"
  using assms opened [of s] by (auto simp: recoverable_def fresh_reader_def)

lemma rewind_readers_exact:
  assumes "\<forall>s \<in> set ss. recover s" and "mode \<noteq> RealtimeReplay"
  shows "\<exists>rs. rewind_readers I mode (map (\<lambda>s. fresh_reader thr True (open_reader s)) ss) sent
      = Some (Ok (sent @ concat (map (\<lambda>s. sent_in mode (replayed thr (stored s))) ss), rs))
    \<and> list_all2 (\<lambda>s r. good (storage (sr_impl r)) \<and> stored (storage (sr_impl r)) = kept thr (stored s)) ss rs"
  using assms(1)
proof (induction ss arbitrary: sent)
  case (Cons s ss)
  let ?r = "fresh_reader thr True (open_reader s)"
  have s: "recover s" using Cons.prems by simp
  then have "EvFinished \<notin> set (remaining (sr_impl ?r))" by (simp add: fresh_ok recoverable_def)
  from rewind_exact [OF fresh_ok(1) [OF s] this assms(2), of sent] obtain r where
    r: "rewind_loop I mode ?r sent = Some (Ok (sent @ sent_in mode (replayed thr (stored s)), r))"
      "good (storage (sr_impl r))" "stored (storage (sr_impl r)) = kept thr (stored s)"
    unfolding fresh_ok(2,3) [OF s] by (auto simp: fresh_reader_def)
  from Cons.IH [of "sent @ sent_in mode (replayed thr (stored s))"] Cons.prems obtain rs where
    "rewind_readers I mode (map (\<lambda>s. fresh_reader thr True (open_reader s)) ss) (sent @ sent_in mode (replayed thr (stored s)))
      = Some (Ok ((sent @ sent_in mode (replayed thr (stored s)))
          @ concat (map (\<lambda>s. sent_in mode (replayed thr (stored s))) ss), rs))"
    "list_all2 (\<lambda>s r. good (storage (sr_impl r)) \<and> stored (storage (sr_impl r)) = kept thr (stored s)) ss rs"
    by auto
  with r show ?case by (intro exI [of _ "r # rs"]) simp
qed simp

lemma frontier_readers_exact:
  assumes "\<forall>s \<in> set ss. recover s"
  shows "frontier_readers I (map (\<lambda>s. fresh_reader thr False (open_reader s)) ss) f
    = Some (Ok (foldl (\<lambda>f s. merge_two_frontiers f (frontier_at [] (kept thr (stored s)))) f ss))"
  using assms
proof (induction ss arbitrary: f)
  case (Cons s ss)
  let ?r = "fresh_reader thr False (open_reader s)"
  have s: "recover s" using Cons.prems by simp
  then have "EvFinished \<notin> set (remaining (sr_impl ?r))" by (simp add: fresh_ok recoverable_def)
  moreover have "\<not> sr_truncate_at_end ?r" "sr_last_frontier ?r = []" "sr_threshold_time ?r = thr"
    by (simp_all add: fresh_reader_def offset_antichain_new_def)
  ultimately obtain r where "frontier_loop I ?r = Some (Ok r)"
    "sr_last_frontier r = frontier_at [] (kept thr (stored s))"
    using frontier_exact [OF fresh_ok(1) [OF s]] fresh_ok(2) [OF s] by metis
  with Cons show ?case by simp
qed simp

end

section \<open>The replay of local snapshots\<close>

lemma assigned_ReadSnapshot:
  "0 < n \<Longrightarrow> assigned_snapshots ReadSnapshot w n storages
    = Ok (map snd (filter (\<lambda>p. fst p mod n = w) storages))"
  by (induction storages) (auto simp: includes_worker_def)

lemma assigned_ReconstructFrontier:
  "assigned_snapshots ReconstructFrontier w n storages = Ok (map snd storages)"
  by (induction storages) (auto simp: includes_worker_def)

lemma list_all2_image:
  assumes "list_all2 R xs ys" and "\<forall>x \<in> set xs. P x" and "\<And>x y. P x \<Longrightarrow> R x y \<Longrightarrow> Q y"
  shows "\<forall>y \<in> set ys. Q y"
  using assms(1,2) by (induction rule: list_all2_induct) (auto intro: assms(3))

definition replaced :: "nat \<Rightarrow> nat \<Rightarrow> ('s \<Rightarrow> 's \<Rightarrow> bool) \<Rightarrow> nat \<times> 's \<Rightarrow> nat \<times> 's \<Rightarrow> bool" where
  "replaced w n Q p p' \<longleftrightarrow> fst p' = fst p \<and> (if fst p mod n = w then Q (snd p) (snd p') else p' = p)"

lemma put_back_assigned:
  assumes "0 < n" and "list_all2 Q (map snd (filter (\<lambda>p. fst p mod n = w) ds)) new"
  shows "\<exists>ds'. put_back ReadSnapshot w n (map (apsnd Some) ds) (map Some new) = map (apsnd Some) ds'
    \<and> list_all2 (replaced w n Q) ds ds'"
  using assms(2)
proof (induction ds arbitrary: new)
  case Nil
  then show ?case by simp
next
  case (Cons p ds)
  show ?case
  proof (cases "fst p mod n = w")
    case True
    with Cons.prems obtain s' new' where new: "new = s' # new'" "Q (snd p) s'"
      "list_all2 Q (map snd (filter (\<lambda>p. fst p mod n = w) ds)) new'"
      by (auto simp: list_all2_Cons1)
    from Cons.IH [OF new(3)] obtain ds' where
      "put_back ReadSnapshot w n (map (apsnd Some) ds) (map Some new') = map (apsnd Some) ds'"
      "list_all2 (replaced w n Q) ds ds'"
      by blast
    with True new assms(1) show ?thesis
      by (cases p) (auto simp: includes_worker_def replaced_def [of _ _ _ "(_, _)"] intro!: exI [of _ "(fst p, s') # ds'"])
  next
    case False
    with Cons.prems have "list_all2 Q (map snd (filter (\<lambda>p. fst p mod n = w) ds)) new" by simp
    from Cons.IH [OF this] obtain ds' where ds':
      "put_back ReadSnapshot w n (map (apsnd Some) ds) (map Some new) = map (apsnd Some) ds'"
      "list_all2 (replaced w n Q) ds ds'"
      by blast
    have "put_back ReadSnapshot w n (map (apsnd Some) (p # ds)) (map Some new) = map (apsnd Some) (p # ds')"
      using False ds'(1) assms(1) by (cases p; cases new) (auto simp: includes_worker_def)
    with False ds'(2) show ?thesis by (intro exI [of _ "p # ds'"]) (simp add: replaced_def [of _ _ _ p])
  qed
qed

text \<open>What worker \<open>w\<close> replays of the snapshots of all former workers, and the frontier of all.\<close>

definition own_replay ::
    "'b bincode \<Rightarrow> nat \<Rightarrow> nat \<Rightarrow> persistence_mode \<Rightarrow> timestamp total_frontier \<Rightarrow> (nat \<times> 'b dir) list \<Rightarrow> event list" where
  "own_replay B w n mode thr ds =
     concat (map (\<lambda>p. sent_in mode (replayed thr (dir_events B (snd p)))) (filter (\<lambda>p. fst p mod n = w) ds))"

definition merged_frontier ::
    "'b bincode \<Rightarrow> timestamp total_frontier \<Rightarrow> (nat \<times> 'b dir) list \<Rightarrow> offset_antichain" where
  "merged_frontier B thr ds =
     foldl (\<lambda>f p. merge_two_frontiers f (frontier_at [] (kept thr (dir_events B (snd p))))) [] ds"

lemma merged_frontier_cong:
  assumes "list_all2 (\<lambda>p p'. kept thr (dir_events B (snd p')) = kept thr (dir_events B (snd p))) ds ds'"
  shows "merged_frontier B thr ds' = merged_frontier B thr ds"
proof -
  have "foldl (\<lambda>f p. merge_two_frontiers f (frontier_at [] (kept thr (dir_events B (snd p))))) f ds'
    = foldl (\<lambda>f p. merge_two_frontiers f (frontier_at [] (kept thr (dir_events B (snd p))))) f ds" for f
    using assms by (induction ds ds' arbitrary: f rule: list_all2_induct) simp_all
  then show ?thesis by (simp add: merged_frontier_def)
qed

context bincode_crate begin

lemma open_all: "try_collect (map local_reader_new (map Some ds)) = Ok (map local_open ds)"
  by (simp add: local_reader_new_open try_collect_eq_Ok_iff o_def)

lemma local_rewind:
  assumes "\<forall>d \<in> set (map snd (filter (\<lambda>p. fst p mod n = w) ds)). dir_ok B d \<and> EvFinished \<notin> set (dir_events B d)"
    and "0 < n" and "min_threshold_time thresholds = thr" "thr \<noteq> At 0" and "mode \<noteq> RealtimeReplay"
  shows "\<exists>rs. rewind_from_disk_snapshot (local_impl B) mode
      (create_snapshot_readers (local_impl B) local_reader_new w n ReadSnapshot thresholds (map (apsnd Some) ds))
      = Some (Ok (own_replay B w n mode thr ds, rs))
    \<and> list_all2 (\<lambda>d r. dir_ok B (lr_dir (sr_impl r)) \<and> dir_events B (lr_dir (sr_impl r)) = kept thr (dir_events B d))
        (map snd (filter (\<lambda>p. fst p mod n = w) ds)) rs"
proof -
  let ?own = "map snd (filter (\<lambda>p. fst p mod n = w) ds)"
  have own: "map snd (filter (\<lambda>p. fst p mod n = w) (map (apsnd Some) ds)) = map Some ?own"
    by (induction ds) auto
  have "create_snapshot_readers (local_impl B) local_reader_new w n ReadSnapshot thresholds (map (apsnd Some) ds)
      = Ok (map (\<lambda>d. fresh_reader thr True (local_open d)) ?own)"
    unfolding create_snapshot_readers_def assigned_ReadSnapshot [OF assms(2)] own
    using assms(3,4) by (simp add: open_all new_readers_fresh truncate_at_end_def del: map_map) (simp add: o_def)
  moreover have "\<forall>d \<in> set ?own. local.recover d" using assms(1) by (simp add: recoverable_def)
  from local.rewind_readers_exact [OF this assms(5), of thr "[]"] obtain rs where
    "rewind_readers (local_impl B) mode (map (\<lambda>s. fresh_reader thr True (local_open s)) ?own) []
       = Some (Ok (concat (map (\<lambda>s. sent_in mode (replayed thr (dir_events B s))) ?own), rs))"
    "list_all2 (\<lambda>d r. dir_ok B (lr_dir (sr_impl r)) \<and> dir_events B (lr_dir (sr_impl r)) = kept thr (dir_events B d)) ?own rs"
    by auto
  ultimately show ?thesis
    by (simp add: rewind_from_disk_snapshot_def own_replay_def o_def)
qed

lemma local_frontier:
  assumes "\<forall>d \<in> set (map snd ds). dir_ok B d \<and> EvFinished \<notin> set (dir_events B d)"
    and "min_threshold_time thresholds = thr"
  shows "frontier_for (local_impl B)
      (create_snapshot_readers (local_impl B) local_reader_new w n ReconstructFrontier thresholds (map (apsnd Some) ds))
      = Some (Ok (merged_frontier B thr ds))"
proof -
  have all: "map snd (map (apsnd Some) ds) = map Some (map snd ds)" by simp
  have "create_snapshot_readers (local_impl B) local_reader_new w n ReconstructFrontier thresholds (map (apsnd Some) ds)
      = Ok (map (\<lambda>d. fresh_reader thr False (local_open d)) (map snd ds))"
    unfolding create_snapshot_readers_def assigned_ReconstructFrontier all
    using assms(2) by (simp add: open_all new_readers_fresh truncate_at_end_def del: map_map) (simp add: o_def)
  moreover have "\<forall>d \<in> set (map snd ds). local.recover d" using assms(1) by (simp add: recoverable_def)
  note local.frontier_readers_exact [OF this, of thr "[]"]
  ultimately show ?thesis
    by (simp add: frontier_for_def merged_frontier_def offset_antichain_new_def foldl_map)
qed

lemma local_read_snapshot:
  assumes ds: "\<forall>d \<in> set (map snd ds). dir_ok B d \<and> EvFinished \<notin> set (dir_events B d)" and n: "0 < n"
    and thr: "min_threshold_time thresholds = thr" "thr \<noteq> At 0"
    and mode: "mode \<noteq> RealtimeReplay" "mode \<noteq> Batch" and access: "is_replay_allowed access"
  shows "\<exists>ds'. read_snapshot (local_impl B) local_reader_new (Some \<circ> lr_dir) w n access mode now True thresholds
        (map (apsnd Some) ds)
      = Some (Ok (own_replay B w n mode thr ds, merged_frontier B thr ds, map (apsnd Some) ds'))
    \<and> list_all2 (replaced w n (\<lambda>d d'. dir_ok B d' \<and> dir_events B d' = kept thr (dir_events B d))) ds ds'"
proof -
  let ?Q = "\<lambda>d d'. dir_ok B d' \<and> dir_events B d' = kept thr (dir_events B d)"
  have "\<forall>d \<in> set (map snd (filter (\<lambda>p. fst p mod n = w) ds)). dir_ok B d \<and> EvFinished \<notin> set (dir_events B d)"
    using ds by auto
  from local_rewind [OF this n thr mode(1)] obtain rs where
    rs: "rewind_from_disk_snapshot (local_impl B) mode
      (create_snapshot_readers (local_impl B) local_reader_new w n ReadSnapshot thresholds (map (apsnd Some) ds))
      = Some (Ok (own_replay B w n mode thr ds, rs))"
    "list_all2 (\<lambda>d r. ?Q d (lr_dir (sr_impl r))) (map snd (filter (\<lambda>p. fst p mod n = w) ds)) rs" by blast
  then have "list_all2 ?Q (map snd (filter (\<lambda>p. fst p mod n = w) ds)) (map (\<lambda>r. lr_dir (sr_impl r)) rs)"
    by (simp add: list_all2_map2)
  from put_back_assigned [OF n this] obtain ds' where
    ds': "put_back ReadSnapshot w n (map (apsnd Some) ds) (map Some (map (\<lambda>r. lr_dir (sr_impl r)) rs)) = map (apsnd Some) ds'"
      "list_all2 (replaced w n ?Q) ds ds'" by blast
  have still: "\<forall>d \<in> set (map snd ds'). dir_ok B d \<and> EvFinished \<notin> set (dir_events B d)"
  proof -
    let ?P = "\<lambda>p. dir_ok B (snd p) \<and> EvFinished \<notin> set (dir_events B (snd p))"
    have step: "?P p'" if "?P p" "replaced w n ?Q p p'" for p p'
      using that set_kept [of thr "dir_events B (snd p)"] by (cases "fst p mod n = w") (auto simp: replaced_def)
    from ds have "\<forall>p \<in> set ds. ?P p" by simp
    from list_all2_image [OF ds'(2) this step] show ?thesis by simp
  qed
  have "list_all2 (\<lambda>p p'. kept thr (dir_events B (snd p')) = kept thr (dir_events B (snd p))) ds ds'"
    by (rule list_all2_mono [OF ds'(2)]) (auto simp: replaced_def split: if_split_asm)
  with local_frontier [OF still thr(1), of w n] merged_frontier_cong
  have "frontier_for (local_impl B)
      (create_snapshot_readers (local_impl B) local_reader_new w n ReconstructFrontier thresholds (map (apsnd Some) ds'))
      = Some (Ok (merged_frontier B thr ds))" by metis
  with rs(1) ds' access mode(2) show ?thesis
    by (auto simp: read_snapshot_def on_before_reading_snapshot_def o_def Let_def)
qed

end

section \<open>Crashes\<close>

text \<open>The operations of a local writer, whose file is opened at time \<open>t0\<close>; a write carries how much
  \<open>BufWriter\<close> passes on. A crash leaves the directory after any of them.\<close>

datatype local_op = LWrite event nat | LFlush

fun local_run :: "'b bincode \<Rightarrow> nat \<Rightarrow> local_op list \<Rightarrow> 'b local_writer \<Rightarrow> 'b local_writer" where
  "local_run B t0 [] w = w"
| "local_run B t0 (LWrite e spill # ops) w = local_run B t0 ops (local_write B t0 spill e w)"
| "local_run B t0 (LFlush # ops) w = local_run B t0 ops (local_flush w)"

fun written_events :: "local_op list \<Rightarrow> event list" where
  "written_events [] = []"
| "written_events (LWrite e spill # ops) = e # written_events ops"
| "written_events (LFlush # ops) = written_events ops"

lemma local_run_append: "local_run B t0 (xs @ ys) w = local_run B t0 ys (local_run B t0 xs w)"
  by (induction B t0 xs w rule: local_run.induct) simp_all

lemma written_events_append [simp]: "written_events (xs @ ys) = written_events xs @ written_events ys"
  by (induction xs rule: written_events.induct) simp_all

context bincode_crate begin

lemma written_run: "written B dir t0 es w \<Longrightarrow> written B dir t0 (es @ written_events ops) (local_run B t0 ops w)"
proof (induction ops arbitrary: es w rule: written_events.induct)
  case (2 e spill ops)
  from "2.IH" [OF written_write [OF "2.prems" refl]] show ?case by simp
next
  case (3 ops)
  from "3.IH" [OF written_flush(1) [OF "3.prems"]] show ?case by simp
qed simp

lemma file_grows:
  assumes "lw_lazy w = Some (name, buffer)" and "lw_dir w = AList.update name c dir"
  shows "\<exists>c' buffer'. lw_lazy (local_run B t0 ops w) = Some (name, buffer')
    \<and> lw_dir (local_run B t0 ops w) = AList.update name c' dir \<and> prefix c c'"
  using assms
proof (induction ops arbitrary: w c buffer rule: written_events.induct)
  case (2 e spill ops)
  let ?b = "buffer @ bc_serialize B e"
  have "lw_lazy (local_write B t0 spill e w) = Some (name, drop spill ?b)"
    "lw_dir (local_write B t0 spill e w) = AList.update name (c @ take spill ?b) dir"
    using "2.prems" by (simp_all add: local_write_def append_file_update Let_def)
  from "2.IH" [OF this] show ?case by simp (blast dest: append_prefixD)
next
  case (3 ops)
  have "lw_lazy (local_flush w) = Some (name, [])" "lw_dir (local_flush w) = AList.update name (c @ buffer) dir"
    using "3.prems" by (simp_all add: local_flush_def append_file_update)
  from "3.IH" [OF this] show ?case by simp (blast dest: append_prefixD)
qed auto

text \<open>Nothing flushed is lost, and what is found behind it is a prefix of what was written later.\<close>

lemma crash_events:
  assumes dir: "dir_ok B dir" and t0: "t0 < 2 ^ 64" "\<forall>t \<in> set (parsed_times (map fst dir)). unat t < t0"
    and w: "w = local_run B t0 (ops @ LFlush # later) (local_writer_new dir)"
  shows "\<exists>es. prefix es (written_events later) \<and> dir_ok B (lw_dir w)
    \<and> dir_events B (lw_dir w) = dir_events B dir @ written_events ops @ es"
proof -
  let ?w1 = "local_flush (local_run B t0 ops (local_writer_new dir))"
  have w': "w = local_run B t0 later ?w1" using w by (simp add: local_run_append)
  have w1: "written B dir t0 (written_events ops) (local_run B t0 ops (local_writer_new dir))"
    using written_run [OF written_new, of dir t0 ops] by simp
  have all: "written B dir t0 (written_events ops @ written_events later) w"
    using written_run [OF written_flush(1) [OF w1], of later] w' by simp
  have durable: "prefix (encode_all B (written_events ops)) c"
    if c: "lw_lazy w = Some (name, buffer)" "lw_dir w = AList.update name c dir" for name buffer c
  proof (cases "lw_lazy (local_run B t0 ops (local_writer_new dir))")
    case None
    then show ?thesis using w1 by (simp add: written_def)
  next
    case (Some nb)
    then have "lw_dir ?w1 = AList.update (show_nat t0) (encode_all B (written_events ops)) dir"
      using written_flush(2) [OF w1] by simp
    moreover have "lw_lazy ?w1 = Some (show_nat t0, [])"
      using Some w1 by (auto simp: local_flush_def written_def split: prod.splits)
    ultimately obtain c' buffer' where "lw_lazy w = Some (show_nat t0, buffer')"
      "lw_dir w = AList.update (show_nat t0) c' dir" "prefix (encode_all B (written_events ops)) c'"
      using file_grows [of ?w1 "show_nat t0" "[]"] w' by blast
    moreover from this c have "c' = c" by (metis option.inject prod.inject update_conv fun_upd_same)
    ultimately show ?thesis by simp
  qed
  show ?thesis
  proof (cases "lw_lazy w")
    case None
    with all dir show ?thesis by (auto simp: written_def)
  next
    case (Some nb)
    with all obtain c buffer where c: "lw_lazy w = Some (show_nat t0, buffer)" "lw_dir w = AList.update (show_nat t0) c dir"
      "c @ buffer = encode_all B (written_events ops @ written_events later)" by (auto simp: written_def)
    from durable [OF c(1,2)] obtain rest where
      rest: "c = encode_all B (written_events ops) @ rest" by (auto simp: prefix_def)
    with c(3) have "rest @ buffer = encode_all B (written_events later)" by simp
    then have "prefix rest (encode_all B (written_events later))" by (metis prefixI)
    from prefix_readable [OF this] have r: "readable B rest" "prefix (decode_all B rest) (written_events later)" by blast+
    from r(1) obtain es tail where "rest = encode_all B es @ tail" "torn B tail" by (auto simp: readable_def)
    then have "readable B c" using readable_encode [of tail "written_events ops @ es"] rest by simp
    note app = appended_dir [OF dir t0 this]
    moreover have "decode_all B c = written_events ops @ decode_all B rest"
      by (simp add: rest decode_encode_append)
    ultimately show ?thesis using c(2) r(2) by auto
  qed
qed

end

lemma replayed_append:
  assumes "\<exists>e \<in> set es. ends thr e"
  shows "replayed thr (es @ fs) = replayed thr es" and "kept thr (es @ fs) = kept thr es"
proof -
  show "replayed thr (es @ fs) = replayed thr es" using assms by (auto simp: replayed_def takeWhile_append1)
  show "kept thr (es @ fs) = kept thr es"
    using assms
  proof (induction es)
    case (Cons e es)
    then show ?case by (cases "ends thr e") auto
  qed simp
qed

section \<open>Properties of the replay\<close>

text \<open>C8. A restart replays exactly the past up to the threshold. Reading the snapshots returns; what a
  worker sends are the events of the former workers assigned to it that come before the first time
  advancement at or beyond the threshold, in order; its snapshots are then truncated right behind
  that advancement, those of the others are as they were; and the frontier the source is sought to is
  the merge of the frontiers recorded at these advancements.\<close>

theorem read_snapshot_exact:
  assumes "bincode_crate B"
    and "\<forall>d \<in> set (map snd ds). dir_ok B d \<and> EvFinished \<notin> set (dir_events B d)" and "0 < n"
    and "min_threshold_time thresholds = thr" "thr \<noteq> At 0"
    and "mode \<noteq> RealtimeReplay" "mode \<noteq> Batch" and "is_replay_allowed access"
  shows "\<exists>ds'. read_snapshot (local_impl B) local_reader_new (Some \<circ> lr_dir) w n access mode now True thresholds
        (map (apsnd Some) ds)
      = Some (Ok (own_replay B w n mode thr ds, merged_frontier B thr ds, map (apsnd Some) ds'))
    \<and> list_all2 (replaced w n (\<lambda>d d'. dir_ok B d' \<and> dir_events B d' = kept thr (dir_events B d))) ds ds'"
  using bincode_crate.local_read_snapshot [OF assms] .

lemma unit_encode: "encode_all unit_bincode es = es"
  by (simp add: encode_all_def unit_bincode_def)

lemma unit_dir_ok: "dir_ok unit_bincode [(show_nat 7, es)]"
proof -
  have "readable unit_bincode es" using unit_bincode.readable_encode [of "[]" es] by (simp add: unit_encode)
  moreover have "show_nat 7 = timestamp_to_string 7" by (simp add: timestamp_to_string_def)
  ultimately show ?thesis by (auto simp: dir_ok_def intro!: exI [of _ "[7]"])
qed

lemma unit_dir_events: "dir_events unit_bincode [(show_nat 7, es)] = es"
proof -
  have "show_nat 7 = timestamp_to_string 7" by (simp add: timestamp_to_string_def)
  moreover have "decode_all unit_bincode es = es" using unit_bincode.decode_encode [of es] by (simp add: unit_encode)
  ultimately show ?thesis
    using parsed_times_strings [of "[7]"] by (simp add: dir_events_def file_events_def)
qed

theorem read_snapshot_exact_witness:
  "let d = [(show_nat 7, [EvInsert 1 [], EvAdvanceTime 4 [(OffsetKeyEmpty, OffsetValueEmpty)], EvInsert 2 [],
        EvAdvanceTime 6 [], EvInsert 3 []])]
   in \<exists>ds'. read_snapshot (local_impl unit_bincode) local_reader_new (Some \<circ> lr_dir) 0 1 AccessFull Persisting 9 True
        [At 6, Done] [(0, Some d)]
      = Some (Ok ([EvInsert 1 [], EvInsert 2 []], [], map (apsnd Some) ds'))"
proof -
  let ?es = "[EvInsert 1 [], EvAdvanceTime 4 [(OffsetKeyEmpty, OffsetValueEmpty)], EvInsert 2 [],
    EvAdvanceTime 6 [], EvInsert 3 []]"
  let ?d = "[(show_nat 7, ?es)]"
  have "\<forall>d \<in> set (map snd [(0 :: nat, ?d)]). dir_ok unit_bincode d \<and> EvFinished \<notin> set (dir_events unit_bincode d)"
    using unit_dir_ok [of ?es] unit_dir_events [of ?es] by simp
  moreover have "min_threshold_time [At 6, Done] = At 6" by (simp add: min_threshold_time_def min_def)
  ultimately obtain ds' where "read_snapshot (local_impl unit_bincode) local_reader_new (Some \<circ> lr_dir) 0 1 AccessFull
      Persisting 9 True [At 6, Done] (map (apsnd Some) [(0, ?d)])
    = Some (Ok (own_replay unit_bincode 0 1 Persisting (At 6) [(0, ?d)], merged_frontier unit_bincode (At 6) [(0, ?d)],
        map (apsnd Some) ds'))"
    using read_snapshot_exact [OF unit_bincode.bincode_crate_axioms, of "[(0, ?d)]" 1 "[At 6, Done]" "At 6" Persisting
        AccessFull 0 9] by (auto simp: is_replay_allowed_def)
  then show ?thesis
    by (simp add: own_replay_def merged_frontier_def unit_dir_events sent_in_def replayed_def kept_def ends_def
        merge_two_frontiers_def Let_def)
qed

lemma replay_after_crash:
  assumes B: "bincode_crate B" and dir: "dir_ok B dir" and t0: "t0 < 2 ^ 64" "\<forall>t \<in> set (parsed_times (map fst dir)). unat t < t0"
    and fin: "EvFinished \<notin> set (dir_events B dir @ written_events ops @ written_events later)"
    and thr: "thr \<noteq> At 0" "\<exists>e \<in> set (dir_events B dir @ written_events ops). ends thr e"
    and crash: "crashed = lw_dir (local_run B t0 (ops @ LFlush # later) (local_writer_new dir))"
  shows "\<exists>d'. read_snapshot (local_impl B) local_reader_new (Some \<circ> lr_dir) 0 1 AccessFull Persisting now True [thr]
        [(0, Some crashed)]
      = Some (Ok (sent_in Persisting (replayed thr (dir_events B dir @ written_events ops)),
          merge_two_frontiers [] (frontier_at [] (kept thr (dir_events B dir @ written_events ops))), [(0, Some d')]))
    \<and> dir_events B d' = kept thr (dir_events B dir @ written_events ops)"
proof -
  from bincode_crate.crash_events [OF B dir t0 refl, of later ops] obtain es where
    es: "prefix es (written_events later)" "dir_ok B crashed"
      "dir_events B crashed = (dir_events B dir @ written_events ops) @ es"
    unfolding crash by auto
  then have "set es \<subseteq> set (written_events later)" by (simp add: set_mono_prefix)
  with fin es have "\<forall>d \<in> set (map snd [(0 :: nat, crashed)]). dir_ok B d \<and> EvFinished \<notin> set (dir_events B d)"
    by auto
  from bincode_crate.local_read_snapshot [OF B this, of 1 "[thr]" thr Persisting AccessFull 0 now] thr(1)
  obtain ds' where
    read: "read_snapshot (local_impl B) local_reader_new (Some \<circ> lr_dir) 0 1 AccessFull Persisting now True [thr]
        (map (apsnd Some) [(0, crashed)])
      = Some (Ok (own_replay B 0 1 Persisting thr [(0, crashed)], merged_frontier B thr [(0, crashed)], map (apsnd Some) ds'))"
    "list_all2 (replaced 0 1 (\<lambda>d d'. dir_ok B d' \<and> dir_events B d' = kept thr (dir_events B d))) [(0, crashed)] ds'"
    by (auto simp: min_threshold_time_def is_replay_allowed_def)
  from read(2) obtain d' where "ds' = [(0, d')]" "dir_events B d' = kept thr (dir_events B crashed)"
    by (auto simp: replaced_def list_all2_Cons1)
  with read(1) replayed_append [OF thr(2), of es] es(3) show ?thesis
    by (simp add: own_replay_def merged_frontier_def)
qed

text \<open>C1. Recovery does not depend on where the worker crashed. A writer works on a directory of past
  runs, flushes, and goes on; after the crash the directory holds whatever \<open>BufWriter\<close> had passed on.
  If a time advancement at or beyond the threshold was written before the flush, as it is when the
  threshold is committed only after flushing, the restart replays the events before it, seeks to the
  frontier recorded with it, and leaves a snapshot that ends with it.\<close>

theorem crash_recovery:
  assumes B: "bincode_crate B" and dir: "dir_ok B dir" and t0: "t0 < 2 ^ 64" "\<forall>t \<in> set (parsed_times (map fst dir)). unat t < t0"
    and fin: "EvFinished \<notin> set (dir_events B dir @ written_events ops @ written_events later)"
    and thr: "thr \<noteq> At 0" "\<exists>e \<in> set (dir_events B dir @ written_events ops). ends thr e"
    and crash: "crashed = lw_dir (local_run B t0 (ops @ LFlush # later) (local_writer_new dir))"
  shows "\<exists>d'. read_snapshot (local_impl B) local_reader_new (Some \<circ> lr_dir) 0 1 AccessFull Persisting now True [thr]
        [(0, Some crashed)]
      = Some (Ok (sent_in Persisting (replayed thr (dir_events B dir @ written_events ops)),
          merge_two_frontiers [] (frontier_at [] (kept thr (dir_events B dir @ written_events ops))), [(0, Some d')]))
    \<and> dir_events B d' = kept thr (dir_events B dir @ written_events ops)"
  using replay_after_crash [OF assms] .

theorem crash_recovery_witness:
  "\<exists>d'. read_snapshot (local_impl unit_bincode) local_reader_new (Some \<circ> lr_dir) 0 1 AccessFull Persisting 9 True [At 6]
      [(0, Some (lw_dir (local_run unit_bincode 5
         [LWrite (EvInsert 1 []) 0, LWrite (EvAdvanceTime 6 []) 1, LFlush, LWrite (EvInsert 2 []) 1, LWrite (EvInsert 3 []) 0]
         (local_writer_new []))))]
    = Some (Ok ([EvInsert 1 []], [], [(0, Some d')]))"
proof -
  have "dir_ok unit_bincode []" "dir_events unit_bincode [] = []" "parsed_times (map fst ([] :: event dir)) = []"
    by (simp_all add: dir_ok_def dir_events_def parsed_times_def List.map_filter_def)
  then show ?thesis
    using crash_recovery [OF unit_bincode.bincode_crate_axioms, of "[]" 5
        "[LWrite (EvInsert 1 []) 0, LWrite (EvAdvanceTime 6 []) 1]" "[LWrite (EvInsert 2 []) 1, LWrite (EvInsert 3 []) 0]"
        "At 6" _ 9, OF _ _ _ _ _ _ refl]
    by (simp add: ends_def replayed_def kept_def sent_in_def merge_two_frontiers_def) blast
qed

text \<open>The readers are created all or none: when one former worker assigned to this one has no
  snapshot of a source, nothing of the source is replayed and its frontier is empty, whatever the
  other snapshots hold.\<close>

lemma missing_snapshot_skips_all:
  "read_snapshot (local_impl B) local_reader_new (Some \<circ> lr_dir) 0 1 AccessFull Persisting now True [At 6]
      [(0, Some dir), (1, None)]
    = Some (Ok ([], [], [(0, Some dir), (1, None)]))"
  by (simp add: read_snapshot_def is_replay_allowed_def on_before_reading_snapshot_def create_snapshot_readers_def
      assigned_ReadSnapshot assigned_ReconstructFrontier local_reader_new_def rewind_from_disk_snapshot_def
      frontier_for_def offset_antichain_new_def includes_worker_def Let_def)

text \<open>At threshold zero nothing is replayed and the own snapshots are emptied, but the frontier is
  still read from the snapshots of the other workers, up to their first time advancement.\<close>

lemma zero_threshold_keeps_frontier:
  assumes "bincode_crate B" and "dir_ok B d" and "EvFinished \<notin> set (dir_events B d)"
  shows "read_snapshot (local_impl B) local_reader_new (Some \<circ> lr_dir) 0 2 AccessFull Persisting now True [At 0]
      [(1, Some d)]
    = Some (Ok ([], merged_frontier B (At 0) [(1, d)], [(1, Some d)]))"
proof -
  have "frontier_for (local_impl B)
      (create_snapshot_readers (local_impl B) local_reader_new 0 2 ReconstructFrontier [At 0] [(1, Some d)])
      = Some (Ok (merged_frontier B (At 0) [(1, d)]))"
    using bincode_crate.local_frontier [OF assms(1), of "[(1, d)]" "[At 0]" "At 0" 0 2] assms(2,3)
    by (simp add: min_threshold_time_def)
  then show ?thesis
    by (simp add: read_snapshot_def is_replay_allowed_def on_before_reading_snapshot_def
        create_snapshot_readers_def [of _ _ _ _ ReadSnapshot] includes_worker_def rewind_from_disk_snapshot_def Let_def)
qed

end
