(* ===== verification/Recovery.thy ===== *)
theory Recovery
  imports Metadata Replay
begin

text \<open>
  What persistence guarantees as a whole, over the theories \<open>Metadata\<close> and \<open>Replay\<close>: the threshold
  times found at a restart are those the past runs committed, whatever was being written when the worker
  stopped, and the snapshots are replayed up to them.
\<close>

section \<open>A text for metadata\<close>

text \<open>An executable instance of the contract of the JSON text: numbers, separated by commas and ended by a
  brace.\<close>

lemma trim_end_brace: "trim_end (s @ ''}'') = s @ ''}''"
  by (rule trim_end_id) (simp_all add: ascii_graph_def)

lemma first_stripped_suffix: "first_stripped ps s = Some t \<Longrightarrow> set t \<subseteq> set s"
  by (induction ps) (auto simp: strip_prefix_eq split: option.splits)

lemma set_trim_loop: "set (trim_loop n ws s) \<subseteq> set s"
proof (induction n arbitrary: s)
  case (Suc n)
  show ?case
  proof (cases "first_stripped ws s")
    case (Some t)
    then show ?thesis using Suc [of t] first_stripped_suffix [OF Some] by simp
  qed simp
qed simp

lemma set_trim_end: "set (trim_end s) \<subseteq> set s"
  using set_trim_loop [of "length s" "map rev white_spaces" "rev s"] by (simp add: trim_end_def)

definition st_list :: "storage_type list" where
  "st_list = [StFileSystem, StS3Csv, StS3Lines, StCsvFilesystem, StKafka, StPython, StSqlite]"

fun st_code :: "storage_type \<Rightarrow> nat" where
  "st_code StFileSystem = 0"
| "st_code StS3Csv = 1"
| "st_code StS3Lines = 2"
| "st_code StCsvFilesystem = 3"
| "st_code StKafka = 4"
| "st_code StPython = 5"
| "st_code StSqlite = 6"

fun numbers :: "(u128 \<times> storage_type) list \<Rightarrow> nat list" where
  "numbers [] = []"
| "numbers ((pid, st) # m) = unat pid # st_code st # numbers m"

fun of_numbers :: "nat list \<Rightarrow> (u128 \<times> storage_type) list option" where
  "of_numbers [] = Some []"
| "of_numbers [_] = None"
| "of_numbers (p # s # ns) =
     Option.bind (nth_opt st_list s) (\<lambda>st. map_option (Cons (of_nat p, st)) (of_numbers ns))"

fun frontier_number :: "timestamp total_frontier \<Rightarrow> nat" where
  "frontier_number (At t) = unat t"
| "frontier_number Done = 2 ^ 64"

fun of_fields :: "nat list \<Rightarrow> stored_metadata option" where
  "of_fields [] = None"
| "of_fields (n # ns) =
     map_option (\<lambda>m. \<lparr>sm_storage_types = m, sm_last_advanced_timestamp = (if n = 2 ^ 64 then Done else At (of_nat n))\<rparr>)
       (of_numbers ns)"

fun parse_all :: "string list \<Rightarrow> nat list option" where
  "parse_all [] = Some []"
| "parse_all (s # ss) = Option.bind (parse_unsigned 128 s) (\<lambda>n. map_option (Cons n) (parse_all ss))"

definition plain_json :: metadata_codec where
  "plain_json =
     \<lparr>mj_from_str = (\<lambda>s. if s \<noteq> [] \<and> last s = CHR ''}'' then Option.bind (parse_all (split_on (CHR '','') (butlast s))) of_fields else None),
      mj_to_string = (\<lambda>m. join_with '','' (map show_nat
         (frontier_number (sm_last_advanced_timestamp m) # numbers (sm_storage_types m))) @ ''}'')\<rparr>"

lemma of_numbers_numbers: "of_numbers (numbers m) = Some m"
proof (induction m rule: numbers.induct)
  case (2 pid st m)
  have "nth_opt st_list (st_code st) = Some st" by (cases st) (simp_all add: nth_opt_def st_list_def)
  with 2 show ?case by simp
qed simp

lemma parse_all_show: "\<forall>n \<in> set ns. n < 2 ^ 128 \<Longrightarrow> parse_all (map show_nat ns) = Some ns"
  by (induction ns) (simp_all add: parse_unsigned_show del: power_numeral)

lemma numbers_small: "n \<in> set (numbers m) \<Longrightarrow> n < 2 ^ 128"
proof (induction m rule: numbers.induct)
  case (2 pid st m)
  have "unat pid < 2 ^ 128" by (rule order.strict_trans2 [OF unsigned_less]) simp
  moreover have "st_code st < 2 ^ 128" by (cases st) simp_all
  ultimately show ?case using 2 by (auto simp del: power_numeral)
qed simp

lemma frontier_number_small: "frontier_number t < 2 ^ 128"
proof (cases t)
  case (At x)
  have "unat x < 2 ^ 64" by (rule unat_u64)
  then show ?thesis using At by simp
qed simp

lemma of_frontier_number: "(if frontier_number t = 2 ^ 64 then Done else At (of_nat (frontier_number t))) = t"
proof (cases t)
  case (At x)
  have "unat x < 2 ^ 64" by (rule unat_u64)
  then show ?thesis using At by simp
qed simp

lemma show_nat_chars: "c \<in> set (show_nat n) \<Longrightarrow> c \<noteq> CHR '','' \<and> c \<noteq> CHR ''}''"
  using show_nat_digits [of c n] by (auto simp: is_digit_def)

lemma join_with_chars: "c \<in> set (join_with sep xs) \<Longrightarrow> c \<in> set sep \<or> (\<exists>x \<in> set xs. c \<in> set x)"
  by (induction sep xs rule: join_with.induct) auto

interpretation plain_json: metadata_json plain_json
proof unfold_locales
  fix m :: stored_metadata
  let ?ns = "frontier_number (sm_last_advanced_timestamp m) # numbers (sm_storage_types m)"
  have "split_on (CHR '','') (join_with '','' (map show_nat ?ns)) = map show_nat ?ns"
    by (rule split_on_join) (use show_nat_chars in auto)
  moreover have "parse_all (map show_nat ?ns) = Some ?ns"
    by (rule parse_all_show) (use frontier_number_small numbers_small in auto)
  ultimately show "mj_from_str plain_json (trim_end (mj_to_string plain_json m)) = Some m"
    by (simp add: plain_json_def trim_end_brace of_numbers_numbers of_frontier_number
        del: join_with.simps list.simps(9) power_numeral)
next
  fix p and m :: stored_metadata
  assume "strict_prefix p (mj_to_string plain_json m)"
  then have "prefix p (join_with '','' (map show_nat
      (frontier_number (sm_last_advanced_timestamp m) # numbers (sm_storage_types m))))" (is "prefix p ?s")
    by (auto simp: plain_json_def strict_prefix_def simp del: join_with.simps)
  then have "set p \<subseteq> set ?s" by (rule set_mono_prefix)
  moreover have "CHR ''}'' \<notin> set ?s"
    by (auto dest!: join_with_chars show_nat_chars simp del: join_with.simps)
  ultimately have "CHR ''}'' \<notin> set (trim_end p)" using set_trim_end [of p] by blast
  then have "\<not> (trim_end p \<noteq> [] \<and> last (trim_end p) = CHR ''}'')" using last_in_set by fastforce
  then show "mj_from_str plain_json (trim_end p) = None" by (auto simp: plain_json_def)
qed

section \<open>Runs on the file system\<close>

lemma fs_run:
  assumes "metadata_json J" and "\<forall>v \<in> version_set (fs_contents dir) w. v < now"
  shows "reliable_run fs_ops fs_good fs_contents J (fs_contents dir) now w"
  using assms fs.metadata_backend_axioms fs.reliable_backend_axioms
  by (auto simp: reliable_run_def metadata_run_def metadata_run_axioms_def)

interpretation first_run: reliable_run fs_ops fs_good fs_contents plain_json "fs_contents []" now w for now w
  by (rule fs_run) (auto simp: plain_json.metadata_json_axioms version_set_def fs_contents_def dom_def)

lemma restart_latest:
  assumes "fs_good dir" and "accessor_new fs_ops J now dir w = Ok b"
    and "is_latest (block_times J (fs_contents dir) (dom (fs_contents dir)) u) r"
  shows "map_of (acc_past_runs_threshold_times b) u = r"
  using is_latest_unique [OF fs.accessor_new_latest(1) [OF assms(2,1)] assms(3)] .

text \<open>What is on the disk when a worker stops while it writes the next block: the file of that block holds
  a prefix of it.\<close>

definition torn_dir :: "string \<Rightarrow> meta_dir metadata_accessor \<Rightarrow> meta_dir" where
  "torn_dir p a = AList.update (acc_current_key_to_use a) (Some p) (acc_backend a)"

text \<open>C3. A commit of the finalized time is atomic from the second one on. A run commits times, and stops
  while it saves another, with any part of its text in the file. Every operation returned, and the
  next start finds as the threshold of the worker the new time if its text is complete, and otherwise
  the last time committed before; the thresholds of the other workers are what they were.\<close>

theorem metadata_survives_crash:
  assumes J: "metadata_json J" and dir: "fs_good dir" and newer: "\<forall>v \<in> version_set (fs_contents dir) w. v < now"
    and sorted: "sorted (t # ts @ [t'])"
  shows "\<exists>a a'. accessor_new fs_ops J now dir w = Ok a \<and> save_all fs_ops J (t # ts) a = Ok a'
    \<and> (\<forall>p now' w'. prefix p (mj_to_string J ((acc_internal_state a')\<lparr>sm_last_advanced_timestamp := t'\<rparr>)) \<longrightarrow>
        (\<exists>b. accessor_new fs_ops J now' (torn_dir p a') w' = Ok b
          \<and> map_of (acc_past_runs_threshold_times b) w =
              Some (if p = mj_to_string J ((acc_internal_state a')\<lparr>sm_last_advanced_timestamp := t'\<rparr>) then t'
                    else last (t # ts))
          \<and> (\<forall>u. u \<noteq> w \<longrightarrow>
              map_of (acc_past_runs_threshold_times b) u = map_of (acc_past_runs_threshold_times a) u)))"
proof -
  have sorted': "sorted (t # ts)" "last (t # ts) \<le> t'"
    using sorted by (auto simp: sorted_append)
  note run = fs_run [OF J newer]
  obtain a a' where a: "accessor_new fs_ops J now dir w = Ok a" and a': "save_all fs_ops J (t # ts) a = Ok a'"
    and ok: "metadata_run.run_ok fs_good fs_contents J (fs_contents dir) now w (last (t # ts)) a'"
    using reliable_run.run_total [OF run dir refl sorted'(1)] by blast
  have "\<exists>b. accessor_new fs_ops J now' (torn_dir p a') w' = Ok b
      \<and> map_of (acc_past_runs_threshold_times b) w =
          Some (if p = mj_to_string J ((acc_internal_state a')\<lparr>sm_last_advanced_timestamp := t'\<rparr>) then t' else last (t # ts))
      \<and> (\<forall>u. u \<noteq> w \<longrightarrow> map_of (acc_past_runs_threshold_times b) u = map_of (acc_past_runs_threshold_times a) u)"
    if "prefix p (mj_to_string J ((acc_internal_state a')\<lparr>sm_last_advanced_timestamp := t'\<rparr>))" for p now' w'
  proof -
    have good: "fs_good (torn_dir p a')"
      using reliable_run.run_ok_good [OF run ok] by (simp add: torn_dir_def fs_good_update)
    have contents: "fs_contents (torn_dir p a') = (fs_contents (acc_backend a'))(acc_current_key_to_use a' \<mapsto> p)"
      by (simp add: torn_dir_def)
    have time: "sm_last_advanced_timestamp ((acc_internal_state a')\<lparr>sm_last_advanced_timestamp := t'\<rparr>) = t'" by simp
    have le: "last (t # ts) \<le> sm_last_advanced_timestamp ((acc_internal_state a')\<lparr>sm_last_advanced_timestamp := t'\<rparr>)"
      unfolding time by (rule sorted'(2))
    show ?thesis
      using reliable_run.torn_restart [OF run ok le that good contents fs.accessor_new_latest(1) [OF a dir], of now' w',
          unfolded time] .
  qed
  then show ?thesis using a a' by blast
qed

text \<open>A store of one past run, for worker 0, with a block that holds the time 8.\<close>

definition past_dir :: meta_dir where
  "past_dir = [(metadata_key_to_string (from_components 3 0 0),
     Some (mj_to_string plain_json \<lparr>sm_storage_types = [], sm_last_advanced_timestamp = At 8\<rparr>))]"

lemma past_dir_contents:
  "fs_contents past_dir = [metadata_key_to_string (from_components 3 0 0) \<mapsto>
     mj_to_string plain_json \<lparr>sm_storage_types = [], sm_last_advanced_timestamp = At 8\<rparr>]"
  by (rule ext) (simp add: fs_contents_def past_dir_def)

lemma past_dir_good: "fs_good past_dir"
  by (simp add: fs_good_def past_dir_def)

lemma past_dir_newer: "\<forall>v \<in> version_set (fs_contents past_dir) w. v < 5"
  by (auto simp: version_set_def past_dir_contents from_components_def split: if_splits)

lemma past_dir_times: "block_times plain_json (fs_contents past_dir) (dom (fs_contents past_dir)) 0 = {At 8}"
proof -
  have "\<not> obsolete (fs_contents past_dir) (metadata_key_to_string (from_components 3 0 0))"
    by (auto simp: obsolete_def version_set_def past_dir_contents from_components_def split: if_splits)
  then show ?thesis
    unfolding past_dir_contents
    by (auto simp: block_times_def block_of_def plain_json.parse_complete from_components_def)
qed

theorem metadata_survives_crash_witness:
  "\<exists>a a'. accessor_new fs_ops plain_json 5 past_dir 0 = Ok a \<and> save_all fs_ops plain_json [At 10, At 12] a = Ok a'
    \<and> (\<exists>b. accessor_new fs_ops plain_json 6 (torn_dir ''1'' a') 0 = Ok b
        \<and> map_of (acc_past_runs_threshold_times b) 0 = Some (At 12))"
proof -
  have sorted: "sorted (At (10 :: timestamp) # [At 12] @ [At 14])" by simp
  obtain a a' where a: "accessor_new fs_ops plain_json 5 past_dir 0 = Ok a"
    "save_all fs_ops plain_json [At 10, At 12] a = Ok a'"
    and torn: "\<forall>p now' w'. prefix p (mj_to_string plain_json ((acc_internal_state a')\<lparr>sm_last_advanced_timestamp := At 14\<rparr>)) \<longrightarrow>
        (\<exists>b. accessor_new fs_ops plain_json now' (torn_dir p a') w' = Ok b
          \<and> map_of (acc_past_runs_threshold_times b) 0 =
              Some (if p = mj_to_string plain_json ((acc_internal_state a')\<lparr>sm_last_advanced_timestamp := At 14\<rparr>) then At 14
                    else last [At 10, At 12])
          \<and> (\<forall>u. u \<noteq> 0 \<longrightarrow>
              map_of (acc_past_runs_threshold_times b) u = map_of (acc_past_runs_threshold_times a) u))"
    using metadata_survives_crash [OF plain_json.metadata_json_axioms past_dir_good past_dir_newer sorted] by blast
  have "show_nat 14 = ''14''" by code_simp
  then have "\<exists>rest. mj_to_string plain_json ((acc_internal_state a')\<lparr>sm_last_advanced_timestamp := At 14\<rparr>) = ''14'' @ rest"
    by (cases "numbers (sm_storage_types (acc_internal_state a'))") (simp_all add: plain_json_def)
  then have "prefix ''1'' (mj_to_string plain_json ((acc_internal_state a')\<lparr>sm_last_advanced_timestamp := At 14\<rparr>))"
    "''1'' \<noteq> mj_to_string plain_json ((acc_internal_state a')\<lparr>sm_last_advanced_timestamp := At 14\<rparr>)"
    by auto
  with torn [rule_format, of "''1''" 6 0] a show ?thesis by auto
qed

text \<open>C36. The first commit of a run is not atomic. The blocks of the past runs are removed as obsolete when
  a block of a later version exists, before it is known that this block can be read: a worker that stops
  while it saves for the first time leaves a store in which no threshold is found for it, whatever its
  past runs committed.\<close>

theorem torn_first_save_forgets:
  assumes J: "metadata_json J" and dir: "fs_good dir" and newer: "\<forall>v \<in> version_set (fs_contents dir) w. v < now"
  shows "\<exists>a. accessor_new fs_ops J now dir w = Ok a
    \<and> (\<forall>p t now' w'. strict_prefix p (mj_to_string J ((acc_internal_state a)\<lparr>sm_last_advanced_timestamp := t\<rparr>)) \<longrightarrow>
        (\<exists>b. accessor_new fs_ops J now' (torn_dir p a) w' = Ok b \<and> map_of (acc_past_runs_threshold_times b) w = None))"
proof -
  note run = fs_run [OF J newer]
  obtain a where a: "accessor_new fs_ops J now dir w = Ok a" using fs.accessor_new_total [OF dir] by blast
  have fresh: "metadata_run.fresh fs_good fs_contents (fs_contents dir) now w a"
    using metadata_run.accessor_new_fresh [OF reliable_run.axioms(1) [OF run] a dir refl] .
  have good: "fs_good (acc_backend a)" using reliable_run.fresh_good [OF run fresh] .
  have "\<exists>b. accessor_new fs_ops J now' (torn_dir p a) w' = Ok b \<and> map_of (acc_past_runs_threshold_times b) w = None"
    if "strict_prefix p (mj_to_string J ((acc_internal_state a)\<lparr>sm_last_advanced_timestamp := t\<rparr>))" for p t now' w'
    using reliable_run.torn_first_restart [OF run fresh that, of "torn_dir p a" "\<lambda>u. map_of (acc_past_runs_threshold_times a) u" now' w']
      fs.accessor_new_latest(1) [OF a dir] good
    by (auto simp: torn_dir_def fs_good_update)
  then show ?thesis using a by blast
qed

theorem torn_first_save_forgets_witness:
  "\<exists>a b. accessor_new fs_ops plain_json 5 past_dir 0 = Ok a \<and> map_of (acc_past_runs_threshold_times a) 0 = Some (At 8)
    \<and> accessor_new fs_ops plain_json 6 (torn_dir [] a) 0 = Ok b \<and> map_of (acc_past_runs_threshold_times b) 0 = None"
proof -
  obtain a where a: "accessor_new fs_ops plain_json 5 past_dir 0 = Ok a"
    and torn: "\<And>p t now' w'. strict_prefix p (mj_to_string plain_json ((acc_internal_state a)\<lparr>sm_last_advanced_timestamp := t\<rparr>)) \<Longrightarrow>
        \<exists>b. accessor_new fs_ops plain_json now' (torn_dir p a) w' = Ok b \<and> map_of (acc_past_runs_threshold_times b) 0 = None"
    using torn_first_save_forgets [OF plain_json.metadata_json_axioms past_dir_good past_dir_newer [of 0]] by blast
  have "strict_prefix [] (mj_to_string plain_json ((acc_internal_state a)\<lparr>sm_last_advanced_timestamp := At 10\<rparr>))"
    by (simp add: plain_json_def strict_prefix_def)
  moreover have "map_of (acc_past_runs_threshold_times a) 0 = Some (At 8)"
    using restart_latest [OF past_dir_good a] by (simp add: past_dir_times is_latest_def)
  ultimately show ?thesis using a torn by blast
qed

section \<open>The coordinator and the next start\<close>











text \<open>C13. The finalized time runs behind the sinks. While the sinks report times that do not go back, the
  finalized time of the coordinator never goes back and never passes the time of a sink, whatever happens to
  the flushes and to the store.\<close>

theorem finalized_before_sinks:
  assumes "tracker_run M J ops t = Ok t'" and "ordered_reports (wps_sink_threshold_times t) ops"
    and "\<forall>x \<in> set (wps_sink_threshold_times t). last_finalized_timestamp t \<le> x"
  shows "last_finalized_timestamp t \<le> last_finalized_timestamp t'
    \<and> (\<forall>x \<in> set (wps_sink_threshold_times t'). last_finalized_timestamp t' \<le> x)"
  using run_no_later [OF assms(1,2)] assms(3) by (simp add: no_later_than_sinks_def)

theorem finalized_before_sinks_witness:
  "let a = \<lparr>acc_backend = (), acc_internal_state = stored_metadata_new, acc_past_runs_threshold_times = [],
         acc_current_key_to_use = ''5-0-0'', acc_next_key_to_use = ''5-0-1''\<rparr>;
       t = \<lparr>wps_metadata_storage = a, wps_snapshot_writers = [1], wps_sink_threshold_times = [At 0, At 0],
         wps_registered_persistent_ids = [1]\<rparr>;
       ops = [ReportSink True (\<lambda>_. FlushReceived None) 0 (Some 10), ReportSink True (\<lambda>_. FlushReceived None) 1 (Some 12)]
   in \<exists>t'. tracker_run mock_ops plain_json ops t = Ok t' \<and> last_finalized_timestamp t' = At 10
     \<and> (\<forall>x \<in> set (wps_sink_threshold_times t'). At 10 \<le> x)"
proof -
  let ?a = "\<lparr>acc_backend = (), acc_internal_state = stored_metadata_new, acc_past_runs_threshold_times = [],
    acc_current_key_to_use = ''5-0-0'', acc_next_key_to_use = ''5-0-1''\<rparr>"
  let ?t = "\<lparr>wps_metadata_storage = ?a, wps_snapshot_writers = [1], wps_sink_threshold_times = [At 0, At 0],
    wps_registered_persistent_ids = [1]\<rparr>"
  let ?ops = "[ReportSink True (\<lambda>_. FlushReceived None) 0 (Some 10), ReportSink True (\<lambda>_. FlushReceived None) 1 (Some 12)]"
  note run_defs = update_sink_finalized_time_def commit_finalized_timestamp_def wps_accept_finalized_timestamp_def
    save_current_state_def accessor_accept_finalized_timestamp_def last_finalized_timestamp_def
    last_advanced_timestamp_def stored_metadata_new_def mock_ops_def
  obtain t' where t': "tracker_run mock_ops plain_json ?ops ?t = Ok t'" "last_finalized_timestamp t' = At 10"
    by (simp add: run_defs min_def Let_def)
  have "\<forall>x \<in> set (wps_sink_threshold_times ?t). last_finalized_timestamp ?t \<le> x"
    by (simp add: run_defs)
  with finalized_before_sinks [OF t'(1)] t' show ?thesis
    by (simp add: frontier_of_def Let_def)
qed

text \<open>A flush that reports an error of the write counts as saved: only a dropped channel stops the commit.\<close>

lemma prepare_ignores_write_errors: "prepare (map FlushReceived errors) True"
  by (rule prepare_received) auto

end
