(* ===== verification/Formats.thy ===== *)
theory Formats
  imports Snapshots ErrorLog Times
begin

text \<open>
  Parsers and formatters: connectors/data\_format.rs, the reader contexts of connectors/data\_storage.rs
  and the metadata of connectors/metadata.rs.

  A string is the list of its UTF-8 bytes, as characters; the separator of a DSV file is the encoding of
  its character. Hash maps from names are association lists. The text of JSON is serde's, in the
  parameter \<open>X\<close>. A value that failed to parse is an error in its place; a panic while the values of a
  row are computed is a panic of the parser.

  The trait \<open>Parser\<close> is the locale \<open>event_parser\<close> of \<open>FormatLaws\<close>, interpreted there on the five parsers: the
  events a parser returns are those its session type supports, with as many values as it has columns.
\<close>

section \<open>UTF-8 and splitting\<close>

text \<open>How many bytes follow the first byte of a character, and the range of the second byte.\<close>

definition utf8_follow :: "nat \<Rightarrow> (nat \<times> nat \<times> nat) option" where
  "utf8_follow b =
     (if b < 0x80 then Some (0, 0, 0)
      else if b < 0xC2 then None
      else if b < 0xE0 then Some (1, 0x80, 0xBF)
      else if b = 0xE0 then Some (2, 0xA0, 0xBF)
      else if b = 0xED then Some (2, 0x80, 0x9F)
      else if b < 0xF0 then Some (2, 0x80, 0xBF)
      else if b = 0xF0 then Some (3, 0x90, 0xBF)
      else if b < 0xF4 then Some (3, 0x80, 0xBF)
      else if b = 0xF4 then Some (3, 0x80, 0x8F)
      else None)"

function utf8_chars :: "string \<Rightarrow> string list option" where
  "utf8_chars [] = Some []"
| "utf8_chars (c # cs) =
     (case utf8_follow (of_char c) of
        None \<Rightarrow> None
      | Some (n, lo, hi) \<Rightarrow>
          let rest = map of_char (take n cs) :: nat list
          in if length rest = n \<and> (n = 0 \<or> lo \<le> hd rest \<and> hd rest \<le> hi)
                \<and> list_all (\<lambda>b. 0x80 \<le> b \<and> b \<le> 0xBF) (tl rest)
             then map_option (Cons (c # take n cs)) (utf8_chars (drop n cs)) else None)"
  by pat_completeness auto
termination
  by (relation "measure length") auto

fun split_sep :: "char \<Rightarrow> string \<Rightarrow> string \<Rightarrow> string list" where
  "split_sep s sep [] = [[]]"
| "split_sep s sep (c # cs) =
     (case (if c = s then strip_prefix sep cs else None) of
        Some rest \<Rightarrow> if length rest \<le> length cs then [] # split_sep s sep rest else [[]]
      | None \<Rightarrow> (case split_sep s sep cs of [] \<Rightarrow> [[c]] | p # ps \<Rightarrow> (c # p) # ps))"

text \<open>\<open>str::split\<close>; an empty separator splits between any two characters.\<close>

definition str_split :: "string \<Rightarrow> string \<Rightarrow> string list" where
  "str_split separator line =
     (case separator of
        s # sep \<Rightarrow> split_sep s sep line
      | [] \<Rightarrow> [] # (case utf8_chars line of Some cs \<Rightarrow> cs | None \<Rightarrow> []) @ [[]])"

definition chars_of_bytes :: "byte list \<Rightarrow> string" where
  "chars_of_bytes = map (\<lambda>b. char_of (unat b))"

definition bytes_of_chars :: "string \<Rightarrow> byte list" where
  "bytes_of_chars = map byte_of_char"

section \<open>Errors\<close>

datatype formatter_error =
    ColumnsValuesCountMismatch
  | IncorrectColumnIndex
  | TypeNonJsonSerializable ptype
  | ErrorValueNonJsonSerializable
  | UnsupportedValueType

datatype debezium_format_error = OperationFieldMissing | NoPayloadAtTopLevel | IncorrectJsonRoot

datatype parse_error =
    FieldsNotFoundInHeader "string list" "string list"
  | SchemaNotSatisfied string string compound_type
  | UnexpectedNumberOfCsvTokens nat
  | FailedToParseFromJson string json compound_type
  | KeyValueTokensIncorrect nat
  | FailedToExtractJsonField string "string option" json
  | FailedToParseJson string
  | FailedToParseMetadata
  | DebeziumFormatViolated debezium_format_error
  | UnsupportedDebeziumOperation string
  | EmptyKafkaPayload
  | UnsupportedReaderContext
  | Utf8DecodeFailed
  | UnparsableType compound_type
  | ErrorInKey dyn_error
  | NoDefault string
  | IncorrectFieldType Value string compound_type
  and dyn_error = DataErr data_error | ParseErr parse_error | FormatErr formatter_error

definition to_data_error :: "dyn_error \<Rightarrow> data_error" where
  "to_data_error e = (case e of DataErr e \<Rightarrow> e | _ \<Rightarrow> OtherError)"

definition maybe_add_field_name :: "dyn_error \<Rightarrow> string \<Rightarrow> dyn_error" where
  "maybe_add_field_name err field_name =
     (case to_data_error err of
        IncorrectType v ct \<Rightarrow> ParseErr (IncorrectFieldType v field_name ct)
      | err \<Rightarrow> DataErr err)"

type_synonym value_field = "(dyn_error, Value) result"
type_synonym key_fields = "(dyn_error, Value list) result option"

section \<open>Events\<close>

datatype session_type = NativeSession | UpsertSession

datatype data_event_type = DataInsert | DataDelete | DataUpsert

datatype parsed_event_with_errors =
    PeAdvanceTime
  | PeInsert key_fields "value_field list"
  | PeUpsert key_fields "value_field list option"
  | PeDelete key_fields "value_field list"

datatype parsed_event =
    AdvanceTime
  | ParsedInsert "Value list option" "Value list"
  | ParsedUpsert "Value list option" "Value list option"
  | ParsedDelete "Value list option" "Value list"

definition parsed_event_new ::
    "session_type \<Rightarrow> data_event_type \<Rightarrow> key_fields \<Rightarrow> value_field list
      \<Rightarrow> (dyn_error, parsed_event_with_errors) result" where
  "parsed_event_new session_type data_event_type k vs =
     (case session_type of
        NativeSession \<Rightarrow>
          (case data_event_type of
             DataInsert \<Rightarrow> Ok (PeInsert k vs)
           | DataDelete \<Rightarrow> Ok (PeDelete k vs)
           | DataUpsert \<Rightarrow> Panic)
      | UpsertSession \<Rightarrow>
          (case data_event_type of
             DataInsert \<Rightarrow> Panic
           | DataDelete \<Rightarrow> Ok (PeUpsert k None)
           | DataUpsert \<Rightarrow> Ok (PeUpsert k (Some vs))))"

definition parsed_event_key ::
    "(Value list option \<Rightarrow> 'o option \<Rightarrow> ('e, key) result) \<Rightarrow> 'o option \<Rightarrow> parsed_event \<Rightarrow> ('e, key option) result" where
  "parsed_event_key values_to_key offset e =
     (case e of
        ParsedInsert raw_key _ \<Rightarrow> map_ok Some (values_to_key raw_key offset)
      | ParsedUpsert raw_key _ \<Rightarrow> map_ok Some (values_to_key raw_key offset)
      | ParsedDelete raw_key _ \<Rightarrow> map_ok Some (values_to_key raw_key offset)
      | AdvanceTime \<Rightarrow> Ok None)"

definition snapshot_event :: "key \<Rightarrow> parsed_event \<Rightarrow> event option" where
  "snapshot_event k e =
     (case e of
        ParsedInsert _ vs \<Rightarrow> Some (EvInsert k vs)
      | ParsedUpsert _ vs \<Rightarrow> Some (EvUpsert k vs)
      | ParsedDelete _ vs \<Rightarrow> Some (EvDelete k vs)
      | AdvanceTime \<Rightarrow> None)"

section \<open>What readers pass on\<close>

text \<open>\<open>ValuesMap\<close> has unique keys.\<close>

type_synonym values_map = "(string \<times> Value) list"

datatype reader_context =
    RawBytes data_event_type "byte list"
  | TokenizedEntries data_event_type "string list"
  | KeyValue "byte list option" "byte list option"
  | Diff data_event_type "Value list option" values_map

record source_metadata =
  md_created_at :: "u64 option"
  md_modified_at :: "u64 option"
  md_owner :: "string option"
  md_path :: string
  md_seen_at :: u64

datatype read_result =
    Finished
  | NewSource "source_metadata option"
  | FinishedSource bool
  | Data reader_context "offset_key \<times> offset_value"

definition COMMIT_LITERAL :: string where
  "COMMIT_LITERAL = ''*COMMIT*''"

definition METADATA_FIELD_NAME :: string where
  "METADATA_FIELD_NAME = ''_metadata''"

definition SPECIAL_FIELD_NAME :: string where
  "SPECIAL_FIELD_NAME = ''_pw_special''"

definition is_special :: "values_map \<Rightarrow> string \<Rightarrow> bool" where
  "is_special m v \<longleftrightarrow> length m = 1 \<and> map_of m SPECIAL_FIELD_NAME = Some (VString v)"

definition is_commit_literal :: "value_field \<Rightarrow> bool" where
  "is_commit_literal v =
     (case v of
        Ok (VString s) \<Rightarrow> s = COMMIT_LITERAL
      | Ok (VBytes b) \<Rightarrow> b = bytes_of_chars COMMIT_LITERAL
      | _ \<Rightarrow> False)"

text \<open>The object serde derives for the metadata.\<close>

definition source_metadata_json :: "source_metadata \<Rightarrow> json" where
  "source_metadata_json m =
     (let number = (\<lambda>n. JNumber (PosInt n))
      in JObject [(''created_at'', case_option JNull number (md_created_at m)),
           (''modified_at'', case_option JNull number (md_modified_at m)),
           (''owner'', case_option JNull JString (md_owner m)), (''path'', JString (md_path m)),
           (''seen_at'', number (md_seen_at m))])"

definition prepare_plaintext_string :: "byte list \<Rightarrow> (dyn_error, string) result" where
  "prepare_plaintext_string bytes =
     (case utf8_chars (chars_of_bytes bytes) of
        None \<Rightarrow> Err (ParseErr Utf8DecodeFailed)
      | Some _ \<Rightarrow> Ok (trim (chars_of_bytes bytes)))"

section \<open>JSON values\<close>

fun serialize_value_to_json :: "externals \<Rightarrow> Value \<Rightarrow> (formatter_error, json) result" where
  "serialize_value_to_json X VNone = Ok JNull"
| "serialize_value_to_json X (VInt i) = Ok (json_of_i64 (x_json X) i)"
| "serialize_value_to_json X (VFloat f) = Ok (json_of_f64 (x_json X) f)"
| "serialize_value_to_json X (VBool b) = Ok (JBool b)"
| "serialize_value_to_json X (VString s) = Ok (JString s)"
| "serialize_value_to_json X (VPointer p) = Ok (JString (key_display X p))"
| "serialize_value_to_json X (VTuple t) = map_ok JArray (try_collect (map (serialize_value_to_json X) t))"
| "serialize_value_to_json X (VBytes b) = Ok (JArray (map (\<lambda>x. JNumber (PosInt (ucast x))) b))"
| "serialize_value_to_json X (VIntArray a) = Ok (JArray (map (json_of_i64 (x_json X)) (nd_elems (handle_data a))))"
| "serialize_value_to_json X (VFloatArray a) = Ok (JArray (map (json_of_f64 (x_json X)) (nd_elems (handle_data a))))"
| "serialize_value_to_json X (VDateTimeNaive t) = map_ok JString (value_display X (VDateTimeNaive t))"
| "serialize_value_to_json X (VDateTimeUtc t) = map_ok JString (value_display X (VDateTimeUtc t))"
| "serialize_value_to_json X (VDuration d) = map_ok (json_of_i64 (x_json X)) (duration_in X Nanoseconds d)"
| "serialize_value_to_json X (VJson j) = Ok (handle_data j)"
| "serialize_value_to_json X VError = Err ErrorValueNonJsonSerializable"
| "serialize_value_to_json X (VPyObjectWrapper _) = Err (TypeNonJsonSerializable TPyObjectWrapper)"

text \<open>\<open>Err ()\<close> is the code's \<open>None\<close>.\<close>

fun parse_value_from_json :: "externals \<Rightarrow> json \<Rightarrow> (unit, Value) result" where
  "parse_value_from_json X JNull = Ok VNone"
| "parse_value_from_json X (JString s) = Ok (VString s)"
| "parse_value_from_json X (JNumber v) =
     (case json_as_u64 (x_json X) (JNumber v) of
        Some parsed_u64 \<Rightarrow> if uint parsed_u64 \<le> i64_max then Ok (VInt parsed_u64) else Panic
      | None \<Rightarrow>
          (case json_as_i64 (x_json X) (JNumber v) of
             Some parsed_i64 \<Rightarrow> Ok (VInt parsed_i64)
           | None \<Rightarrow> ok_or () (map_option VFloat (json_as_f64 (x_json X) (JNumber v)))))"
| "parse_value_from_json X (JBool v) = Ok (VBool v)"
| "parse_value_from_json X (JArray v) = map_ok VTuple (try_collect (map (parse_value_from_json X) v))"
| "parse_value_from_json X (JObject _) = Err ()"

section \<open>Schemas\<close>

record inner_schema_field =
  sf_type :: compound_type
  sf_default :: "Value option"

definition schema_field_default :: inner_schema_field where
  "schema_field_default = \<lparr>sf_type = \<lparr>ct_type = TAny, ct_is_optional = False\<rparr>, sf_default = None\<rparr>"

definition adjust_value :: "externals \<Rightarrow> inner_schema_field \<Rightarrow> string \<Rightarrow> Value option \<Rightarrow> value_field" where
  "adjust_value X field name v =
     (case v of
        Some v \<Rightarrow>
          if ct_type (sf_type field) = TJson
          then map_ok (value_from_json X) (map_err FormatErr (serialize_value_to_json X v))
          else map_err (\<lambda>e. maybe_add_field_name (DataErr e) name) (convert_value (sf_type field) v)
      | None \<Rightarrow> ok_or (ParseErr (NoDefault name)) (sf_default field))"

definition parse_bool_advanced :: "string \<Rightarrow> bool option" where
  "parse_bool_advanced raw_value =
     (let raw_value_lowercase = to_ascii_lowercase (trim raw_value)
      in if raw_value_lowercase \<in> {''true'', ''yes'', ''on'', ''1'', ''t'', ''y''} then Some True
         else if raw_value_lowercase \<in> {''false'', ''no'', ''off'', ''0'', ''f'', ''n''} then Some False
         else None)"

definition parse_with_type :: "externals \<Rightarrow> string \<Rightarrow> inner_schema_field \<Rightarrow> string \<Rightarrow> value_field" where
  "parse_with_type X raw_value schema field_name =
     (let failed = ParseErr (SchemaNotSatisfied raw_value field_name (sf_type schema));
          main_type = ct_type (sf_type schema)
      in if sf_default schema \<noteq> None \<and> raw_value = [] \<and> main_type \<notin> {TAny, TString}
         then ok_or failed (sf_default schema)
         else (case main_type of
             TAny \<Rightarrow> Ok (VString raw_value)
           | TString \<Rightarrow> Ok (VString raw_value)
           | TBool \<Rightarrow> map_ok VBool (ok_or failed (parse_bool_advanced raw_value))
           | TInt \<Rightarrow> map_ok (\<lambda>i. VInt (word_of_int i)) (ok_or failed (parse_signed 64 raw_value))
           | TFloat \<Rightarrow> map_ok VFloat (ok_or failed (f64_from_str (x_std X) raw_value))
           | TJson \<Rightarrow> map_ok (value_from_json X) (ok_or failed (json_from_str (x_json X) raw_value))
           | _ \<Rightarrow> Err (ParseErr (UnparsableType (sf_type schema)))))"

text \<open>A row of fields: a panic while one of them is computed is a panic.\<close>

definition row_fields :: "value_field list \<Rightarrow> ('e, value_field list) result" where
  "row_fields vs = (if Panic \<in> set vs then Panic else Ok vs)"

section \<open>The DSV parser\<close>

record dsv_settings =
  ds_key_column_names :: "string list option"
  ds_value_column_names :: "string list"
  ds_separator :: string

datatype dsv_column_index = Index nat | Metadata

record dsv_parser =
  dp_settings :: dsv_settings
  dp_schema :: "(string \<times> inner_schema_field) list"
  dp_header :: "string list"
  dp_metadata_column_value :: Value
  dp_key_column_indices :: "dsv_column_index list option"
  dp_value_column_indices :: "dsv_column_index list"
  dp_indexed_schema :: "(nat \<times> inner_schema_field) list"
  dp_dsv_header_read :: bool

definition dsv_parser_new :: "dsv_settings \<Rightarrow> (string \<times> inner_schema_field) list \<Rightarrow> dsv_parser" where
  "dsv_parser_new settings schema =
     \<lparr>dp_settings = settings, dp_schema = schema, dp_header = [], dp_metadata_column_value = VNone,
      dp_key_column_indices = None, dp_value_column_indices = [], dp_indexed_schema = [],
      dp_dsv_header_read = False\<rparr>"

type_synonym requested = "(string \<times> nat list) list"

fun request_columns :: "nat \<Rightarrow> string list \<Rightarrow> nat \<times> requested \<Rightarrow> nat \<times> requested" where
  "request_columns index [] st = st"
| "request_columns index (field # names) (found, requested_indices) =
     (if field = METADATA_FIELD_NAME then request_columns (index + 1) names (found + 1, requested_indices)
      else request_columns (index + 1) names
        (found, AList.update field
           (case map_of requested_indices field of Some indices \<Rightarrow> indices @ [index] | None \<Rightarrow> [index])
           requested_indices))"

fun find_columns ::
    "requested \<Rightarrow> nat \<Rightarrow> string list \<Rightarrow> dsv_column_index list \<times> nat \<Rightarrow> dsv_column_index list \<times> nat" where
  "find_columns requested_indices index [] st = st"
| "find_columns requested_indices index (v # vs) (column_indices, found) =
     find_columns requested_indices (index + 1) vs
       (case map_of requested_indices v of
          Some indices \<Rightarrow> (foldl (\<lambda>cols i. cols[i := Index index]) column_indices indices, found + length indices)
        | None \<Rightarrow> (column_indices, found))"

definition column_indices_by_names ::
    "string list \<Rightarrow> string list \<Rightarrow> (parse_error, dsv_column_index list) result" where
  "column_indices_by_names tokenized_entries sought_names =
     (case request_columns 0 sought_names (0, []) of (found, requested_indices) \<Rightarrow>
        (case find_columns requested_indices 0 tokenized_entries (replicate (length sought_names) Metadata, found) of
           (column_indices, found) \<Rightarrow>
             if found = length sought_names then Ok column_indices
             else Err (FieldsNotFoundInHeader tokenized_entries sought_names)))"

definition indexed_schema_of ::
    "(string \<times> inner_schema_field) list \<Rightarrow> string list \<Rightarrow> (nat \<times> inner_schema_field) list" where
  "indexed_schema_of schema tokenized_entries =
     List.map_filter (\<lambda>(index, item). map_option (Pair index) (map_of schema item))
       (List.enumerate 0 tokenized_entries)"

definition parse_dsv_header :: "string list \<Rightarrow> dsv_parser \<Rightarrow> (dyn_error, unit) result \<times> dsv_parser" where
  "parse_dsv_header tokenized_entries p =
     (let key_indices = (case ds_key_column_names (dp_settings p) of
            Some names \<Rightarrow> map_ok Some (column_indices_by_names tokenized_entries names)
          | None \<Rightarrow> Ok None)
      in case key_indices of
           Err e \<Rightarrow> (Err (ParseErr e), p)
         | Panic \<Rightarrow> (Panic, p)
         | Ok key_column_indices \<Rightarrow>
             let p = p\<lparr>dp_key_column_indices := key_column_indices\<rparr>
             in case column_indices_by_names tokenized_entries (ds_value_column_names (dp_settings p)) of
                  Err e \<Rightarrow> (Err (ParseErr e), p)
                | Panic \<Rightarrow> (Panic, p)
                | Ok value_column_indices \<Rightarrow>
                    (Ok (), p\<lparr>dp_value_column_indices := value_column_indices,
                       dp_indexed_schema := indexed_schema_of (dp_schema p) tokenized_entries,
                       dp_header := tokenized_entries, dp_dsv_header_read := True\<rparr>))"

definition value_by_index :: "externals \<Rightarrow> dsv_parser \<Rightarrow> string list \<Rightarrow> dsv_column_index \<Rightarrow> value_field" where
  "value_by_index X p tokens index =
     (case index of
        Index index \<Rightarrow>
          (case (nth_opt tokens index, nth_opt (dp_header p) index) of
             (Some token, Some name) \<Rightarrow>
               parse_with_type X token
                 (case map_of (dp_indexed_schema p) index of Some item \<Rightarrow> item | None \<Rightarrow> schema_field_default) name
           | _ \<Rightarrow> Panic)
      | Metadata \<Rightarrow> Ok (dp_metadata_column_value p))"

definition values_by_indices ::
    "externals \<Rightarrow> dsv_parser \<Rightarrow> string list \<Rightarrow> dsv_column_index list \<Rightarrow> ('e, value_field list) result" where
  "values_by_indices X p tokens indices = row_fields (map (value_by_index X p tokens) indices)"

definition enough_tokens :: "string list \<Rightarrow> dsv_column_index list \<Rightarrow> bool" where
  "enough_tokens tokens indices =
     list_all (\<lambda>index. case index of Index index \<Rightarrow> index < length tokens | Metadata \<Rightarrow> True) indices"

definition parse_tokenized_entries ::
    "externals \<Rightarrow> data_event_type \<Rightarrow> string list \<Rightarrow> dsv_parser
      \<Rightarrow> (dyn_error, parsed_event_with_errors list) result \<times> dsv_parser" where
  "parse_tokenized_entries X event tokens p =
     (if tokens = [COMMIT_LITERAL] then (Ok [PeAdvanceTime], p)
      else if \<not> dp_dsv_header_read p then
        (case parse_dsv_header tokens p of (r, p) \<Rightarrow> (map_ok (\<lambda>_. []) r, p))
      else if case_option True (enough_tokens tokens) (dp_key_column_indices p)
              \<and> enough_tokens tokens (dp_value_column_indices p) then
        (and_then (case dp_key_column_indices p of
             Some indices \<Rightarrow> map_ok (\<lambda>vs. Some (try_collect vs)) (values_by_indices X p tokens indices)
           | None \<Rightarrow> Ok None) (\<lambda>k.
         and_then (values_by_indices X p tokens (dp_value_column_indices p)) (\<lambda>parsed_tokens.
           case event of
             DataInsert \<Rightarrow> Ok [PeInsert k parsed_tokens]
           | DataDelete \<Rightarrow> Ok [PeDelete k parsed_tokens]
           | DataUpsert \<Rightarrow> Panic)), p)
      else (Err (ParseErr (UnexpectedNumberOfCsvTokens (length tokens))), p))"

definition parse_bytes_simple ::
    "externals \<Rightarrow> data_event_type \<Rightarrow> byte list \<Rightarrow> dsv_parser
      \<Rightarrow> (dyn_error, parsed_event_with_errors list) result \<times> dsv_parser" where
  "parse_bytes_simple X event raw_bytes p =
     (case prepare_plaintext_string raw_bytes of
        Err e \<Rightarrow> (Err e, p)
      | Panic \<Rightarrow> (Panic, p)
      | Ok line \<Rightarrow>
          if line = [] then (Ok [], p)
          else if line = COMMIT_LITERAL then (Ok [PeAdvanceTime], p)
          else parse_tokenized_entries X event (str_split (ds_separator (dp_settings p)) line) p)"

definition dsv_parse ::
    "externals \<Rightarrow> reader_context \<Rightarrow> dsv_parser
      \<Rightarrow> (dyn_error, parsed_event_with_errors list) result \<times> dsv_parser" where
  "dsv_parse X data p =
     (case data of
        RawBytes event raw_bytes \<Rightarrow> parse_bytes_simple X event raw_bytes p
      | TokenizedEntries event tokenized_entries \<Rightarrow> parse_tokenized_entries X event tokenized_entries p
      | KeyValue k v \<Rightarrow>
          (case v of
             Some bytes \<Rightarrow> parse_bytes_simple X DataInsert bytes p
           | None \<Rightarrow> (Err (ParseErr EmptyKafkaPayload), p))
      | Diff _ _ _ \<Rightarrow> (Err (ParseErr UnsupportedReaderContext), p))"

definition dsv_new_source :: "externals \<Rightarrow> source_metadata option \<Rightarrow> dsv_parser \<Rightarrow> dsv_parser" where
  "dsv_new_source X metadata p =
     (let p = p\<lparr>dp_dsv_header_read := False\<rparr>
      in case metadata of
           Some m \<Rightarrow> p\<lparr>dp_metadata_column_value := value_from_json X (source_metadata_json m)\<rparr>
         | None \<Rightarrow> p)"

definition dsv_column_count :: "dsv_parser \<Rightarrow> nat" where
  "dsv_column_count p = length (ds_value_column_names (dp_settings p))"

section \<open>The identity parser\<close>

record identity_parser =
  ip_value_fields :: "string list"
  ip_parse_utf8 :: bool
  ip_metadata_column_value :: Value
  ip_session_type :: session_type

definition prepare_bytes :: "identity_parser \<Rightarrow> byte list \<Rightarrow> value_field" where
  "prepare_bytes p bytes =
     (if ip_parse_utf8 p then map_ok VString (prepare_plaintext_string bytes) else Ok (VBytes bytes))"

text \<open>The columns of a row; the metadata and the value can be taken once.\<close>

fun identity_columns ::
    "Value \<Rightarrow> bool \<Rightarrow> value_field option \<Rightarrow> string list \<Rightarrow> (dyn_error, value_field list) result" where
  "identity_columns metadata_column_value metadata v [] = Ok []"
| "identity_columns metadata_column_value metadata v (field # fs) =
     (if field = METADATA_FIELD_NAME
      then if metadata
           then map_ok (Cons (Ok metadata_column_value)) (identity_columns metadata_column_value False v fs)
           else Panic
      else case v of
             Some v \<Rightarrow> map_ok (Cons v) (identity_columns metadata_column_value metadata None fs)
           | None \<Rightarrow> Panic)"

definition identity_event ::
    "identity_parser \<Rightarrow> data_event_type \<Rightarrow> key_fields \<Rightarrow> value_field
      \<Rightarrow> (dyn_error, parsed_event_with_errors list) result" where
  "identity_event p event k v =
     (if is_commit_literal v then Ok [PeAdvanceTime]
      else and_then (identity_columns (ip_metadata_column_value p) True (Some v) (ip_value_fields p)) (\<lambda>vs.
        case ip_session_type p of
          NativeSession \<Rightarrow>
            (case event of
               DataInsert \<Rightarrow> Ok [PeInsert k vs] | DataDelete \<Rightarrow> Ok [PeDelete k vs] | DataUpsert \<Rightarrow> Panic)
        | UpsertSession \<Rightarrow>
            (case event of
               DataInsert \<Rightarrow> Panic | DataDelete \<Rightarrow> Ok [PeUpsert k None] | DataUpsert \<Rightarrow> Ok [PeUpsert k (Some vs)])))"

definition identity_parse ::
    "reader_context \<Rightarrow> identity_parser
      \<Rightarrow> (dyn_error, parsed_event_with_errors list) result \<times> identity_parser" where
  "identity_parse data p =
     ((case data of
         RawBytes event raw_bytes \<Rightarrow> identity_event p event None (prepare_bytes p raw_bytes)
       | KeyValue k v \<Rightarrow>
           (case v of
              Some bytes \<Rightarrow>
                identity_event p DataInsert (map_option (\<lambda>b. map_ok (\<lambda>k. [k]) (prepare_bytes p b)) k)
                  (prepare_bytes p bytes)
            | None \<Rightarrow> Err (ParseErr EmptyKafkaPayload))
       | Diff _ _ _ \<Rightarrow> Err (ParseErr UnsupportedReaderContext)
       | TokenizedEntries _ _ \<Rightarrow> Err (ParseErr UnsupportedReaderContext)), p)"

definition identity_new_source :: "externals \<Rightarrow> source_metadata option \<Rightarrow> identity_parser \<Rightarrow> identity_parser" where
  "identity_new_source X metadata p =
     (case metadata of
        Some m \<Rightarrow> p\<lparr>ip_metadata_column_value := value_from_json X (source_metadata_json m)\<rparr>
      | None \<Rightarrow> p)"

section \<open>Fields of a JSON object\<close>

type_synonym inner_schema = "(string \<times> inner_schema_field) list"

definition json_field_value :: "externals \<Rightarrow> compound_type \<Rightarrow> string \<Rightarrow> json \<Rightarrow> value_field" where
  "json_field_value X dtype value_field v =
     (if ct_type dtype = TJson then Ok (value_from_json X v)
      else map_err (\<lambda>err. maybe_add_field_name err value_field)
        (and_then (map_err (\<lambda>_. ParseErr (FailedToParseFromJson value_field v dtype)) (parse_value_from_json X v))
           (\<lambda>v. map_err DataErr (convert_value dtype v))))"

definition value_by_name_from_json ::
    "externals \<Rightarrow> json \<Rightarrow> (string \<times> string) list \<Rightarrow> bool \<Rightarrow> inner_schema \<Rightarrow> Value \<Rightarrow> string \<Rightarrow> value_field" where
  "value_by_name_from_json X payload column_paths field_absence_is_error schema metadata_column_value value_field =
     (let schema_item = (case map_of schema value_field of Some item \<Rightarrow> item | None \<Rightarrow> schema_field_default);
          absent = (\<lambda>path. case sf_default schema_item of
              Some d \<Rightarrow> Ok d
            | None \<Rightarrow> if field_absence_is_error
                      then Err (ParseErr (FailedToExtractJsonField value_field path payload)) else Ok VNone)
      in if value_field = METADATA_FIELD_NAME then Ok metadata_column_value
         else case map_of column_paths value_field of
           Some path \<Rightarrow>
             (case json_pointer (x_json X) payload path of
                Some v \<Rightarrow> json_field_value X (sf_type schema_item) value_field v
              | None \<Rightarrow> absent (Some path))
         | None \<Rightarrow>
             (case json_get_key (x_json X) payload value_field of
                Some v \<Rightarrow> json_field_value X (sf_type schema_item) value_field v
              | None \<Rightarrow> absent None))"

definition values_by_names_from_json ::
    "externals \<Rightarrow> json \<Rightarrow> string list \<Rightarrow> (string \<times> string) list \<Rightarrow> bool \<Rightarrow> inner_schema \<Rightarrow> Value
      \<Rightarrow> (dyn_error, value_field list) result" where
  "values_by_names_from_json X payload field_names column_paths field_absence_is_error schema metadata_column_value =
     row_fields (map (value_by_name_from_json X payload column_paths field_absence_is_error schema metadata_column_value)
       field_names)"

section \<open>The Debezium parser\<close>

datatype debezium_db_type = Postgres | MongoDB

record debezium_parser =
  db_key_field_names :: "string list option"
  db_value_field_names :: "string list"
  db_separator :: string
  db_db_type :: debezium_db_type

definition DEBEZIUM_EMPTY_KEY_PAYLOAD :: string where
  "DEBEZIUM_EMPTY_KEY_PAYLOAD =
     ''{'' @ [CHR 0x22] @ ''payload'' @ [CHR 0x22] @ '': {'' @ [CHR 0x22] @ ''before'' @ [CHR 0x22] @ '': {}, ''
       @ [CHR 0x22] @ ''after'' @ [CHR 0x22] @ '': {}}}''"

text \<open>\<open>value["name"]\<close>, which is null where there is no such field.\<close>

definition json_index :: "externals \<Rightarrow> json \<Rightarrow> string \<Rightarrow> json" where
  "json_index X j name = (case json_get_key (x_json X) j name of Some v \<Rightarrow> v | None \<Rightarrow> JNull)"

definition debezium_key :: "externals \<Rightarrow> debezium_parser \<Rightarrow> json \<Rightarrow> (dyn_error, key_fields) result" where
  "debezium_key X p k =
     (case db_key_field_names p of
        None \<Rightarrow> Ok None
      | Some names \<Rightarrow> map_ok (\<lambda>vs. Some (try_collect vs)) (values_by_names_from_json X k names [] True [] VNone))"

definition debezium_parse_event ::
    "externals \<Rightarrow> debezium_parser \<Rightarrow> json \<Rightarrow> json \<Rightarrow> data_event_type
      \<Rightarrow> (dyn_error, parsed_event_with_errors) result" where
  "debezium_parse_event X p k v event =
     and_then (case v of
         JString serialized_json \<Rightarrow>
           ok_or (ParseErr (FailedToParseJson serialized_json)) (json_from_str (x_json X) serialized_json)
       | _ \<Rightarrow> Ok v) (\<lambda>prepared_value.
     and_then (debezium_key X p k) (\<lambda>k.
     and_then (values_by_names_from_json X prepared_value (db_value_field_names p) [] True [] VNone) (\<lambda>parsed_values.
       case event of
         DataInsert \<Rightarrow> Ok (PeInsert k parsed_values)
       | DataDelete \<Rightarrow> Ok (PeDelete k parsed_values)
       | DataUpsert \<Rightarrow> Ok (PeUpsert k (Some parsed_values)))))"

definition parse_read_or_create ::
    "externals \<Rightarrow> debezium_parser \<Rightarrow> json \<Rightarrow> json \<Rightarrow> (dyn_error, parsed_event_with_errors list) result" where
  "parse_read_or_create X p k v =
     map_ok (\<lambda>event. [event])
       (case db_db_type p of
          Postgres \<Rightarrow> debezium_parse_event X p k (json_index X v ''after'') DataInsert
        | MongoDB \<Rightarrow> debezium_parse_event X p k (json_index X v ''after'') DataUpsert)"

definition parse_delete ::
    "externals \<Rightarrow> debezium_parser \<Rightarrow> json \<Rightarrow> json \<Rightarrow> (dyn_error, parsed_event_with_errors list) result" where
  "parse_delete X p k v =
     map_ok (\<lambda>event. [event])
       (case db_db_type p of
          Postgres \<Rightarrow> debezium_parse_event X p k (json_index X v ''before'') DataDelete
        | MongoDB \<Rightarrow> map_ok (\<lambda>k. PeUpsert k None) (debezium_key X p k))"

definition parse_update ::
    "externals \<Rightarrow> debezium_parser \<Rightarrow> json \<Rightarrow> json \<Rightarrow> (dyn_error, parsed_event_with_errors list) result" where
  "parse_update X p k v =
     (case db_db_type p of
        Postgres \<Rightarrow>
          and_then (debezium_parse_event X p k (json_index X v ''before'') DataDelete) (\<lambda>event_before.
          map_ok (\<lambda>event_after. [event_before, event_after])
            (debezium_parse_event X p k (json_index X v ''after'') DataInsert))
      | MongoDB \<Rightarrow>
          map_ok (\<lambda>event_after. [event_after])
            (debezium_parse_event X p k (json_index X v ''after'') DataUpsert))"

definition debezium_key_and_value ::
    "debezium_parser \<Rightarrow> reader_context \<Rightarrow> (dyn_error, string \<times> string) result" where
  "debezium_key_and_value p data =
     (case data of
        RawBytes event raw_bytes \<Rightarrow>
          if event = DataInsert
          then and_then (prepare_plaintext_string raw_bytes) (\<lambda>line.
            let key_and_value = str_split (db_separator p) (trim line)
            in case key_and_value of
                 [k, v] \<Rightarrow> Ok (k, v)
               | _ \<Rightarrow> Err (ParseErr (KeyValueTokensIncorrect (length key_and_value))))
          else Panic
      | KeyValue k v \<Rightarrow>
          and_then (case k of
              Some bytes \<Rightarrow> prepare_plaintext_string bytes
            | None \<Rightarrow> if db_key_field_names p \<noteq> None then Err (ParseErr EmptyKafkaPayload)
                      else Ok DEBEZIUM_EMPTY_KEY_PAYLOAD) (\<lambda>k.
          and_then (case v of
              Some bytes \<Rightarrow> prepare_plaintext_string bytes
            | None \<Rightarrow> Err (ParseErr EmptyKafkaPayload)) (\<lambda>v. Ok (k, v)))
      | Diff _ _ _ \<Rightarrow> Err (ParseErr UnsupportedReaderContext)
      | TokenizedEntries _ _ \<Rightarrow> Err (ParseErr UnsupportedReaderContext))"

definition debezium_change ::
    "externals \<Rightarrow> debezium_parser \<Rightarrow> json \<Rightarrow> json \<Rightarrow> (dyn_error, parsed_event_with_errors list) result" where
  "debezium_change X p change_key change_payload =
     (let key_payload = json_index X change_key ''payload''; payload = json_index X change_payload ''payload''
      in if json_get_key (x_json X) change_payload ''payload'' = None
         then Err (ParseErr (DebeziumFormatViolated NoPayloadAtTopLevel))
         else case json_index X payload ''op'' of
           JString op \<Rightarrow>
             if op = ''r'' \<or> op = ''c'' then parse_read_or_create X p key_payload payload
             else if op = ''u'' then parse_update X p key_payload payload
             else if op = ''d'' then parse_delete X p key_payload payload
             else Err (ParseErr (UnsupportedDebeziumOperation op))
         | _ \<Rightarrow> Err (ParseErr (DebeziumFormatViolated OperationFieldMissing)))"

definition debezium_parse ::
    "externals \<Rightarrow> reader_context \<Rightarrow> debezium_parser
      \<Rightarrow> (dyn_error, parsed_event_with_errors list) result \<times> debezium_parser" where
  "debezium_parse X data p =
     (and_then (debezium_key_and_value p data) (\<lambda>(raw_key_change, raw_value_change).
        case json_from_str (x_json X) raw_value_change of
          None \<Rightarrow> Err (ParseErr (FailedToParseJson raw_value_change))
        | Some JNull \<Rightarrow> Ok []
        | Some (JObject payload_value) \<Rightarrow>
            and_then (ok_or (ParseErr (FailedToParseJson raw_key_change)) (json_from_str (x_json X) raw_key_change))
              (\<lambda>change_key. debezium_change X p change_key (JObject payload_value))
        | Some _ \<Rightarrow> Err (ParseErr (DebeziumFormatViolated IncorrectJsonRoot))), p)"

definition debezium_session_type :: "debezium_parser \<Rightarrow> session_type" where
  "debezium_session_type p = (case db_db_type p of Postgres \<Rightarrow> NativeSession | MongoDB \<Rightarrow> UpsertSession)"

section \<open>The JSON lines parser\<close>

record json_lines_parser =
  jp_key_field_names :: "string list option"
  jp_value_field_names :: "string list"
  jp_column_paths :: "(string \<times> string) list"
  jp_field_absence_is_error :: bool
  jp_schema :: inner_schema
  jp_metadata_column_value :: Value
  jp_session_type :: session_type

definition json_lines_line :: "reader_context \<Rightarrow> (dyn_error, data_event_type \<times> string) result" where
  "json_lines_line data =
     (case data of
        RawBytes event line \<Rightarrow> map_ok (Pair event) (prepare_plaintext_string line)
      | KeyValue _ v \<Rightarrow>
          (case v of
             Some line \<Rightarrow> map_ok (Pair DataInsert) (prepare_plaintext_string line)
           | None \<Rightarrow> Err (ParseErr EmptyKafkaPayload))
      | Diff _ _ _ \<Rightarrow> Err (ParseErr UnsupportedReaderContext)
      | TokenizedEntries _ _ \<Rightarrow> Err (ParseErr UnsupportedReaderContext))"

definition json_lines_values ::
    "externals \<Rightarrow> json_lines_parser \<Rightarrow> json \<Rightarrow> string list \<Rightarrow> (dyn_error, value_field list) result" where
  "json_lines_values X p payload names =
     values_by_names_from_json X payload names (jp_column_paths p) (jp_field_absence_is_error p) (jp_schema p)
       (jp_metadata_column_value p)"

definition json_lines_parse ::
    "externals \<Rightarrow> reader_context \<Rightarrow> json_lines_parser
      \<Rightarrow> (dyn_error, parsed_event_with_errors list) result \<times> json_lines_parser" where
  "json_lines_parse X data p =
     (and_then (json_lines_line data) (\<lambda>(data_event, line).
        if line = [] then Ok []
        else if line = COMMIT_LITERAL then Ok [PeAdvanceTime]
        else and_then (ok_or (ParseErr (FailedToParseJson line)) (json_from_str (x_json X) line)) (\<lambda>payload.
          and_then (case jp_key_field_names p of
              Some names \<Rightarrow> map_ok (\<lambda>vs. Some (try_collect vs)) (json_lines_values X p payload names)
            | None \<Rightarrow> Ok None) (\<lambda>k.
          and_then (json_lines_values X p payload (jp_value_field_names p)) (\<lambda>vs.
            map_ok (\<lambda>event. [event]) (parsed_event_new (jp_session_type p) data_event k vs))))), p)"

definition json_lines_new_source ::
    "externals \<Rightarrow> source_metadata option \<Rightarrow> json_lines_parser \<Rightarrow> json_lines_parser" where
  "json_lines_new_source X metadata p =
     (case metadata of
        Some m \<Rightarrow> p\<lparr>jp_metadata_column_value := value_from_json X (source_metadata_json m)\<rparr>
      | None \<Rightarrow> p)"

section \<open>The transparent parser\<close>

record transparent_parser =
  tp_key_field_names :: "string list option"
  tp_value_field_names :: "string list"
  tp_schema :: inner_schema
  tp_session_type :: session_type

definition transparent_value :: "externals \<Rightarrow> inner_schema \<Rightarrow> values_map \<Rightarrow> string \<Rightarrow> value_field" where
  "transparent_value X schema vs name =
     and_then (unwrap (map_of schema name)) (\<lambda>field. adjust_value X field name (map_of vs name))"

text \<open>The key from the columns is computed even if the reader gave one, and stops at the first error.\<close>

definition transparent_key ::
    "externals \<Rightarrow> transparent_parser \<Rightarrow> Value list option \<Rightarrow> values_map \<Rightarrow> (dyn_error, key_fields) result" where
  "transparent_key X p k vs =
     (let from_columns = map_option (\<lambda>names. try_collect (map (transparent_value X (tp_schema p) vs) names))
            (tp_key_field_names p)
      in if from_columns = Some Panic then Panic
         else Ok (case k of Some k \<Rightarrow> Some (Ok k) | None \<Rightarrow> from_columns))"

definition transparent_parse ::
    "externals \<Rightarrow> reader_context \<Rightarrow> transparent_parser
      \<Rightarrow> (dyn_error, parsed_event_with_errors list) result \<times> transparent_parser" where
  "transparent_parse X data p =
     ((case data of
         Diff data_event k vs \<Rightarrow>
           if is_special vs COMMIT_LITERAL then Ok [PeAdvanceTime]
           else and_then (transparent_key X p k vs) (\<lambda>k.
             and_then (row_fields (map (transparent_value X (tp_schema p) vs) (tp_value_field_names p))) (\<lambda>vs.
               map_ok (\<lambda>event. [event]) (parsed_event_new (tp_session_type p) data_event k vs)))
       | _ \<Rightarrow> Err (ParseErr UnsupportedReaderContext)), p)"

section \<open>Formatters\<close>

record formatter_context =
  fc_payloads :: "string list"
  fc_key :: key
  fc_values :: "Value list"
  fc_time :: timestamp
  fc_diff :: i64

definition formatter_context_new ::
    "string list \<Rightarrow> key \<Rightarrow> Value list \<Rightarrow> timestamp \<Rightarrow> i64 \<Rightarrow> formatter_context" where
  "formatter_context_new payloads k vs time diff =
     \<lparr>fc_payloads = payloads, fc_key = k, fc_values = vs, fc_time = time, fc_diff = diff\<rparr>"

definition new_single_payload :: "string \<Rightarrow> key \<Rightarrow> Value list \<Rightarrow> timestamp \<Rightarrow> i64 \<Rightarrow> formatter_context" where
  "new_single_payload payload k vs time diff = formatter_context_new [payload] k vs time diff"

record dsv_formatter =
  df_settings :: dsv_settings
  df_dsv_header_written :: bool

definition dsv_format ::
    "externals \<Rightarrow> key \<Rightarrow> Value list \<Rightarrow> timestamp \<Rightarrow> i64 \<Rightarrow> dsv_formatter
      \<Rightarrow> (formatter_error, formatter_context) result \<times> dsv_formatter" where
  "dsv_format X k vs time diff f =
     (if length vs \<noteq> length (ds_value_column_names (df_settings f)) then (Err ColumnsValuesCountMismatch, f)
      else
        let sep = ds_separator (df_settings f);
            header = join_with sep (ds_value_column_names (df_settings f) @ [''time'', ''diff'']);
            payloads = (if df_dsv_header_written f then [] else [header])
        in (map_ok (\<lambda>vs. formatter_context_new
               (payloads @ [join_with sep (vs @ [show_nat (unat time), show_int (sint diff)])]) k [] time diff)
             (try_collect (map (value_display X) vs)), f\<lparr>df_dsv_header_written := True\<rparr>))"

definition single_column_format ::
    "nat \<Rightarrow> key \<Rightarrow> Value list \<Rightarrow> timestamp \<Rightarrow> i64 \<Rightarrow> (formatter_error, formatter_context) result" where
  "single_column_format value_field_index k vs time diff =
     and_then (ok_or IncorrectColumnIndex (nth_opt vs value_field_index)) (\<lambda>v.
     and_then (case v of
         VBytes bytes \<Rightarrow> Ok (chars_of_bytes bytes)
       | VString s \<Rightarrow> Ok s
       | _ \<Rightarrow> Err UnsupportedValueType) (\<lambda>payload.
       Ok (new_single_payload payload k vs time diff)))"

definition placeholders :: "nat \<Rightarrow> string" where
  "placeholders n = join_with '','' (map (\<lambda>x. CHR 0x24 # show_nat x) [1 ..< n + 1])"

definition psql_updates_format ::
    "string \<Rightarrow> string list \<Rightarrow> key \<Rightarrow> Value list \<Rightarrow> timestamp \<Rightarrow> i64 \<Rightarrow> (formatter_error, formatter_context) result" where
  "psql_updates_format table_name value_field_names k vs time diff =
     (if length vs \<noteq> length value_field_names then Err ColumnsValuesCountMismatch
      else Ok (new_single_payload
        (''INSERT INTO '' @ table_name @ '' ('' @ join_with '','' value_field_names @ '',time,diff) VALUES (''
          @ placeholders (length vs) @ '','' @ show_nat (unat time) @ '','' @ show_int (sint diff) @ '')'' @ [CHR 0x0A])
        k vs time diff))"

datatype psql_snapshot_formatter_error = RepeatedValueField string | UnknownKey string

record psql_snapshot_formatter =
  ps_table_name :: string
  ps_key_field_names :: "string list"
  ps_value_field_names :: "string list"
  ps_key_field_positions :: "nat list"
  ps_value_field_positions :: "nat list"

fun field_positions_of ::
    "nat \<Rightarrow> string list \<Rightarrow> (string \<times> nat) list \<Rightarrow> (psql_snapshot_formatter_error, (string \<times> nat) list) result" where
  "field_positions_of index [] field_positions = Ok field_positions"
| "field_positions_of index (field_name # names) field_positions =
     (if map_of field_positions field_name \<noteq> None then Err (RepeatedValueField field_name)
      else field_positions_of (index + 1) names (AList.update field_name index field_positions))"

fun take_key_positions ::
    "string list \<Rightarrow> (string \<times> nat) list
      \<Rightarrow> (psql_snapshot_formatter_error, nat list \<times> (string \<times> nat) list) result" where
  "take_key_positions [] field_positions = Ok ([], field_positions)"
| "take_key_positions (key_field_name # names) field_positions =
     and_then (ok_or (UnknownKey key_field_name) (map_of field_positions key_field_name)) (\<lambda>position.
       map_ok (\<lambda>(positions, field_positions). (position # positions, field_positions))
         (take_key_positions names (AList.delete key_field_name field_positions)))"

definition psql_snapshot_formatter_new ::
    "string \<Rightarrow> string list \<Rightarrow> string list \<Rightarrow> (psql_snapshot_formatter_error, psql_snapshot_formatter) result" where
  "psql_snapshot_formatter_new table_name key_field_names value_field_names =
     and_then (field_positions_of 0 value_field_names []) (\<lambda>field_positions.
     and_then (take_key_positions key_field_names field_positions) (\<lambda>(key_field_positions, field_positions).
       Ok \<lparr>ps_table_name = table_name, ps_key_field_names = key_field_names,
           ps_value_field_names = value_field_names, ps_key_field_positions = sort key_field_positions,
           ps_value_field_positions = sort (map snd field_positions)\<rparr>))"

definition psql_snapshot_format ::
    "psql_snapshot_formatter \<Rightarrow> key \<Rightarrow> Value list \<Rightarrow> timestamp \<Rightarrow> i64
      \<Rightarrow> (formatter_error, formatter_context) result" where
  "psql_snapshot_format f k vs time diff =
     (if length vs \<noteq> length (ps_value_field_names f) then Err ColumnsValuesCountMismatch
      else
        let t = show_nat (unat time); d = show_int (sint diff); table = ps_table_name f;
            assignment = (\<lambda>position. map_option (\<lambda>name. name @ ''='' @ [CHR 0x24] @ show_nat (position + 1))
              (nth_opt (ps_value_field_names f) position))
        in and_then (try_collect (map (\<lambda>position. unwrap (map_option (\<lambda>a. table @ ''.'' @ a) (assignment position)))
               (ps_key_field_positions f))) (\<lambda>conditions.
           and_then (try_collect (map (\<lambda>position. unwrap (assignment position)) (ps_value_field_positions f)))
             (\<lambda>update_pairs.
             Ok (new_single_payload
               (''INSERT INTO '' @ table @ '' ('' @ join_with '','' (ps_value_field_names f) @ '',time,diff) VALUES (''
                 @ placeholders (length vs) @ '','' @ t @ '','' @ d @ '') ON CONFLICT (''
                 @ join_with '','' (ps_key_field_names f) @ '') DO UPDATE SET '' @ join_with '','' update_pairs
                 @ '',time='' @ t @ '',diff='' @ d @ '' WHERE '' @ join_with '' AND '' conditions @ '' AND ('' @ table
                 @ ''.time<'' @ t @ '' OR ('' @ table @ ''.time='' @ t @ '' AND '' @ table @ ''.diff=-1))'' @ [CHR 0x0A])
               k vs time diff))))"

text \<open>The serializer writes the entries of the map one after the other, without spaces.\<close>

definition json_object_text :: "externals \<Rightarrow> (string \<times> json) list \<Rightarrow> string" where
  "json_object_text X entries =
     ''{'' @ join_with '','' (map (\<lambda>(k, v). json_to_string (x_json X) (JString k) @ '':'' @ json_to_string (x_json X) v)
       entries) @ ''}''"

definition json_lines_format ::
    "externals \<Rightarrow> string list \<Rightarrow> key \<Rightarrow> Value list \<Rightarrow> timestamp \<Rightarrow> i64
      \<Rightarrow> (formatter_error, formatter_context) result" where
  "json_lines_format X value_field_names k vs time diff =
     map_ok (\<lambda>entries. new_single_payload
         (json_object_text X (entries @ [(''diff'', json_of_i64 (x_json X) diff), (''time'', JNumber (PosInt time))]))
         k [] time diff)
       (try_collect (map (\<lambda>(name, v). map_ok (Pair name) (serialize_value_to_json X v)) (zip value_field_names vs)))"

definition null_format ::
    "key \<Rightarrow> Value list \<Rightarrow> timestamp \<Rightarrow> i64 \<Rightarrow> (formatter_error, formatter_context) result" where
  "null_format k vs time diff = Ok (formatter_context_new [] k [] time diff)"

definition identity_format ::
    "key \<Rightarrow> Value list \<Rightarrow> timestamp \<Rightarrow> i64 \<Rightarrow> (formatter_error, formatter_context) result" where
  "identity_format k vs time diff = Ok (new_single_payload [] k vs time diff)"

end
