(* ===== verification/FormatLaws.thy ===== *)
theory FormatLaws
  imports Formats
begin

text \<open>
  Laws of the parsers and formatters of \<open>Formats\<close>: the contract every parser keeps towards the connector
  and the lookup of DSV columns by name.
\<close>

section \<open>The contract of a parser\<close>

definition no_panics :: "value_field list \<Rightarrow> bool" where
  "no_panics vs \<longleftrightarrow> Panic \<notin> set vs"

definition key_ok :: "key_fields \<Rightarrow> bool" where
  "key_ok k \<longleftrightarrow> k \<noteq> Some Panic"

text \<open>An event for a session of the given type and number of columns.\<close>

fun fits :: "session_type \<Rightarrow> nat \<Rightarrow> parsed_event_with_errors \<Rightarrow> bool" where
  "fits s n PeAdvanceTime = True"
| "fits s n (PeInsert k vs) = (s = NativeSession \<and> length vs = n \<and> no_panics vs \<and> key_ok k)"
| "fits s n (PeDelete k vs) = (s = NativeSession \<and> length vs = n \<and> no_panics vs \<and> key_ok k)"
| "fits s n (PeUpsert k None) = (s = UpsertSession \<and> key_ok k)"
| "fits s n (PeUpsert k (Some vs)) = (s = UpsertSession \<and> length vs = n \<and> no_panics vs \<and> key_ok k)"

locale event_parser =
  fixes parse :: "reader_context \<Rightarrow> 'p \<Rightarrow> (dyn_error, parsed_event_with_errors list) result \<times> 'p"
    and new_source :: "source_metadata option \<Rightarrow> 'p \<Rightarrow> 'p"
    and session :: "'p \<Rightarrow> session_type"
    and columns :: "'p \<Rightarrow> nat"
    and good :: "'p \<Rightarrow> bool"
  assumes parse_fits: "good p \<Longrightarrow> parse data p = (Ok evs, p') \<Longrightarrow> ev \<in> set evs \<Longrightarrow> fits (session p) (columns p) ev"
    and parse_keeps: "good p \<Longrightarrow> good (snd (parse data p)) \<and> session (snd (parse data p)) = session p
      \<and> columns (snd (parse data p)) = columns p"
    and new_source_keeps: "good p \<Longrightarrow> good (new_source m p) \<and> session (new_source m p) = session p
      \<and> columns (new_source m p) = columns p"

lemma row_fields_Ok: "row_fields vs = Ok ws \<longleftrightarrow> ws = vs \<and> no_panics vs"
  by (auto simp: row_fields_def no_panics_def)

lemma try_collect_no_panic: "no_panics vs \<Longrightarrow> try_collect vs \<noteq> Panic"
  by (induction vs) (auto simp: no_panics_def and_then_eq_Panic_iff map_ok_eq_Panic_iff)

lemma key_ok_collect [simp, intro]: "no_panics vs \<Longrightarrow> key_ok (Some (try_collect vs))"
  by (simp add: key_ok_def try_collect_no_panic)

lemma key_ok_None [simp, intro]: "key_ok None"
  by (simp add: key_ok_def)

lemma fits_parsed_event_new:
  "parsed_event_new s d k vs = Ok ev \<Longrightarrow> length vs = n \<Longrightarrow> no_panics vs \<Longrightarrow> key_ok k \<Longrightarrow> fits s n ev"
  by (cases s; cases d) (auto simp: parsed_event_new_def)

subsection \<open>The DSV parser\<close>

definition dsv_good :: "dsv_parser \<Rightarrow> bool" where
  "dsv_good p \<longleftrightarrow> (dp_dsv_header_read p \<longrightarrow> length (dp_value_column_indices p) = dsv_column_count p)"

lemma length_foldl_update [simp]: "length (foldl (\<lambda>cols i. cols[i := x]) cols is) = length cols"
  by (induction "is" arbitrary: cols) simp_all

lemma length_find_columns: "length (fst (find_columns req i vs st)) = length (fst st)"
  by (induction req i vs st rule: find_columns.induct) (auto split: option.splits)

lemma length_column_indices: "column_indices_by_names toks names = Ok cols \<Longrightarrow> length cols = length names"
  using length_find_columns [of "snd (request_columns 0 names (0, []))" 0 toks
      "(replicate (length names) Metadata, fst (request_columns 0 names (0, [])))"]
  by (auto simp: column_indices_by_names_def split: prod.splits if_splits)

lemma header_keeps:
  assumes "\<not> dp_dsv_header_read p" and "parse_dsv_header toks p = (r, p')"
  shows "dsv_good p' \<and> dp_settings p' = dp_settings p"
proof -
  let ?k = "case ds_key_column_names (dp_settings p) of
      Some names \<Rightarrow> map_ok Some (column_indices_by_names toks names) | None \<Rightarrow> Ok None"
  show ?thesis
    using assms length_column_indices [of toks "ds_value_column_names (dp_settings p)"]
    by (cases ?k; cases "column_indices_by_names toks (ds_value_column_names (dp_settings p))")
      (auto simp: parse_dsv_header_def dsv_good_def dsv_column_count_def)
qed

lemma tokenized_keeps:
  assumes "dsv_good p" and "parse_tokenized_entries X e toks p = (r, p')"
  shows "dsv_good p' \<and> dp_settings p' = dp_settings p"
  using assms header_keeps [of p toks]
  by (auto simp: parse_tokenized_entries_def split: if_splits prod.splits)

lemma tokenized_fits:
  assumes "dsv_good p" and "parse_tokenized_entries X e toks p = (Ok evs, p')" and "ev \<in> set evs"
  shows "fits NativeSession (dsv_column_count p) ev"
  using assms
  by (cases e) (auto simp: parse_tokenized_entries_def values_by_indices_def row_fields_Ok result_simps dsv_good_def
      split: if_splits prod.splits option.splits)

lemma bytes_fits:
  assumes "dsv_good p" and "parse_bytes_simple X e b p = (Ok evs, p')" and "ev \<in> set evs"
  shows "fits NativeSession (dsv_column_count p) ev"
proof (cases "prepare_plaintext_string b")
  case (Ok line)
  then show ?thesis
    using assms tokenized_fits [OF assms(1) _ assms(3)]
    by (auto simp: parse_bytes_simple_def split: if_splits)
qed (use assms in \<open>auto simp: parse_bytes_simple_def\<close>)

lemma bytes_keeps:
  assumes "dsv_good p" and "parse_bytes_simple X e b p = (r, p')"
  shows "dsv_good p' \<and> dp_settings p' = dp_settings p"
proof (cases "prepare_plaintext_string b")
  case (Ok line)
  then show ?thesis
    using assms tokenized_keeps [OF assms(1)]
    by (auto simp: parse_bytes_simple_def split: if_splits)
qed (use assms in \<open>auto simp: parse_bytes_simple_def\<close>)

lemma dsv_parse_keeps:
  assumes "dsv_good p" and "dsv_parse X data p = (r, p')"
  shows "dsv_good p' \<and> dp_settings p' = dp_settings p"
proof (cases data)
  case (KeyValue k v)
  then show ?thesis using assms bytes_keeps [OF assms(1)] by (cases v) (auto simp: dsv_parse_def)
qed (use assms bytes_keeps [OF assms(1)] tokenized_keeps [OF assms(1)] in \<open>auto simp: dsv_parse_def\<close>)

interpretation dsv: event_parser "dsv_parse X" "dsv_new_source X" "\<lambda>_. NativeSession" dsv_column_count dsv_good for X
proof unfold_locales
  fix p data evs p' ev
  assume p: "dsv_good p" and parse: "dsv_parse X data p = (Ok evs, p')" and ev: "ev \<in> set evs"
  show "fits NativeSession (dsv_column_count p) ev"
  proof (cases data)
    case (KeyValue k v)
    then show ?thesis using parse bytes_fits [OF p _ ev] by (cases v) (auto simp: dsv_parse_def)
  qed (use parse bytes_fits [OF p _ ev] tokenized_fits [OF p _ ev] in \<open>auto simp: dsv_parse_def\<close>)
next
  fix p data
  assume "dsv_good p"
  then show "dsv_good (snd (dsv_parse X data p)) \<and> NativeSession = NativeSession
      \<and> dsv_column_count (snd (dsv_parse X data p)) = dsv_column_count p"
    using dsv_parse_keeps [of p X data "fst (dsv_parse X data p)" "snd (dsv_parse X data p)"]
    by (simp add: dsv_column_count_def)
next
  fix p m
  assume "dsv_good p"
  then show "dsv_good (dsv_new_source X m p) \<and> NativeSession = NativeSession
      \<and> dsv_column_count (dsv_new_source X m p) = dsv_column_count p"
    by (cases m) (auto simp: dsv_new_source_def dsv_good_def dsv_column_count_def)
qed

subsection \<open>The identity parser\<close>

lemma prepare_bytes_no_panic: "prepare_bytes p b \<noteq> Panic"
  by (auto simp: prepare_bytes_def prepare_plaintext_string_def result_simps split: option.splits)

lemma identity_columns_length:
  "identity_columns mv m v fs = Ok vs \<Longrightarrow> v \<noteq> Some Panic \<Longrightarrow> length vs = length fs \<and> no_panics vs"
  by (induction mv m v fs arbitrary: vs rule: identity_columns.induct)
    (auto simp: no_panics_def result_simps split: if_splits option.splits)

lemma identity_event_fits:
  assumes "identity_event p e k v = Ok evs" and "ev \<in> set evs" and "v \<noteq> Panic" and "key_ok k"
  shows "fits (ip_session_type p) (length (ip_value_fields p)) ev"
  using assms identity_columns_length [of "ip_metadata_column_value p" True "Some v" "ip_value_fields p"]
  by (cases "ip_session_type p"; cases e) (auto simp: identity_event_def result_simps split: if_splits)

interpretation identity: event_parser identity_parse "identity_new_source X" ip_session_type
  "\<lambda>p. length (ip_value_fields p)" "\<lambda>_. True" for X
proof unfold_locales
  fix p data evs p' ev
  assume parse: "identity_parse data p = (Ok evs, p')" and ev: "ev \<in> set evs"
  have key: "key_ok (map_option (\<lambda>b. map_ok (\<lambda>k. [k]) (prepare_bytes p b)) k)" for k
    by (cases k) (auto simp: key_ok_def map_ok_eq_Panic_iff prepare_bytes_no_panic)
  show "fits (ip_session_type p) (length (ip_value_fields p)) ev"
  proof (cases data)
    case (RawBytes e b)
    then show ?thesis using parse ev prepare_bytes_no_panic by (auto simp: identity_parse_def intro: identity_event_fits)
  next
    case (KeyValue k v)
    then show ?thesis
      using parse ev prepare_bytes_no_panic key
      by (cases v) (auto simp: identity_parse_def intro: identity_event_fits)
  qed (use parse in \<open>auto simp: identity_parse_def\<close>)
qed (auto simp: identity_parse_def identity_new_source_def split: option.splits)

subsection \<open>The JSON parsers\<close>

lemma json_values_Ok:
  "values_by_names_from_json X j names paths absence schema mv = Ok vs \<Longrightarrow> length vs = length names \<and> no_panics vs"
  by (auto simp: values_by_names_from_json_def row_fields_Ok)

lemma debezium_key_ok: "debezium_key X p k = Ok r \<Longrightarrow> key_ok r"
  by (auto simp: debezium_key_def result_simps split: option.splits dest: json_values_Ok)

lemma debezium_event_fits:
  assumes "debezium_parse_event X p k v e = Ok ev"
  shows "fits (if e = DataUpsert then UpsertSession else NativeSession) (length (db_value_field_names p)) ev"
  using assms by (cases e)
    (auto simp: debezium_parse_event_def result_simps dest!: json_values_Ok debezium_key_ok)

lemma debezium_upsert_fits:
  "debezium_parse_event X p k v DataUpsert = Ok ev \<Longrightarrow> fits UpsertSession (length (db_value_field_names p)) ev"
  and debezium_native_fits:
  "debezium_parse_event X p k v e = Ok ev \<Longrightarrow> e \<noteq> DataUpsert \<Longrightarrow> fits NativeSession (length (db_value_field_names p)) ev"
  using debezium_event_fits [of X p k v _ ev] by fastforce+

lemma debezium_ops_fit:
  assumes "ev \<in> set evs"
  shows "parse_read_or_create X p k v = Ok evs \<Longrightarrow> fits (debezium_session_type p) (length (db_value_field_names p)) ev"
    and "parse_update X p k v = Ok evs \<Longrightarrow> fits (debezium_session_type p) (length (db_value_field_names p)) ev"
    and "parse_delete X p k v = Ok evs \<Longrightarrow> fits (debezium_session_type p) (length (db_value_field_names p)) ev"
  using assms
  by (cases "db_db_type p"; auto simp: parse_read_or_create_def parse_update_def parse_delete_def
      debezium_session_type_def result_simps intro: debezium_upsert_fits debezium_native_fits dest: debezium_key_ok)+

lemma debezium_change_fits:
  assumes "debezium_change X p k v = Ok evs" and "ev \<in> set evs"
  shows "fits (debezium_session_type p) (length (db_value_field_names p)) ev"
proof -
  obtain op where "json_index X (json_index X v ''payload'') ''op'' = JString op"
    using assms(1) by (cases "json_index X (json_index X v ''payload'') ''op''")
      (auto simp: debezium_change_def Let_def split: if_splits)
  with assms(1) show ?thesis
    using debezium_ops_fit [OF assms(2)] by (auto simp: debezium_change_def Let_def split: if_splits)
qed

lemma debezium_parse_change:
  assumes "debezium_parse X data p = (Ok evs, p')"
  shows "evs = [] \<or> (\<exists>k v. debezium_change X p k v = Ok evs)"
proof -
  obtain rk rv where "debezium_key_and_value p data = Ok (rk, rv)"
    using assms by (auto simp: debezium_parse_def result_simps)
  note parse = assms [unfolded debezium_parse_def this and_then.simps prod.case]
  obtain j where j: "json_from_str (x_json X) rv = Some j"
    using parse by (cases "json_from_str (x_json X) rv") simp_all
  from parse show ?thesis by (cases j) (auto simp: j result_simps)
qed

interpretation debezium: event_parser "debezium_parse X" "\<lambda>_ p. p" debezium_session_type
  "\<lambda>p. length (db_value_field_names p)" "\<lambda>_. True" for X
proof unfold_locales
  fix p data evs p' ev
  assume "debezium_parse X data p = (Ok evs, p')" "ev \<in> set evs"
  then show "fits (debezium_session_type p) (length (db_value_field_names p)) ev"
    using debezium_parse_change debezium_change_fits by fastforce
qed (auto simp: debezium_parse_def)

interpretation json_lines: event_parser "json_lines_parse X" "json_lines_new_source X" jp_session_type
  "\<lambda>p. length (jp_value_field_names p)" "\<lambda>_. True" for X
proof unfold_locales
  fix p data evs p' ev
  assume "json_lines_parse X data p = (Ok evs, p')" "ev \<in> set evs"
  then have "ev = PeAdvanceTime \<or> (\<exists>d k vs. parsed_event_new (jp_session_type p) d k vs = Ok ev
      \<and> length vs = length (jp_value_field_names p) \<and> no_panics vs \<and> key_ok k)"
    by (auto simp: json_lines_parse_def json_lines_values_def result_simps split: option.splits if_splits
        dest!: json_values_Ok) (metis key_ok_None key_ok_collect)+
  then show "fits (jp_session_type p) (length (jp_value_field_names p)) ev"
    using fits_parsed_event_new by fastforce
qed (auto simp: json_lines_parse_def json_lines_new_source_def split: option.splits)

interpretation transparent: event_parser "transparent_parse X" "\<lambda>_ p. p" tp_session_type
  "\<lambda>p. length (tp_value_field_names p)" "\<lambda>_. True" for X
proof unfold_locales
  fix p data evs p' ev
  assume "transparent_parse X data p = (Ok evs, p')" "ev \<in> set evs"
  moreover have "transparent_key X p k vs = Ok r \<Longrightarrow> key_ok r" for k vs r
    by (auto simp: transparent_key_def Let_def key_ok_def split: if_splits option.splits)
  ultimately have "ev = PeAdvanceTime \<or> (\<exists>d k vs. parsed_event_new (tp_session_type p) d k vs = Ok ev
      \<and> length vs = length (tp_value_field_names p) \<and> no_panics vs \<and> key_ok k)"
    by (auto simp: transparent_parse_def row_fields_Ok result_simps split: reader_context.splits if_splits)
      (metis length_map)
  then show "fits (tp_session_type p) (length (tp_value_field_names p)) ev"
    using fits_parsed_event_new by fastforce
qed (auto simp: transparent_parse_def)

section \<open>The lookup of DSV columns\<close>

definition wanted :: "nat \<Rightarrow> string list \<Rightarrow> string \<Rightarrow> nat list" where
  "wanted i names v = (if v = METADATA_FIELD_NAME then [] else map fst (filter (\<lambda>(j, n). n = v) (List.enumerate i names)))"

definition position :: "string list \<Rightarrow> string \<Rightarrow> nat" where
  "position toks v = length (takeWhile (\<lambda>t. t \<noteq> v) toks)"

definition requested_for :: "requested \<Rightarrow> string \<Rightarrow> nat list" where
  "requested_for req v = (case map_of req v of Some is \<Rightarrow> is | None \<Rightarrow> [])"

lemma request_columns_exact:
  "fst (request_columns i names st) = fst st + length (filter (\<lambda>n. n = METADATA_FIELD_NAME) names)"
  "requested_for (snd (request_columns i names st)) v = requested_for (snd st) v @ wanted i names v"
proof (induction i names st rule: request_columns.induct)
  case (1 i st)
  {
    case 1
    then show ?case by simp
  next
    case 2
    then show ?case by (simp add: wanted_def)
  }
next
  case (2 i n names found req)
  {
    case 1
    then show ?case using 2 by simp
  next
    case 2
    then show ?case
      using "2.IH"(2,4) by (auto simp: wanted_def requested_for_def update_conv' split: option.splits)
  }
qed

lemma find_columns_step:
  "find_columns req i (v # vs) (cols, found) =
     find_columns req (i + 1) vs
       (foldl (\<lambda>cols r. cols[r := Index i]) cols (requested_for req v), found + length (requested_for req v))"
  by (simp add: requested_for_def split: option.splits)

lemma nth_foldl_update:
  "r < length cols \<Longrightarrow> foldl (\<lambda>cols r. cols[r := x]) cols rs ! r = (if r \<in> set rs then x else cols ! r)"
  by (induction rs arbitrary: cols) (auto simp: nth_list_update)

lemma set_wanted: "r \<in> set (wanted 0 names v) \<longleftrightarrow> r < length names \<and> names ! r = v \<and> v \<noteq> METADATA_FIELD_NAME"
  by (force simp: wanted_def in_set_enumerate_eq)

lemma length_wanted: "length (wanted i names v) = length (filter (\<lambda>n. n = v \<and> n \<noteq> METADATA_FIELD_NAME) names)"
  by (induction names arbitrary: i) (auto simp: wanted_def)

lemma position_Cons [simp]: "position (t # toks) v = (if t = v then 0 else Suc (position toks v))"
  by (simp add: position_def)

lemma find_columns_exact:
  assumes "\<And>v. requested_for req v = wanted 0 names v" and "distinct vs" and "length cols = length names"
  shows "snd (find_columns req i vs (cols, found))
      = found + length (filter (\<lambda>n. n \<noteq> METADATA_FIELD_NAME \<and> n \<in> set vs) names)
    \<and> (\<forall>r < length names. fst (find_columns req i vs (cols, found)) ! r =
        (if names ! r \<noteq> METADATA_FIELD_NAME \<and> names ! r \<in> set vs then Index (i + position vs (names ! r)) else cols ! r))"
  using assms(2,3)
proof (induction vs arbitrary: i cols found)
  case Nil
  then show ?case by simp
next
  case (Cons v vs)
  let ?cols = "foldl (\<lambda>cols r. cols[r := Index i]) cols (wanted 0 names v)"
  let ?found = "found + length (wanted 0 names v)"
  have IH: "snd (find_columns req (i + 1) vs (?cols, ?found))
      = ?found + length (filter (\<lambda>n. n \<noteq> METADATA_FIELD_NAME \<and> n \<in> set vs) names)"
    "\<And>r. r < length names \<Longrightarrow> fst (find_columns req (i + 1) vs (?cols, ?found)) ! r =
        (if names ! r \<noteq> METADATA_FIELD_NAME \<and> names ! r \<in> set vs then Index (i + 1 + position vs (names ! r)) else ?cols ! r)"
    using Cons.IH [of ?cols "i + 1" ?found] Cons.prems by auto
  have "length (filter (\<lambda>n. n \<noteq> METADATA_FIELD_NAME \<and> n \<in> set (v # vs)) names)
      = length (wanted 0 names v) + length (filter (\<lambda>n. n \<noteq> METADATA_FIELD_NAME \<and> n \<in> set vs) names)"
    using Cons.prems(1) unfolding length_wanted by (induction names) auto
  then show ?case
    using IH Cons.prems unfolding find_columns_step assms(1)
    by (auto simp: nth_foldl_update set_wanted)
qed

lemma filter_all_length: "length (filter P xs) + length (filter Q xs) = length xs \<longleftrightarrow> (\<forall>x \<in> set xs. P x \<or> Q x)"
  if "\<And>x. \<not> (P x \<and> Q x)"
proof -
  have "length (filter P xs) + length (filter Q xs) = length (filter (\<lambda>x. P x \<or> Q x) xs)"
    using that by (induction xs) auto
  moreover have "length (filter R xs) = length xs \<longleftrightarrow> (\<forall>x \<in> set xs. R x)" for R
    using length_filter_less [of _ xs R] filter_True [of xs R] by fastforce
  ultimately show ?thesis by simp
qed

definition column_of :: "string list \<Rightarrow> string \<Rightarrow> dsv_column_index" where
  "column_of toks n = (if n = METADATA_FIELD_NAME then Metadata else Index (position toks n))"

lemma column_indices_exact_aux:
  assumes "distinct toks"
  shows "column_indices_by_names toks names =
    (if set names \<subseteq> insert METADATA_FIELD_NAME (set toks) then Ok (map (column_of toks) names)
     else Err (FieldsNotFoundInHeader toks names))"
proof -
  let ?req = "snd (request_columns 0 names (0, []))" and ?cols = "replicate (length names) Metadata"
  let ?found = "length (filter (\<lambda>n. n = METADATA_FIELD_NAME) names)"
  let ?r = "find_columns ?req 0 toks (?cols, ?found)"
  have wanted: "\<And>v. requested_for ?req v = wanted 0 names v"
    using request_columns_exact(2) [of 0 names "(0, [])"] by (simp add: requested_for_def)
  note exact = find_columns_exact [OF wanted assms, of ?cols 0 ?found]
  have all: "snd ?r = length names \<longleftrightarrow> set names \<subseteq> insert METADATA_FIELD_NAME (set toks)"
    using exact filter_all_length [of "\<lambda>n. n = METADATA_FIELD_NAME" "\<lambda>n. n \<noteq> METADATA_FIELD_NAME \<and> n \<in> set toks" names]
    by auto
  have "fst ?r = map (column_of toks) names" if "set names \<subseteq> insert METADATA_FIELD_NAME (set toks)"
  proof (rule nth_equalityI)
    show "length (fst ?r) = length (map (column_of toks) names)" by (simp add: length_find_columns)
    fix r
    assume "r < length (fst ?r)"
    then have r: "r < length names" by (simp add: length_find_columns)
    then have "names ! r \<in> insert METADATA_FIELD_NAME (set toks)" using that by (meson nth_mem subsetD)
    then show "fst ?r ! r = map (column_of toks) names ! r" using exact r by (auto simp: column_of_def)
  qed
  then show ?thesis
    using all request_columns_exact(1) [of 0 names "(0, [])"]
    by (auto simp: column_indices_by_names_def split: prod.splits)
qed

lemma indexed_schema_lookup:
  "map_of (indexed_schema_of schema toks) i = (if i < length toks then map_of schema (toks ! i) else None)"
proof -
  have "map_of (List.map_filter (\<lambda>(j, item). map_option (Pair j) (map_of schema item)) (List.enumerate k toks)) i
      = (if k \<le> i \<and> i < k + length toks then map_of schema (toks ! (i - k)) else None)" for k
  proof (induction toks arbitrary: k)
    case (Cons t toks)
    show ?case
      using Cons.IH [of "Suc k"]
      by (cases "map_of schema t"; cases "i = k") (auto simp: map_filter_simps nth_Cons' Suc_le_eq)
  qed (auto simp: map_filter_simps)
  from this [of 0] show ?thesis by (simp add: indexed_schema_of_def)
qed

lemma nth_position: "v \<in> set toks \<Longrightarrow> position toks v < length toks \<and> toks ! position toks v = v"
  by (induction toks) auto

text \<open>The cell of a row under a column name of the header.\<close>

definition cell :: "externals \<Rightarrow> dsv_parser \<Rightarrow> string list \<Rightarrow> string list \<Rightarrow> string \<Rightarrow> value_field" where
  "cell X p header row n =
     (if n = METADATA_FIELD_NAME then Ok (dp_metadata_column_value p)
      else parse_with_type X (row ! position header n)
        (case map_of (dp_schema p) n of Some item \<Rightarrow> item | None \<Rightarrow> schema_field_default) n)"

lemma ok_or_no_panic [simp]: "ok_or e x \<noteq> Panic"
  by (cases x) simp_all

lemma parse_with_type_no_panic: "parse_with_type X raw schema name \<noteq> Panic"
  by (cases "ct_type (sf_type schema)") (auto simp: parse_with_type_def Let_def map_ok_eq_Panic_iff)

lemma read_header:
  assumes "distinct header" and "\<not> dp_dsv_header_read p" and "header \<noteq> [COMMIT_LITERAL]"
    and "set (ds_value_column_names (dp_settings p)) \<subseteq> insert METADATA_FIELD_NAME (set header)"
    and "\<forall>names \<in> set_option (ds_key_column_names (dp_settings p)). set names \<subseteq> insert METADATA_FIELD_NAME (set header)"
  shows "parse_tokenized_entries X e header p =
    (Ok [], p\<lparr>dp_key_column_indices := map_option (map (column_of header)) (ds_key_column_names (dp_settings p)),
       dp_value_column_indices := map (column_of header) (ds_value_column_names (dp_settings p)),
       dp_indexed_schema := indexed_schema_of (dp_schema p) header, dp_header := header, dp_dsv_header_read := True\<rparr>)"
  using assms
  by (cases "ds_key_column_names (dp_settings p)")
    (simp_all add: parse_tokenized_entries_def parse_dsv_header_def column_indices_exact_aux)

lemma read_cells:
  assumes "set names \<subseteq> insert METADATA_FIELD_NAME (set header)" and "length header \<le> length row"
    and "dp_header p' = header" "dp_indexed_schema p' = indexed_schema_of (dp_schema p) header"
      "dp_metadata_column_value p' = dp_metadata_column_value p"
  shows "values_by_indices X p' row (map (column_of header) names) = Ok (map (cell X p header row) names)"
    and "enough_tokens row (map (column_of header) names)"
proof -
  have "value_by_index X p' row (column_of header n) = cell X p header row n \<and> Panic \<noteq> cell X p header row n
      \<and> (case column_of header n of Index i \<Rightarrow> i < length row | Metadata \<Rightarrow> True)" if "n \<in> set names" for n
    using that assms nth_position [of n header]
    by (auto simp: value_by_index_def column_of_def cell_def nth_opt_def indexed_schema_lookup
        parse_with_type_no_panic [THEN not_sym])
  then show "values_by_indices X p' row (map (column_of header) names) = Ok (map (cell X p header row) names)"
    and "enough_tokens row (map (column_of header) names)"
    by (auto simp: values_by_indices_def row_fields_def enough_tokens_def list_all_iff comp_def cong: map_cong)
qed

lemma read_row:
  assumes "distinct header" and "\<not> dp_dsv_header_read p" and "header \<noteq> [COMMIT_LITERAL]" and "row \<noteq> [COMMIT_LITERAL]"
    and "set (ds_value_column_names (dp_settings p)) \<subseteq> insert METADATA_FIELD_NAME (set header)"
    and "\<forall>names \<in> set_option (ds_key_column_names (dp_settings p)). set names \<subseteq> insert METADATA_FIELD_NAME (set header)"
    and "length header \<le> length row"
  shows "\<exists>p'. parse_tokenized_entries X e header p = (Ok [], p')
    \<and> parse_tokenized_entries X DataInsert row p' =
      (Ok [PeInsert (map_option (\<lambda>names. try_collect (map (cell X p header row) names)) (ds_key_column_names (dp_settings p)))
         (map (cell X p header row) (ds_value_column_names (dp_settings p)))], p')"
proof -
  let ?p' = "p\<lparr>dp_key_column_indices := map_option (map (column_of header)) (ds_key_column_names (dp_settings p)),
       dp_value_column_indices := map (column_of header) (ds_value_column_names (dp_settings p)),
       dp_indexed_schema := indexed_schema_of (dp_schema p) header, dp_header := header, dp_dsv_header_read := True\<rparr>"
  have cells: "values_by_indices X ?p' row (map (column_of header) names) = (Ok (map (cell X p header row) names) :: (dyn_error, _) result)"
    "enough_tokens row (map (column_of header) names)" if "set names \<subseteq> insert METADATA_FIELD_NAME (set header)" for names
    using read_cells [OF that assms(7), of ?p' p] by simp_all
  show ?thesis
    unfolding read_header [OF assms(1,2,3,5,6)]
    using assms(4,5,6) cells by (cases "ds_key_column_names (dp_settings p)") (auto simp: parse_tokenized_entries_def)
qed

section \<open>The DSV parser does not panic\<close>

text \<open>The columns found lie in the header.\<close>

definition columns_below :: "nat \<Rightarrow> dsv_column_index list \<Rightarrow> bool" where
  "columns_below n cols \<longleftrightarrow> (\<forall>i. Index i \<in> set cols \<longrightarrow> i < n)"

lemma columns_below_update:
  "columns_below n cols \<Longrightarrow> i < n \<Longrightarrow> columns_below n (foldl (\<lambda>cols j. cols[j := Index i]) cols is)"
  by (induction "is" arbitrary: cols) (auto simp: columns_below_def dest!: set_update_subset_insert [THEN subsetD])

lemma find_columns_below:
  "columns_below n (fst st) \<Longrightarrow> index + length vs \<le> n \<Longrightarrow> columns_below n (fst (find_columns req index vs st))"
proof (induction req index vs st rule: find_columns.induct)
  case (2 req index v vs cols found)
  then show ?case by (auto simp: columns_below_update split: option.splits)
qed simp

lemma column_indices_below: "column_indices_by_names toks names = Ok cols \<Longrightarrow> columns_below (length toks) cols"
  using find_columns_below [of "length toks" "(replicate (length names) Metadata, fst (request_columns 0 names (0, [])))"
      0 toks "snd (request_columns 0 names (0, []))"]
  by (auto simp: column_indices_by_names_def columns_below_def split: prod.splits if_splits)

definition dsv_sound :: "dsv_parser \<Rightarrow> bool" where
  "dsv_sound p \<longleftrightarrow> dsv_good p
     \<and> (dp_dsv_header_read p \<longrightarrow> columns_below (length (dp_header p)) (dp_value_column_indices p)
          \<and> (\<forall>cols \<in> set_option (dp_key_column_indices p). columns_below (length (dp_header p)) cols))"

lemma header_sound:
  assumes "\<not> dp_dsv_header_read p"
  shows "dsv_sound (snd (parse_dsv_header toks p)) \<and> fst (parse_dsv_header toks p) \<noteq> Panic"
proof -
  let ?cols = "column_indices_by_names toks"
  have no_panic: "?cols names \<noteq> Panic" for names
    by (simp add: column_indices_by_names_def split: prod.split)
  let ?k = "case ds_key_column_names (dp_settings p) of Some names \<Rightarrow> map_ok Some (?cols names) | None \<Rightarrow> Ok None"
  have below: "\<forall>cols \<in> set_option k. columns_below (length toks) cols" if "?k = Ok k" for k
    using that column_indices_below by (auto simp: result_simps split: option.splits)
  have "dsv_good (snd (parse_dsv_header toks p))"
    using header_keeps [OF assms, of toks] by (metis prod.collapse)
  moreover have "?k \<noteq> Panic" using no_panic by (auto simp: result_simps split: option.splits)
  ultimately show ?thesis
    using assms below column_indices_below [of toks "ds_value_column_names (dp_settings p)"]
      no_panic [of "ds_value_column_names (dp_settings p)"]
    by (cases ?k; cases "?cols (ds_value_column_names (dp_settings p))")
      (auto simp: parse_dsv_header_def dsv_sound_def dsv_good_def)
qed

lemma values_by_indices_sound:
  assumes "columns_below (length (dp_header p)) cols" and "enough_tokens tokens cols"
  shows "values_by_indices X p tokens cols \<noteq> (Panic :: ('e, value_field list) result)"
proof -
  have "value_by_index X p tokens c \<noteq> Panic" if "c \<in> set cols" for c
    using assms that
    by (cases c) (auto simp: value_by_index_def enough_tokens_def list_all_iff columns_below_def nth_opt_def parse_with_type_no_panic)
  then have "Panic \<notin> set (map (value_by_index X p tokens) cols)" by (metis (no_types, lifting) imageE list.set_map)
  then show ?thesis by (simp add: values_by_indices_def row_fields_def)
qed

lemma tokenized_sound:
  assumes "dsv_sound p"
  shows "dsv_sound (snd (parse_tokenized_entries X e toks p))"
    and "e \<noteq> DataUpsert \<Longrightarrow> fst (parse_tokenized_entries X e toks p) \<noteq> Panic"
proof -
  show "dsv_sound (snd (parse_tokenized_entries X e toks p))"
    using assms header_sound [of p toks] by (auto simp: parse_tokenized_entries_def split: prod.split)
  assume e: "e \<noteq> DataUpsert"
  let ?k = "case dp_key_column_indices p of Some indices \<Rightarrow> map_ok (\<lambda>vs. Some (try_collect vs)) (values_by_indices X p toks indices) | None \<Rightarrow> Ok None"
  show "fst (parse_tokenized_entries X e toks p) \<noteq> Panic"
  proof (cases "dp_dsv_header_read p")
    case True
    show ?thesis
    proof (cases "case_option True (enough_tokens toks) (dp_key_column_indices p) \<and> enough_tokens toks (dp_value_column_indices p)")
      case enough: True
      have "?k \<noteq> (Panic :: (dyn_error, key_fields) result)"
        using assms True enough values_by_indices_sound [of p _ toks X]
        by (cases "dp_key_column_indices p") (auto simp: dsv_sound_def result_simps)
      moreover have "values_by_indices X p toks (dp_value_column_indices p) \<noteq> (Panic :: (dyn_error, value_field list) result)"
        by (intro values_by_indices_sound) (use assms True enough in \<open>simp_all add: dsv_sound_def\<close>)
      ultimately show ?thesis
        using True enough e by (cases e) (auto simp: parse_tokenized_entries_def result_simps)
    qed (auto simp: parse_tokenized_entries_def True)
  next
    case False
    then show ?thesis
      using header_sound [OF False, of toks] by (auto simp: parse_tokenized_entries_def result_simps split: prod.split)
  qed
qed

text \<open>What readers send to a DSV parser.\<close>

fun no_upserts :: "reader_context \<Rightarrow> bool" where
  "no_upserts (RawBytes e b) = (e \<noteq> DataUpsert)"
| "no_upserts (TokenizedEntries e t) = (e \<noteq> DataUpsert)"
| "no_upserts _ = True"

lemma bytes_sound:
  assumes "dsv_sound p"
  shows "dsv_sound (snd (parse_bytes_simple X e b p))"
    and "e \<noteq> DataUpsert \<Longrightarrow> fst (parse_bytes_simple X e b p) \<noteq> Panic"
proof -
  have "prepare_plaintext_string b \<noteq> Panic" by (simp add: prepare_plaintext_string_def split: option.split)
  then show "dsv_sound (snd (parse_bytes_simple X e b p))"
    and "e \<noteq> DataUpsert \<Longrightarrow> fst (parse_bytes_simple X e b p) \<noteq> Panic"
    using assms tokenized_sound [OF assms, where X = X and e = e]
    by (cases "prepare_plaintext_string b"; simp add: parse_bytes_simple_def)+
qed

lemma dsv_parse_sound:
  assumes "dsv_sound p"
  shows "dsv_sound (snd (dsv_parse X data p))" and "no_upserts data \<Longrightarrow> fst (dsv_parse X data p) \<noteq> Panic"
proof -
  show "dsv_sound (snd (dsv_parse X data p))"
    using bytes_sound(1) [OF assms, where X = X] tokenized_sound(1) [OF assms, where X = X] assms
    by (cases data) (auto simp: dsv_parse_def split: option.split)
  show "no_upserts data \<Longrightarrow> fst (dsv_parse X data p) \<noteq> Panic"
    using bytes_sound(2) [OF assms, where X = X] tokenized_sound(2) [OF assms, where X = X]
    by (cases data) (auto simp: dsv_parse_def split: option.split)
qed

end
