(* ===== verification/RoundTrips.thy ===== *)
theory RoundTrips
  imports FormatLaws
begin

text \<open>
  Round trips of the formatters and parsers of \<open>Formats\<close>: DSV lines, JSON values, and the positions of the
  snapshot formatter for Postgres.
\<close>

section \<open>Lines of a DSV file\<close>

lemma chars_of_bytes_of_chars [simp]: "chars_of_bytes (bytes_of_chars s) = s"
proof -
  have "unat (byte_of_char c) = of_char c" for c
    by (simp add: byte_of_char_def unsigned_of_nat take_bit_eq_mod)
  then show ?thesis by (simp add: chars_of_bytes_def bytes_of_chars_def comp_def)
qed

lemma utf8_ascii: "\<forall>c \<in> set s. (of_char c :: nat) < 128 \<Longrightarrow> utf8_chars s = Some (map (\<lambda>c. [c]) s)"
  by (induction s) (simp_all add: utf8_follow_def)

lemma split_sep_single: "split_sep s [] cs = split_on s cs"
  by (induction cs) auto

definition name_char :: "char \<Rightarrow> bool" where
  "name_char c \<longleftrightarrow> is_digit c \<or> (65 \<le> (of_char c :: nat) \<and> (of_char c :: nat) \<le> 90)
     \<or> (97 \<le> (of_char c :: nat) \<and> (of_char c :: nat) \<le> 122) \<or> c = CHR ''_''"

definition token_char :: "char \<Rightarrow> bool" where
  "token_char c \<longleftrightarrow> name_char c \<or> c = CHR ''-''"

definition token :: "string \<Rightarrow> bool" where
  "token s \<longleftrightarrow> s \<noteq> [] \<and> (\<forall>c \<in> set s. token_char c)"

definition separator_char :: "char \<Rightarrow> bool" where
  "separator_char c \<longleftrightarrow> (of_char c :: nat) < 128 \<and> \<not> token_char c"

lemma token_char_graph: "token_char c \<Longrightarrow> ascii_graph c"
  by (auto simp: token_char_def name_char_def ascii_graph_def is_digit_def)

lemma join_tokens:
  assumes "\<forall>x \<in> set xs. token x" and "xs \<noteq> []"
  shows "join_with [c] xs \<noteq> []" and "token_char (hd (join_with [c] xs))" and "token_char (last (join_with [c] xs))"
    and "\<forall>x \<in> set (join_with [c] xs). token_char x \<or> x = c"
  using assms by (induction "[c]" xs rule: join_with.induct) (auto simp: token_def)

lemma prepare_line:
  assumes "\<forall>x \<in> set xs. token x" and "xs \<noteq> []" and "separator_char c"
  shows "prepare_plaintext_string (bytes_of_chars (join_with [c] xs)) = Ok (join_with [c] xs)"
    and "str_split [c] (join_with [c] xs) = xs" and "join_with [c] xs \<noteq> COMMIT_LITERAL"
proof -
  note join = join_tokens [OF assms(1,2), of c]
  have "(of_char x :: nat) < 128" if "x \<in> set (join_with [c] xs)" for x
    using join(4) that assms(3) token_char_graph [of x] by (auto simp: separator_char_def ascii_graph_def)
  then have "utf8_chars (join_with [c] xs) = Some (map (\<lambda>c. [c]) (join_with [c] xs))" by (intro utf8_ascii) simp
  then show "prepare_plaintext_string (bytes_of_chars (join_with [c] xs)) = Ok (join_with [c] xs)"
    using join token_char_graph by (simp add: prepare_plaintext_string_def trim_id)
  show "str_split [c] (join_with [c] xs) = xs"
    using assms split_on_join [of xs c] by (auto simp: str_split_def split_sep_single token_def separator_char_def)
  have "\<not> token_char (hd COMMIT_LITERAL)" by (simp add: COMMIT_LITERAL_def token_char_def name_char_def is_digit_def)
  then show "join_with [c] xs \<noteq> COMMIT_LITERAL" using join(2) by metis
qed

lemma parse_line:
  assumes "\<forall>x \<in> set xs. token x" and "xs \<noteq> []" and "separator_char c" and "ds_separator (dp_settings p) = [c]"
  shows "dsv_parse X (RawBytes e (bytes_of_chars (join_with [c] xs))) p = parse_tokenized_entries X e xs p"
  using prepare_line [OF assms(1-3)] join_tokens(1) [OF assms(1,2)] assms(4)
  by (simp add: dsv_parse_def parse_bytes_simple_def)

text \<open>A value that is printed and read as a value of the type.\<close>

fun dsv_typed :: "inner_schema \<Rightarrow> string \<Rightarrow> Value \<Rightarrow> bool" where
  "dsv_typed schema n (VInt i) = (\<exists>item. map_of schema n = Some item \<and> ct_type (sf_type item) = TInt)"
| "dsv_typed schema n (VBool b) = (\<exists>item. map_of schema n = Some item \<and> ct_type (sf_type item) = TBool)"
| "dsv_typed schema n _ = False"

lemma token_show_nat: "token (show_nat n)"
  using show_nat_digits by (auto simp: token_def token_char_def name_char_def)

lemma token_show_int: "token (show_int i)"
  using token_show_nat by (auto simp: show_int_def token_def token_char_def)

lemma bool_texts: "parse_bool_advanced ''True'' = Some True" "parse_bool_advanced ''False'' = Some False"
proof -
  have "ascii_graph (CHR ''T'')" "ascii_graph (CHR ''F'')" "ascii_graph (CHR ''e'')" by (simp_all add: ascii_graph_def)
  then have "trim ''True'' = ''True''" "trim ''False'' = ''False''" by (simp_all add: trim_id)
  moreover have "to_ascii_lowercase ''True'' = ''true''" "to_ascii_lowercase ''False'' = ''false''" by code_simp+
  ultimately show "parse_bool_advanced ''True'' = Some True" "parse_bool_advanced ''False'' = Some False"
    by (simp_all add: parse_bool_advanced_def)
qed

lemma printed_value:
  assumes "dsv_typed schema n v"
  obtains raw where "value_display X v = (Ok raw :: (formatter_error, string) result)" "token raw"
    "parse_with_type X raw (case map_of schema n of Some item \<Rightarrow> item | None \<Rightarrow> schema_field_default) n = Ok v"
proof (cases v)
  case (VInt i)
  have "show_int (sint i) \<noteq> []" using token_show_int by (simp add: token_def)
  moreover have "parse_signed 64 (show_int (sint i)) = Some (sint i)"
    using sint_in_i64 [of i] by (intro parse_signed_show) (simp_all add: in_i64_def i64_min_def i64_max_def)
  ultimately show thesis
    using assms that [of "show_int (sint i)"] token_show_int VInt by (auto simp: parse_with_type_def)
next
  case (VBool b)
  have "token ''True''" "token ''False''"
    by (simp_all add: token_def token_char_def name_char_def is_digit_def)
  then show thesis
    using assms that [of "if b then ''True'' else ''False''"] VBool by (auto simp: parse_with_type_def bool_texts)
qed (use assms in auto)

lemma printed_values:
  assumes "list_all2 (dsv_typed schema) ns vs"
  shows "\<exists>raws. try_collect (map (value_display X) vs) = (Ok raws :: (formatter_error, string list) result) \<and> (\<forall>raw \<in> set raws. token raw) \<and> length raws = length vs
    \<and> (\<forall>i < length vs. parse_with_type X (raws ! i)
        (case map_of schema (ns ! i) of Some item \<Rightarrow> item | None \<Rightarrow> schema_field_default) (ns ! i) = Ok (vs ! i))"
  using assms
proof (induction ns vs rule: list_all2_induct)
  case Nil
  then show ?case by simp
next
  case (Cons n ns v vs)
  obtain raw where raw: "value_display X v = (Ok raw :: (formatter_error, string) result)" "token raw"
    "parse_with_type X raw (case map_of schema n of Some item \<Rightarrow> item | None \<Rightarrow> schema_field_default) n = Ok v"
    using printed_value [OF Cons.hyps(1)] by metis
  obtain raws where raws: "try_collect (map (value_display X) vs) = (Ok raws :: (formatter_error, string list) result)" "\<forall>raw \<in> set raws. token raw" "length raws = length vs"
    "\<forall>i < length vs. parse_with_type X (raws ! i) (case map_of schema (ns ! i) of Some item \<Rightarrow> item | None \<Rightarrow> schema_field_default) (ns ! i) = Ok (vs ! i)"
    using Cons.IH by blast
  show ?case
    by (rule exI [of _ "raw # raws"]) (use raw raws in \<open>auto simp: nth_Cons' less_Suc_eq_0_disj\<close>)
qed

lemma position_distinct: "distinct ns \<Longrightarrow> i < length ns \<Longrightarrow> position (ns @ rest) (ns ! i) = i"
  by (induction ns arbitrary: i) (auto simp: nth_Cons' split: if_splits)

text \<open>A column name that the formatter does not add itself and that needs no quoting.\<close>

definition plain_names :: "string list \<Rightarrow> bool" where
  "plain_names ns \<longleftrightarrow> distinct ns \<and> list_all token ns
     \<and> list_all (\<lambda>n. n \<notin> {''time'', ''diff'', METADATA_FIELD_NAME}) ns"

lemma cells_of_line:
  assumes "plain_names ns" and "length raws = length ns" and "length vs = length ns"
    and "\<forall>i < length vs. parse_with_type X (raws ! i)
        (case map_of (dp_schema p) (ns ! i) of Some item \<Rightarrow> item | None \<Rightarrow> schema_field_default) (ns ! i) = Ok (vs ! i)"
  shows "map (cell X p (ns @ [''time'', ''diff'']) (raws @ rest)) ns = map Ok vs"
proof (rule nth_equalityI)
  fix i assume "i < length (map (cell X p (ns @ [''time'', ''diff'']) (raws @ rest)) ns)"
  then have i: "i < length ns" by simp
  then have "ns ! i \<noteq> METADATA_FIELD_NAME" "position (ns @ [''time'', ''diff'']) (ns ! i) = i"
    using assms(1) by (auto simp: plain_names_def list_all_iff position_distinct)
  then show "map (cell X p (ns @ [''time'', ''diff'']) (raws @ rest)) ns ! i = map Ok vs ! i"
    using i assms by (simp add: cell_def nth_append)
qed (use assms in simp)

text \<open>C37. DSV files are read back. For columns of integers and booleans with distinct plain names that the schema
  knows, and any ASCII separator that is no part of a name or a number, the formatter writes a header line and a line
  for the row, and a fresh parser with the same settings reads from the bytes of the two lines no event and then
  one insertion of exactly the values of the row.\<close>

theorem dsv_roundtrip:
  assumes "plain_names ns" and "separator_char c" and "list_all2 (dsv_typed schema) ns vs"
    and "st = \<lparr>ds_key_column_names = None, ds_value_column_names = ns, ds_separator = [c]\<rparr>"
  shows "\<exists>header line ctx f p. dsv_format X k vs time diff \<lparr>df_settings = st, df_dsv_header_written = False\<rparr> = (Ok ctx, f)
    \<and> fc_payloads ctx = [header, line]
    \<and> dsv_parse X (RawBytes DataInsert (bytes_of_chars header)) (dsv_parser_new st schema) = (Ok [], p)
    \<and> dsv_parse X (RawBytes DataInsert (bytes_of_chars line)) p = (Ok [PeInsert None (map Ok vs)], p)"
proof -
  let ?p = "dsv_parser_new st schema" and ?header = "ns @ [''time'', ''diff'']"
  obtain raws where raws: "try_collect (map (value_display X) vs) = (Ok raws :: (formatter_error, string list) result)"
    "\<forall>raw \<in> set raws. token raw" "length raws = length vs"
    "\<forall>i < length vs. parse_with_type X (raws ! i) (case map_of schema (ns ! i) of Some item \<Rightarrow> item | None \<Rightarrow> schema_field_default) (ns ! i) = Ok (vs ! i)"
    using printed_values [OF assms(3), of X] by blast
  let ?row = "raws @ [show_nat (unat time), show_int (sint diff)]"
  have len: "length vs = length ns" using assms(3) by (simp add: list_all2_lengthD)
  have tokens: "\<forall>x \<in> set ?header. token x" "\<forall>x \<in> set ?row. token x"
    using assms(1) raws(2) token_show_nat token_show_int
    by (auto simp: plain_names_def list_all_iff token_def token_char_def name_char_def)
  have "distinct ?header" using assms(1) by (auto simp: plain_names_def list_all_iff)
  moreover have "\<not> dp_dsv_header_read ?p" "dp_schema ?p = schema" "dp_settings ?p = st" by (simp_all add: dsv_parser_new_def)
  ultimately obtain p' where p': "parse_tokenized_entries X DataInsert ?header ?p = (Ok [], p')"
    "parse_tokenized_entries X DataInsert ?row p' = (Ok [PeInsert None (map (cell X ?p ?header ?row) ns)], p')"
    using read_row [of ?header ?p ?row X DataInsert] assms(4) raws(3) len by auto
  have "map (cell X ?p ?header ?row) ns = map Ok vs"
    using cells_of_line [OF assms(1), of raws vs X ?p] raws(3,4) len \<open>dp_schema ?p = schema\<close> by simp
  moreover have "dp_settings p' = st"
    using p'(1) tokenized_keeps [of ?p X DataInsert ?header] by (simp add: dsv_good_def dsv_parser_new_def)
  ultimately show ?thesis
    using p' parse_line [OF tokens(1) _ assms(2), of ?p X DataInsert] parse_line [OF tokens(2) _ assms(2), of p' X DataInsert]
      raws(1) len assms(4) \<open>dp_settings ?p = st\<close>
    by (auto simp: dsv_format_def formatter_context_new_def Let_def)
qed

definition example_field :: "ptype \<Rightarrow> inner_schema_field" where
  "example_field t = \<lparr>sf_type = \<lparr>ct_type = t, ct_is_optional = False\<rparr>, sf_default = None\<rparr>"

theorem dsv_roundtrip_witness:
  "\<exists>header line ctx f p. dsv_format example_externals 5 [VInt (- 7), VBool True] 10 1
      \<lparr>df_settings = \<lparr>ds_key_column_names = None, ds_value_column_names = [''id'', ''ok''], ds_separator = '',''\<rparr>,
       df_dsv_header_written = False\<rparr> = (Ok ctx, f)
    \<and> fc_payloads ctx = [header, line]
    \<and> dsv_parse example_externals (RawBytes DataInsert (bytes_of_chars header))
        (dsv_parser_new \<lparr>ds_key_column_names = None, ds_value_column_names = [''id'', ''ok''], ds_separator = '',''\<rparr>
          [(''ok'', example_field TBool), (''id'', example_field TInt)]) = (Ok [], p)
    \<and> dsv_parse example_externals (RawBytes DataInsert (bytes_of_chars line)) p
      = (Ok [PeInsert None [Ok (VInt (- 7)), Ok (VBool True)]], p)"
proof -
  have names: "plain_names [''id'', ''ok'']"
    by (simp add: plain_names_def token_def token_char_def name_char_def METADATA_FIELD_NAME_def)
  have sep: "separator_char (CHR '','')"
    by (simp add: separator_char_def token_char_def name_char_def is_digit_def)
  have typed: "list_all2 (dsv_typed [(''ok'', example_field TBool), (''id'', example_field TInt)]) [''id'', ''ok'']
      [VInt (- 7), VBool True]"
    by (simp add: example_field_def)
  show ?thesis
    using dsv_roundtrip [OF names sep typed refl, of example_externals 5 10 1] by simp
qed

text \<open>C38. DSV rows are read by name. Whatever the order of the columns in the header and whatever further columns
  the file has, a row at least as long as the header gives for every requested column the cell below its name, parsed
  with the schema of that name, and the metadata of the source for the metadata column, for the key columns as for the
  value columns.\<close>

theorem dsv_row_by_name:
  assumes "distinct header" and "\<not> dp_dsv_header_read p" and "header \<noteq> [COMMIT_LITERAL]" and "row \<noteq> [COMMIT_LITERAL]"
    and "set (ds_value_column_names (dp_settings p)) \<subseteq> insert METADATA_FIELD_NAME (set header)"
    and "\<forall>names \<in> set_option (ds_key_column_names (dp_settings p)). set names \<subseteq> insert METADATA_FIELD_NAME (set header)"
    and "length header \<le> length row"
  shows "\<exists>p'. parse_tokenized_entries X e header p = (Ok [], p')
    \<and> parse_tokenized_entries X DataInsert row p' =
      (Ok [PeInsert (map_option (\<lambda>names. try_collect (map (cell X p header row) names)) (ds_key_column_names (dp_settings p)))
         (map (cell X p header row) (ds_value_column_names (dp_settings p)))], p')"
  using read_row [OF assms] .

definition example_dsv_parser :: dsv_parser where
  "example_dsv_parser = dsv_parser_new
     \<lparr>ds_key_column_names = Some [''k''], ds_value_column_names = [''b'', METADATA_FIELD_NAME, ''a''], ds_separator = '',''\<rparr>
     [(''a'', example_field TInt)]"

theorem dsv_row_by_name_witness:
  "\<exists>p'. parse_tokenized_entries example_externals DataInsert [''a'', ''x'', ''k'', ''b''] example_dsv_parser = (Ok [], p')
    \<and> parse_tokenized_entries example_externals DataInsert [''1'', ''2'', ''3'', ''4''] p' =
      (Ok [PeInsert (Some (Ok [VString ''3''])) [Ok (VString ''4''), Ok VNone, Ok (VInt 1)]], p')"
proof -
  have one: "parse_signed 64 ''1'' = Some 1" by code_simp
  have "set [''b'', METADATA_FIELD_NAME, ''a''] \<subseteq> insert METADATA_FIELD_NAME (set [''a'', ''x'', ''k'', ''b''])" by simp
  then show ?thesis
    using dsv_row_by_name [of "[''a'', ''x'', ''k'', ''b'']" example_dsv_parser "[''1'', ''2'', ''3'', ''4'']" example_externals DataInsert]
    by (simp add: example_dsv_parser_def dsv_parser_new_def COMMIT_LITERAL_def METADATA_FIELD_NAME_def cell_def
        parse_with_type_def example_field_def schema_field_default_def one del: parse_signed.simps)
qed

section \<open>JSON values\<close>

text \<open>Values whose JSON form determines them.\<close>

fun json_plain :: "Value \<Rightarrow> bool" where
  "json_plain VNone = True"
| "json_plain (VInt i) = True"
| "json_plain (VFloat f) = is_finite f"
| "json_plain (VBool b) = True"
| "json_plain (VString s) = True"
| "json_plain (VTuple vs) = list_all json_plain vs"
| "json_plain _ = False"

lemma sint_pos_range: "0 \<le> sint (i :: i64) \<Longrightarrow> uint i \<le> i64_max"
proof -
  assume "0 \<le> sint i"
  moreover have "uint i = sint i mod 2 ^ 64" using uint_word_of_int [of "sint i", where 'a = 64] by simp
  ultimately show ?thesis using sint_in_i64 [of i] by (simp add: in_i64_def i64_max_def)
qed

lemma json_number_roundtrip:
  assumes "json_number_contract X"
  shows "parse_value_from_json X (json_of_i64 (x_json X) i) = Ok (VInt i)"
    and "is_finite f \<Longrightarrow> parse_value_from_json X (json_of_f64 (x_json X) f) = Ok (VFloat f)"
  using assms sint_pos_range [of i] by (simp_all add: json_number_contract_def)

lemma json_roundtrip_list:
  assumes "\<And>v. v \<in> set vs \<Longrightarrow> \<exists>j. serialize_value_to_json X v = Ok j \<and> parse_value_from_json X j = Ok v"
  shows "\<exists>js. try_collect (map (serialize_value_to_json X) vs) = Ok js \<and> try_collect (map (parse_value_from_json X) js) = Ok vs"
  using assms
proof (induction vs)
  case (Cons v vs)
  then obtain j js where "serialize_value_to_json X v = Ok j" "parse_value_from_json X j = Ok v"
    "try_collect (map (serialize_value_to_json X) vs) = Ok js" "try_collect (map (parse_value_from_json X) js) = Ok vs"
    by (metis list.set_intros)
  then show ?case by (intro exI [of _ "j # js"]) simp
qed simp

text \<open>C39. JSON values are read back. Under the documented behaviour of serde\_json on numbers, every value built from
  null, integers, finite floats, booleans, strings and tuples of them is written as a JSON value that the JSON
  parser of the connectors reads as the same value.\<close>

theorem json_value_roundtrip:
  assumes "json_number_contract X" and "json_plain v"
  shows "\<exists>j. serialize_value_to_json X v = Ok j \<and> parse_value_from_json X j = Ok v"
  using assms(2)
proof (induction v)
  case (VTuple vs)
  then have "\<exists>js. try_collect (map (serialize_value_to_json X) vs) = Ok js \<and> try_collect (map (parse_value_from_json X) js) = Ok vs"
    by (intro json_roundtrip_list) (simp add: list_all_iff)
  then show ?case by auto
qed (use json_number_roundtrip [OF assms(1)] in simp_all)

theorem json_value_roundtrip_witness:
  "\<exists>j. serialize_value_to_json example_externals (VTuple [VInt (- 3), VString ''a'', VTuple [VBool True, VNone]]) = Ok j
     \<and> parse_value_from_json example_externals j = Ok (VTuple [VInt (- 3), VString ''a'', VTuple [VBool True, VNone]])"
  by (rule json_value_roundtrip [OF example_json_number_contract]) simp

text \<open>The conversion of a number above the range of \<open>i64\<close> is unwrapped.\<close>

lemma json_large_number_panics:
  assumes "json_number_contract X" and "i64_max < uint n"
  shows "parse_value_from_json X (JNumber (PosInt n)) = Panic"
  using assms by (simp add: json_number_contract_def)

text \<open>A header with a repeated column hides a column that is missing.\<close>

lemma repeated_header_hides_missing:
  "column_indices_by_names [''a'', ''a''] [''a'', ''b''] = Ok [Index 1, Metadata]"
  by code_simp

section \<open>The snapshot formatter for Postgres\<close>

lemma update_fresh: "n \<notin> fst ` set fp \<Longrightarrow> AList.update n i fp = fp @ [(n, i)]"
  by (induction fp) auto

lemma field_positions_Ok:
  assumes "distinct names" and "set names \<inter> fst ` set fp = {}"
  shows "field_positions_of index names fp = Ok (fp @ zip names [index ..< index + length names])"
  using assms
proof (induction names arbitrary: index fp)
  case (Cons n names)
  then have "n \<notin> fst ` set fp" and "field_positions_of (Suc index) names (fp @ [(n, index)])
      = Ok ((fp @ [(n, index)]) @ zip names [Suc index ..< Suc index + length names])"
    by (simp, intro Cons.IH) auto
  then show ?case by (simp add: update_fresh map_of_eq_None_iff upt_conv_Cons del: upt_Suc)
qed simp

lemma field_positions_Err:
  assumes "\<not> (distinct names \<and> set names \<inter> fst ` set fp = {})"
  shows "\<exists>e. field_positions_of index names fp = Err e"
  using assms
proof (induction names arbitrary: index fp)
  case (Cons n names)
  then show ?case by (cases "n \<in> fst ` set fp") (auto simp: update_fresh map_of_eq_None_iff)
qed simp

lemma delete_names: "fst ` set (AList.delete k fp) = fst ` set fp - {k}"
  by (force simp: AList.delete_eq)

lemma take_key_positions_Ok:
  assumes "distinct ks" and "set ks \<subseteq> fst ` set fp" and "distinct (map fst fp)"
  shows "take_key_positions ks fp = Ok (map (the \<circ> map_of fp) ks, filter (\<lambda>(n, _). n \<notin> set ks) fp)"
  using assms
proof (induction ks arbitrary: fp)
  case Nil
  then show ?case by (simp add: case_prod_unfold)
next
  case (Cons k ks)
  let ?fp = "AList.delete k fp"
  have "take_key_positions ks ?fp = Ok (map (the \<circ> map_of ?fp) ks, filter (\<lambda>(n, _). n \<notin> set ks) ?fp)"
    using Cons.prems by (intro Cons.IH) (auto simp: delete_names delete_keys distinct_removeAll)
  moreover have "map (the \<circ> map_of ?fp) ks = map (the \<circ> map_of fp) ks"
    using Cons.prems by (auto simp: delete_conv')
  moreover have "filter (\<lambda>(n, _). n \<notin> set ks) ?fp = filter (\<lambda>(n, _). n \<notin> set (k # ks)) fp"
    by (auto simp: AList.delete_eq intro!: filter_cong)
  moreover obtain i where "map_of fp k = Some i" using Cons.prems by (metis (no_types) list.set_intros(1) map_of_eq_None_iff not_None_eq subsetD)
  ultimately show ?case by simp
qed

lemma take_key_positions_Err:
  assumes "\<not> (distinct ks \<and> set ks \<subseteq> fst ` set fp)"
  shows "\<exists>e. take_key_positions ks fp = Err e"
  using assms
proof (induction ks arbitrary: fp)
  case (Cons k ks)
  show ?case
  proof (cases "map_of fp k")
    case (Some i)
    then have "k \<in> fst ` set fp" by (metis map_of_eq_None_iff option.distinct(1))
    then have "\<exists>e. take_key_positions ks (AList.delete k fp) = Err e"
      using Cons.prems by (intro Cons.IH) (auto simp: delete_names)
    then show ?thesis using Some by auto
  qed simp
qed simp

lemma sort_positions:
  assumes "distinct xs" and "set xs = {i. i < n \<and> P i}"
  shows "sort xs = filter P [0 ..< n]"
proof (rule sorted_distinct_set_unique)
  show "sorted (filter P [0 ..< n])" using sorted_filter [of id "[0 ..< n]" P] by simp
  show "set (sort xs) = set (filter P [0 ..< n])" unfolding set_sort assms(2) by auto
qed (use assms(1) in simp_all)

lemma map_of_positions:
  assumes "distinct names" and "i < length names"
  shows "map_of (zip names [0 ..< length names]) (names ! i) = Some i"
  using assms map_of_zip_nth [of names "[0 ..< length names]" i] by simp

lemma key_positions:
  assumes "\<And>i. i < length names \<Longrightarrow> f (names ! i) = i" and "distinct ks" and "set ks \<subseteq> set names"
  shows "sort (map f ks) = filter (\<lambda>i. names ! i \<in> set ks) [0 ..< length names]"
proof (rule sort_positions)
  have pos: "f n < length names \<and> names ! f n = n" if "n \<in> set names" for n
    using that assms(1) by (auto simp: in_set_conv_nth)
  then have "inj_on f (set ks)" using assms(3) by (metis inj_onI subsetD)
  then show "distinct (map f ks)" using assms(2) by (simp add: distinct_map)
  show "set (map f ks) = {i. i < length names \<and> names ! i \<in> set ks}"
    using pos assms(1,3) by (auto simp: subset_iff) (metis image_eqI)
qed

lemma value_positions:
  assumes "distinct names"
  shows "sort (map snd (filter (\<lambda>(n, _). n \<notin> set ks) (zip names [0 ..< length names])))
    = filter (\<lambda>i. names ! i \<notin> set ks) [0 ..< length names]"
proof (rule sort_positions)
  show "distinct (map snd (filter (\<lambda>(n, _). n \<notin> set ks) (zip names [0 ..< length names])))"
    by (rule distinct_map_filter) simp
  show "set (map snd (filter (\<lambda>(n, _). n \<notin> set ks) (zip names [0 ..< length names])))
      = {i. i < length names \<and> names ! i \<notin> set ks}"
    by (force simp: set_zip image_iff)
qed

lemma try_collect_all_Ok: "\<forall>x \<in> set xs. \<exists>y. f x = Ok y \<Longrightarrow> \<exists>ys. try_collect (map f xs) = Ok ys"
  by (induction xs) auto

lemma and_then_all_Ok: "\<exists>x. a = Ok x \<Longrightarrow> (\<And>x. \<exists>y. f x = Ok y) \<Longrightarrow> \<exists>y. and_then a f = Ok y"
  by auto

lemma psql_snapshot_format_rows:
  assumes "\<forall>i \<in> set (ps_key_field_positions f) \<union> set (ps_value_field_positions f). i < length (ps_value_field_names f)"
  shows "psql_snapshot_format f k vs time diff \<noteq> Panic
    \<and> (\<exists>ctx. psql_snapshot_format f k vs time diff = Ok ctx) = (length vs = length (ps_value_field_names f))"
proof (cases "length vs = length (ps_value_field_names f)")
  case True
  then have "\<exists>ctx. psql_snapshot_format f k vs time diff = Ok ctx"
    unfolding psql_snapshot_format_def Let_def using assms
    by (simp only: not_True_eq_False if_False simp_thms) (intro and_then_all_Ok try_collect_all_Ok exI ballI; simp add: nth_opt_def)
  then show ?thesis using True by auto
qed (simp add: psql_snapshot_format_def)

text \<open>C40. The snapshot formatter for Postgres is built exactly when the field names and the key names have no
  repetition and every key is a field. It then splits the columns into the positions of the keys and those of the
  other fields, each in ascending order, and formats exactly the rows with one value per field; it never
  panics.\<close>

theorem psql_snapshot_positions:
  "case psql_snapshot_formatter_new table ks names of
     Ok f \<Rightarrow> distinct names \<and> distinct ks \<and> set ks \<subseteq> set names
       \<and> ps_key_field_positions f = filter (\<lambda>i. names ! i \<in> set ks) [0 ..< length names]
       \<and> ps_value_field_positions f = filter (\<lambda>i. names ! i \<notin> set ks) [0 ..< length names]
       \<and> (\<forall>k vs time diff. psql_snapshot_format f k vs time diff \<noteq> Panic
            \<and> (\<exists>ctx. psql_snapshot_format f k vs time diff = Ok ctx) = (length vs = length names))
   | Err e \<Rightarrow> \<not> (distinct names \<and> distinct ks \<and> set ks \<subseteq> set names)
   | Panic \<Rightarrow> False"
proof (cases "distinct names \<and> distinct ks \<and> set ks \<subseteq> set names")
  case True
  let ?fp = "zip names [0 ..< length names]"
  define f where "f = \<lparr>ps_table_name = table, ps_key_field_names = ks,
      ps_value_field_names = names, ps_key_field_positions = filter (\<lambda>i. names ! i \<in> set ks) [0 ..< length names],
      ps_value_field_positions = filter (\<lambda>i. names ! i \<notin> set ks) [0 ..< length names]\<rparr>"
  have fst_fp: "map fst ?fp = names" by simp
  have keys: "sort (map (the \<circ> map_of ?fp) ks) = filter (\<lambda>i. names ! i \<in> set ks) [0 ..< length names]"
  proof (rule key_positions)
    fix i assume "i < length names"
    then show "(the \<circ> map_of ?fp) (names ! i) = i" using True map_of_positions [of names i] by simp
  qed (use True in auto)
  have "fst ` set ?fp = set names" using fst_fp by (metis list.set_map)
  then have new: "psql_snapshot_formatter_new table ks names = Ok f"
    using True take_key_positions_Ok [of ks ?fp] value_positions [of names ks] fst_fp keys
    by (simp add: psql_snapshot_formatter_new_def field_positions_Ok f_def)
  have sel: "ps_value_field_names f = names"
    "ps_key_field_positions f = filter (\<lambda>i. names ! i \<in> set ks) [0 ..< length names]"
    "ps_value_field_positions f = filter (\<lambda>i. names ! i \<notin> set ks) [0 ..< length names]"
    unfolding f_def by simp_all
  then have bound: "\<forall>i \<in> set (ps_key_field_positions f) \<union> set (ps_value_field_positions f). i < length (ps_value_field_names f)"
    by auto
  have rows: "psql_snapshot_format f k vs time diff \<noteq> Panic
      \<and> (\<exists>ctx. psql_snapshot_format f k vs time diff = Ok ctx) = (length vs = length names)" for k vs time diff
    using psql_snapshot_format_rows [OF bound] unfolding sel .
  show ?thesis unfolding new result.case sel using True rows by blast
next
  case False
  then have "\<exists>e. psql_snapshot_formatter_new table ks names = Err e"
  proof (cases "distinct names")
    case distinct: True
    moreover have "fst ` set (zip names [0 ..< length names]) = set names"
      by (metis list.set_map map_fst_zip length_upt diff_zero)
    ultimately show ?thesis
      using False take_key_positions_Err [of ks "zip names [0 ..< length names]"]
      by (auto simp: psql_snapshot_formatter_new_def field_positions_Ok)
  next
    case False
    then show ?thesis using field_positions_Err [of names "[]" 0] by (auto simp: psql_snapshot_formatter_new_def)
  qed
  then show ?thesis using False by auto
qed

text \<open>A table whose fields are all keys has nothing to set, and the statement sets an empty assignment first.\<close>

lemma psql_all_keys_statement:
  assumes "psql_snapshot_formatter_new ''t'' [''a''] [''a''] = Ok f" and "psql_snapshot_format f k [v] time diff = Ok ctx"
  shows "\<exists>before after. fc_payloads ctx = [before @ ''DO UPDATE SET ,time='' @ after]"
proof -
  have f: "f = \<lparr>ps_table_name = ''t'', ps_key_field_names = [''a''], ps_value_field_names = [''a''],
      ps_key_field_positions = [0], ps_value_field_positions = []\<rparr>"
    using assms(1) by (simp add: psql_snapshot_formatter_new_def)
  show ?thesis
    by (rule exI [of _ "''INSERT INTO t (a,time,diff) VALUES ('' @ placeholders 1 @ '','' @ show_nat (unat time) @ '',''
        @ show_int (sint diff) @ '') ON CONFLICT (a) ''"])
      (use assms(2) in \<open>auto simp: f psql_snapshot_format_def Let_def nth_opt_def new_single_payload_def formatter_context_new_def\<close>)
qed

end
