(* ===== verification/Monitoring.thy ===== *)
theory Monitoring
  imports Prelude
begin

text \<open>
  Statistics of connectors: connectors/monitoring.rs.

  The readings of \<open>Instant::now\<close> are arguments, in nanoseconds; \<open>duration_since\<close> of a later instant is
  zero. A count that would go below zero panics. Counts are natural numbers: the 64 bits of \<open>usize\<close>
  are not exceeded by a run. What is logged as text is the list of the reported numbers.
\<close>

section \<open>The logger of a connector\<close>

record connector_stats =
  st_num_messages_from_start :: nat
  st_num_messages_in_last_minute :: nat
  st_num_messages_recently_committed :: nat
  st_finished :: bool

record connector_logger =
  cl_previously_reported_messages :: nat
  cl_reported_messages :: nat
  cl_reported_minibatches :: nat
  cl_last_reported_timestamp :: "nat option"
  cl_output :: "(nat \<times> nat) list"

definition MIN_TIME_ADVANCED_REPORTS_FREQUENCY :: nat where
  "MIN_TIME_ADVANCED_REPORTS_FREQUENCY = 5 * 1000000000"

definition connector_logger_new :: connector_logger where
  "connector_logger_new = \<lparr>cl_previously_reported_messages = 0, cl_reported_messages = 0, cl_reported_minibatches = 0,
     cl_last_reported_timestamp = None, cl_output = []\<rparr>"

definition logger_report_stats :: "nat \<Rightarrow> connector_logger \<Rightarrow> connector_logger" where
  "logger_report_stats current_timestamp l =
     l\<lparr>cl_output := cl_output l @ [(cl_reported_messages l, cl_reported_minibatches l)],
       cl_last_reported_timestamp := Some current_timestamp,
       cl_previously_reported_messages := cl_reported_messages l,
       cl_reported_messages := 0, cl_reported_minibatches := 0\<rparr>"

definition logger_on_commit :: "nat \<Rightarrow> nat \<Rightarrow> connector_logger \<Rightarrow> connector_logger" where
  "logger_on_commit current_timestamp n_minibatch_messages l =
     (let l = l\<lparr>cl_reported_messages := cl_reported_messages l + n_minibatch_messages,
                cl_reported_minibatches := cl_reported_minibatches l + 1\<rparr>
      in case cl_last_reported_timestamp l of
           Some last_reported_timestamp \<Rightarrow>
             if last_reported_timestamp \<le> current_timestamp
                \<and> MIN_TIME_ADVANCED_REPORTS_FREQUENCY \<le> current_timestamp - last_reported_timestamp
                \<and> (0 < cl_previously_reported_messages l \<or> 0 < cl_reported_messages l)
             then logger_report_stats current_timestamp l
             else l
         | None \<Rightarrow> logger_report_stats current_timestamp l)"

definition logger_on_finished :: "nat \<Rightarrow> connector_logger \<Rightarrow> connector_logger" where
  "logger_on_finished current_timestamp l =
     (if 0 < cl_reported_minibatches l then logger_report_stats current_timestamp l else l)"

section \<open>The monitor of a connector\<close>

record connector_monitor =
  cm_stats :: connector_stats
  cm_last_minute_queue :: "(nat \<times> nat) list"
  cm_current_num_messages :: nat
  cm_logger :: connector_logger

definition connector_monitor_new :: connector_monitor where
  "connector_monitor_new =
     \<lparr>cm_stats = \<lparr>st_num_messages_from_start = 0, st_num_messages_in_last_minute = 0,
        st_num_messages_recently_committed = 0, st_finished = False\<rparr>,
      cm_last_minute_queue = [], cm_current_num_messages = 0, cm_logger = connector_logger_new\<rparr>"

definition monitor_increment :: "connector_monitor \<Rightarrow> connector_monitor" where
  "monitor_increment m = m\<lparr>cm_current_num_messages := cm_current_num_messages m + 1\<rparr>"

definition monitor_finish :: "nat \<Rightarrow> nat \<Rightarrow> connector_monitor \<Rightarrow> connector_monitor" where
  "monitor_finish now later m =
     m\<lparr>cm_stats := (cm_stats m)\<lparr>st_finished := True\<rparr>,
       cm_logger := logger_on_finished later (logger_on_commit now (cm_current_num_messages m) (cm_logger m))\<rparr>"

definition SIXTY_SECONDS :: nat where
  "SIXTY_SECONDS = 60 * 1000000000"

text \<open>The loop that drops the commits of more than a minute ago: the queue and the count.\<close>

fun drop_old :: "nat \<Rightarrow> (nat \<times> nat) list \<Rightarrow> nat \<Rightarrow> ('e, (nat \<times> nat) list \<times> nat) result" where
  "drop_old now [] num = Ok ([], num)"
| "drop_old now ((messages, at) # queue) num =
     (if now - at < SIXTY_SECONDS then Ok ((messages, at) # queue, num)
      else if messages \<le> num then drop_old now queue (num - messages) else Panic)"

definition monitor_commit :: "nat \<Rightarrow> connector_monitor \<Rightarrow> ('e, connector_monitor) result" where
  "monitor_commit now m =
     map_ok (\<lambda>(queue, num).
       let current = cm_current_num_messages m; stats = cm_stats m
       in m\<lparr>cm_stats := stats\<lparr>st_num_messages_recently_committed := current,
              st_num_messages_in_last_minute := num + current,
              st_num_messages_from_start := st_num_messages_from_start stats + current\<rparr>,
            cm_last_minute_queue := queue @ [(current, now)],
            cm_logger := logger_on_commit now current (cm_logger m), cm_current_num_messages := 0\<rparr>)
       (drop_old now (cm_last_minute_queue m) (st_num_messages_in_last_minute (cm_stats m)))"

section \<open>Statistics of an output connector\<close>

record output_connector_stats =
  os_batch_start_time :: nat
  os_last_reported_timestamp :: "nat option"
  os_total_writes_duration :: nat
  os_current_writes_duration :: nat
  os_messages_written_in_batch :: nat
  os_messages_written_in_total :: nat
  os_output :: "(nat \<times> u64 option) list"

definition output_stats_new :: "nat \<Rightarrow> output_connector_stats" where
  "output_stats_new now = \<lparr>os_batch_start_time = now, os_last_reported_timestamp = None, os_total_writes_duration = 0,
     os_current_writes_duration = 0, os_messages_written_in_batch = 0, os_messages_written_in_total = 0, os_output = []\<rparr>"

definition output_report_stats :: "nat \<Rightarrow> u64 option \<Rightarrow> output_connector_stats \<Rightarrow> output_connector_stats" where
  "output_report_stats current_timestamp t s =
     s\<lparr>os_output := os_output s @ [(os_messages_written_in_batch s, t)], os_messages_written_in_batch := 0,
       os_last_reported_timestamp := Some current_timestamp, os_current_writes_duration := 0\<rparr>"

definition on_time_committed :: "nat \<Rightarrow> u64 option \<Rightarrow> output_connector_stats \<Rightarrow> output_connector_stats" where
  "on_time_committed current_timestamp t s =
     (if t = None then output_report_stats current_timestamp t s
      else case os_last_reported_timestamp s of
        Some last_reported_timestamp \<Rightarrow>
          if last_reported_timestamp \<le> current_timestamp
             \<and> MIN_TIME_ADVANCED_REPORTS_FREQUENCY \<le> current_timestamp - last_reported_timestamp
             \<and> (0 < os_messages_written_in_total s \<or> 0 < os_messages_written_in_batch s)
          then output_report_stats current_timestamp t s
          else s
      | None \<Rightarrow> output_report_stats current_timestamp t s)"

definition on_batch_started :: "nat \<Rightarrow> output_connector_stats \<Rightarrow> output_connector_stats" where
  "on_batch_started now s = s\<lparr>os_batch_start_time := now\<rparr>"

definition on_batch_entry_written :: "output_connector_stats \<Rightarrow> output_connector_stats" where
  "on_batch_entry_written s = s\<lparr>os_messages_written_in_batch := os_messages_written_in_batch s + 1,
     os_messages_written_in_total := os_messages_written_in_total s + 1\<rparr>"

definition on_batch_finished :: "nat \<Rightarrow> output_connector_stats \<Rightarrow> output_connector_stats" where
  "on_batch_finished now s =
     (let elapsed = now - os_batch_start_time s
      in s\<lparr>os_total_writes_duration := os_total_writes_duration s + elapsed,
           os_current_writes_duration := os_current_writes_duration s + elapsed\<rparr>)"

section \<open>The counts are exact\<close>

datatype monitor_op = OpIncrement | OpCommit nat

fun monitor_run :: "monitor_op list \<Rightarrow> connector_monitor \<Rightarrow> ('e, connector_monitor) result" where
  "monitor_run [] m = Ok m"
| "monitor_run (OpIncrement # ops) m = monitor_run ops (monitor_increment m)"
| "monitor_run (OpCommit now # ops) m = and_then (monitor_commit now m) (monitor_run ops)"

text \<open>The commits of a run, each with the number of its messages, and the messages not yet committed.\<close>

fun batches :: "nat \<Rightarrow> monitor_op list \<Rightarrow> (nat \<times> nat) list" where
  "batches pending [] = []"
| "batches pending (OpIncrement # ops) = batches (pending + 1) ops"
| "batches pending (OpCommit now # ops) = (pending, now) # batches 0 ops"

fun uncommitted :: "nat \<Rightarrow> monitor_op list \<Rightarrow> nat" where
  "uncommitted pending [] = pending"
| "uncommitted pending (OpIncrement # ops) = uncommitted (pending + 1) ops"
| "uncommitted pending (OpCommit now # ops) = uncommitted 0 ops"

definition recent :: "nat \<Rightarrow> (nat \<times> nat) list \<Rightarrow> (nat \<times> nat) list" where
  "recent now cs = filter (\<lambda>(n, at). now - at < SIXTY_SECONDS) cs"

abbreviation messages :: "(nat \<times> nat) list \<Rightarrow> nat" where
  "messages cs \<equiv> sum_list (map fst cs)"

lemma drop_old_exact:
  assumes "sorted (map snd queue)"
  shows "drop_old now queue (messages queue + k) = Ok (recent now queue, messages (recent now queue) + k)"
  using assms
proof (induction queue arbitrary: k)
  case (Cons c queue)
  obtain n at where c: "c = (n, at)" by fastforce
  show ?case
  proof (cases "now - at < SIXTY_SECONDS")
    case True
    with Cons.prems have "recent now queue = queue"
      by (fastforce simp: c recent_def intro!: filter_True)
    with True show ?thesis by (simp add: c recent_def)
  next
    case False
    then show ?thesis using Cons by (simp add: c recent_def add.commute)
  qed
qed (simp add: recent_def)

text \<open>The state of the monitor after the commits \<open>cs\<close>, with \<open>k\<close> messages not yet committed.\<close>

definition monitor_at :: "(nat \<times> nat) list \<Rightarrow> nat \<Rightarrow> connector_monitor \<Rightarrow> bool" where
  "monitor_at cs k m \<longleftrightarrow>
     cm_current_num_messages m = k
     \<and> st_num_messages_from_start (cm_stats m) = messages cs
     \<and> cm_last_minute_queue m = (if cs = [] then [] else recent (snd (last cs)) cs)
     \<and> st_num_messages_in_last_minute (cm_stats m) = messages (cm_last_minute_queue m)
     \<and> st_num_messages_recently_committed (cm_stats m) = (if cs = [] then 0 else fst (last cs))"

lemma recent_recent: "last_time \<le> now \<Longrightarrow> recent now (recent last_time cs) = recent now cs"
  by (auto simp: recent_def intro!: filter_cong)

lemma recent_new [simp]: "recent now (cs @ [(k, now)]) = recent now cs @ [(k, now)]"
  by (simp add: recent_def SIXTY_SECONDS_def)

lemma monitor_commit_at:
  assumes "monitor_at cs k m" and "sorted (map snd cs)" and "\<forall>c \<in> set cs. snd c \<le> now"
  shows "\<exists>m'. monitor_commit now m = Ok m' \<and> monitor_at (cs @ [(k, now)]) 0 m'"
proof -
  let ?queue = "cm_last_minute_queue m"
  have "sorted (map snd ?queue)" and "recent now ?queue = recent now cs"
    using assms recent_recent [of "snd (last cs)" now cs]
    by (auto simp: monitor_at_def recent_def sorted_filter)
  then have drop: "drop_old now ?queue (st_num_messages_in_last_minute (cm_stats m)) = Ok (recent now cs, messages (recent now cs))"
    using drop_old_exact [of ?queue now 0] assms(1) by (simp add: monitor_at_def)
  show ?thesis
    unfolding monitor_commit_def drop using assms(1) by (simp add: monitor_at_def Let_def)
qed

lemma monitor_run_at:
  assumes "monitor_at cs k m" and "sorted (map snd (cs @ batches k ops))"
  shows "\<exists>m'. monitor_run ops m = (Ok m' :: ('e, connector_monitor) result) \<and> monitor_at (cs @ batches k ops) (uncommitted k ops) m'"
  using assms
proof (induction ops arbitrary: cs k m)
  case (Cons op ops)
  show ?case
  proof (cases op)
    case OpIncrement
    then show ?thesis
      using Cons.IH [of cs "k + 1" "monitor_increment m"] Cons.prems by (simp add: monitor_at_def monitor_increment_def)
  next
    case (OpCommit now)
    then obtain m' where "monitor_commit now m = (Ok m' :: ('e, connector_monitor) result)" "monitor_at (cs @ [(k, now)]) 0 m'"
      using monitor_commit_at [OF Cons.prems(1), of now] Cons.prems(2) by (auto simp: sorted_append)
    then show ?thesis using Cons.IH [of "cs @ [(k, now)]" 0 m'] Cons.prems(2) OpCommit by simp
  qed
qed simp

text \<open>C34. The statistics of a connector are exact. Over any run of messages and commits whose clock does not go
  back, the monitor never panics, has counted every committed message since the start, in the last minute exactly
  those of the commits less than sixty seconds before the last one, as recently committed those of the last commit,
  and holds the messages that are not committed yet.\<close>

theorem monitor_exact:
  assumes "sorted (map snd (batches 0 ops))" and "batches 0 ops \<noteq> []"
  shows "\<exists>m. monitor_run ops connector_monitor_new = (Ok m :: (unit, connector_monitor) result)
    \<and> st_num_messages_from_start (cm_stats m) = messages (batches 0 ops)
    \<and> st_num_messages_in_last_minute (cm_stats m) = messages (recent (snd (last (batches 0 ops))) (batches 0 ops))
    \<and> st_num_messages_recently_committed (cm_stats m) = fst (last (batches 0 ops))
    \<and> cm_current_num_messages m = uncommitted 0 ops"
proof -
  have "monitor_at [] 0 connector_monitor_new" by (simp add: monitor_at_def connector_monitor_new_def)
  from monitor_run_at [OF this, of ops] assms show ?thesis by (fastforce simp: monitor_at_def)
qed

theorem monitor_exact_witness:
  "\<exists>m. monitor_run [OpIncrement, OpIncrement, OpCommit 1, OpIncrement, OpCommit 70000000000, OpIncrement]
      connector_monitor_new = (Ok m :: (unit, connector_monitor) result)
    \<and> st_num_messages_from_start (cm_stats m) = 3 \<and> st_num_messages_in_last_minute (cm_stats m) = 1
    \<and> st_num_messages_recently_committed (cm_stats m) = 1 \<and> cm_current_num_messages m = 1"
  using monitor_exact [of "[OpIncrement, OpIncrement, OpCommit 1, OpIncrement, OpCommit 70000000000, OpIncrement]"]
  by (simp add: recent_def SIXTY_SECONDS_def numeral_3_eq_3)

text \<open>The end of a source does not count the messages behind its last commit.\<close>

lemma monitor_finish_forgets:
  "st_num_messages_from_start (cm_stats (monitor_finish now later m)) = st_num_messages_from_start (cm_stats m)"
  by (simp add: monitor_finish_def)

text \<open>The count of the last minute covers the queue, whatever the clock does.\<close>

definition counted :: "connector_monitor \<Rightarrow> bool" where
  "counted m \<longleftrightarrow> st_num_messages_in_last_minute (cm_stats m) = messages (cm_last_minute_queue m)"

lemma drop_old_covers: "\<exists>queue'. drop_old now queue (messages queue) = Ok (queue', messages queue')"
  by (induction queue) auto

lemma counted_new [simp]: "counted connector_monitor_new"
  by (simp add: counted_def connector_monitor_new_def)

lemma counted_increment [simp]: "counted (monitor_increment m) = counted m"
  by (simp add: counted_def monitor_increment_def)

lemma counted_finish [simp]: "counted (monitor_finish now later m) = counted m"
  by (simp add: counted_def monitor_finish_def)

lemma counted_commit:
  assumes "counted m"
  shows "\<exists>m'. monitor_commit now m = (Ok m' :: ('e, connector_monitor) result) \<and> counted m'"
proof -
  obtain queue where "drop_old now (cm_last_minute_queue m) (st_num_messages_in_last_minute (cm_stats m))
      = (Ok (queue, messages queue) :: ('e, (nat \<times> nat) list \<times> nat) result)"
    using drop_old_covers [of now "cm_last_minute_queue m"] assms unfolding counted_def by metis
  then show ?thesis by (simp add: monitor_commit_def counted_def Let_def)
qed

section \<open>What is logged adds up\<close>

text \<open>The messages a connector reported and has still to report.\<close>

definition logged :: "connector_logger \<Rightarrow> nat" where
  "logged l = messages (cl_output l) + cl_reported_messages l"

lemma logger_conserves:
  "logged (logger_on_commit now n l) = logged l + n" "logged (logger_on_finished now l) = logged l"
  by (simp_all add: logged_def logger_on_commit_def logger_on_finished_def logger_report_stats_def Let_def
      split: option.splits)

end
