(* ===== verification/Connectors.thy ===== *)
theory Connectors
  imports RoundTrips Replay Metadata Monitoring
begin

text \<open>
  Input connectors: \<open>Connector\<close> and \<open>read_persisted_state\<close> of connectors/mod.rs, the key of a row from
  \<open>connector_table\<close> of engine/dataflow.rs and the hash of an offset from connectors/offset.rs.

  The trait objects \<open>InputAdaptor\<close> and \<open>Parser\<close> are records of their operations. The snapshot writer is the
  list of the events handed to its \<open>write\<close>, of which the code only logs the failures. The channel is the list
  of the entries that are in it, and whether its sender is gone. Clock readings and the allocation state of
  the session's buffer are functions of a counter of the steps that use them.
\<close>

section \<open>Keys of rows\<close>

type_synonym offset = "offset_key \<times> offset_value"

definition offset_key_hash :: "offset_key \<Rightarrow> byte list" where
  "offset_key_hash k = (case k of
       OffsetKafka topic_name part \<Rightarrow> bytes_of_chars topic_name @ le_bytes 4 part
     | OffsetKeyEmpty \<Rightarrow> [])"

definition offset_value_hash :: "offset_value \<Rightarrow> byte list" where
  "offset_value_hash v = (case v of
       KafkaOffset offset \<Rightarrow> le_bytes 8 offset
     | FilePosition _ path bytes_offset \<Rightarrow> bytes_of_chars path @ le_bytes 8 bytes_offset
     | S3ObjectPosition _ path bytes_offset \<Rightarrow> bytes_of_chars path @ le_bytes 8 bytes_offset
     | PythonEntrySequentialId sequential_id \<Rightarrow> le_bytes 8 sequential_id
     | OffsetValueEmpty \<Rightarrow> [])"

definition connector_key :: "externals \<Rightarrow> Value list option \<Rightarrow> offset option \<Rightarrow> (data_error, key) result" where
  "connector_key X vs offset = (case vs of
       None \<Rightarrow>
         map_ok (\<lambda>(offset_key, offset_value). digest128 X (offset_key_hash offset_key @ offset_value_hash offset_value))
           (unwrap offset)
     | Some [VPointer k] \<Rightarrow> Ok k
     | Some vs \<Rightarrow> key_for_values X vs)"

section \<open>The state of a connector\<close>

record 's adaptor =
  ad_push :: "bool \<Rightarrow> change \<Rightarrow> 's \<Rightarrow> (data_error, 's) result"
  ad_advance_to :: "u64 \<Rightarrow> 's \<Rightarrow> (data_error, 's) result"
  ad_flush :: "'s \<Rightarrow> 's"
  ad_time :: "'s \<Rightarrow> u64"

definition native_adaptor :: "native_session adaptor" where
  "native_adaptor = \<lparr>ad_push = native_apply, ad_advance_to = session_advance_to, ad_flush = session_flush, ad_time = s_time\<rparr>"

definition upsert_adaptor :: "upsert_session adaptor" where
  "upsert_adaptor = \<lparr>ad_push = upsert_apply, ad_advance_to = session_advance_to, ad_flush = session_flush, ad_time = s_time\<rparr>"

record 'p parser_impl =
  pr_parse :: "reader_context \<Rightarrow> 'p \<Rightarrow> (dyn_error, parsed_event_with_errors list) result \<times> 'p"
  pr_new_source :: "source_metadata option \<Rightarrow> 'p \<Rightarrow> 'p"
  pr_column_count :: "'p \<Rightarrow> nat"

definition dsv_impl :: "externals \<Rightarrow> dsv_parser parser_impl" where
  "dsv_impl X = \<lparr>pr_parse = dsv_parse X, pr_new_source = dsv_new_source X, pr_column_count = dsv_column_count\<rparr>"

definition identity_impl :: "externals \<Rightarrow> identity_parser parser_impl" where
  "identity_impl X = \<lparr>pr_parse = identity_parse, pr_new_source = identity_new_source X,
     pr_column_count = (\<lambda>p. length (ip_value_fields p))\<rparr>"

definition debezium_impl :: "externals \<Rightarrow> debezium_parser parser_impl" where
  "debezium_impl X = \<lparr>pr_parse = debezium_parse X, pr_new_source = (\<lambda>_ p. p),
     pr_column_count = (\<lambda>p. length (db_value_field_names p))\<rparr>"

definition json_lines_impl :: "externals \<Rightarrow> json_lines_parser parser_impl" where
  "json_lines_impl X = \<lparr>pr_parse = json_lines_parse X, pr_new_source = json_lines_new_source X,
     pr_column_count = (\<lambda>p. length (jp_value_field_names p))\<rparr>"

definition transparent_impl :: "externals \<Rightarrow> transparent_parser parser_impl" where
  "transparent_impl X = \<lparr>pr_parse = transparent_parse X, pr_new_source = (\<lambda>_ p. p),
     pr_column_count = (\<lambda>p. length (tp_value_field_names p))\<rparr>"

record connector =
  cn_commit_duration :: "nat option"
  cn_current_timestamp :: timestamp
  cn_num_columns :: nat
  cn_current_frontier :: offset_antichain
  cn_skip_all_errors :: bool
  cn_error_logger :: error_logger

datatype entry =
    Snapshot event
  | RewindFinishSentinel offset_antichain
  | Realtime read_result

record surroundings =
  en_ms :: "nat \<Rightarrow> nat"
  en_instant :: "nat \<Rightarrow> nat"
  en_full :: "nat \<Rightarrow> bool"
  en_key :: "Value list option \<Rightarrow> offset option \<Rightarrow> (data_error, key) result"

record ('s, 'p) connector_state =
  cs_connector :: connector
  cs_session :: 's
  cs_parser :: 'p
  cs_snapshot_writer :: "event list option"
  cs_monitor :: connector_monitor
  cs_log :: "log_row list"
  cs_backfilling_finished :: bool
  cs_commit_allowed :: bool
  cs_next_commit_at :: "nat option"
  cs_tick :: nat

definition connector_new :: "nat option \<Rightarrow> nat \<Rightarrow> bool \<Rightarrow> error_logger \<Rightarrow> connector" where
  "connector_new commit_duration num_columns skip_all_errors error_logger =
     \<lparr>cn_commit_duration = commit_duration, cn_current_timestamp = 0, cn_num_columns = num_columns,
      cn_current_frontier = offset_antichain_new, cn_skip_all_errors = skip_all_errors, cn_error_logger = error_logger\<rparr>"

section \<open>Parsed data\<close>

definition write_event :: "event \<Rightarrow> ('s, 'p) connector_state \<Rightarrow> ('s, 'p) connector_state" where
  "write_event e st = st\<lparr>cs_snapshot_writer := map_option (\<lambda>w. w @ [e]) (cs_snapshot_writer st)\<rparr>"

definition log_parse_error ::
    "dyn_error \<Rightarrow> ('s, 'p) connector_state \<Rightarrow> (data_error, ('s, 'p) connector_state) result" where
  "log_parse_error error st =
     (if cn_skip_all_errors (cs_connector st) then Ok st
      else map_ok (\<lambda>(_, rows). st\<lparr>cs_log := cs_log st @ rows\<rparr>)
        (log_error (cn_error_logger (cs_connector st)) (to_data_error error)))"

definition advance_time ::
    "surroundings \<Rightarrow> 's adaptor \<Rightarrow> ('s, 'p) connector_state \<Rightarrow> (data_error, timestamp \<times> ('s, 'p) connector_state) result" where
  "advance_time E A st =
     (let ms = en_ms E (cs_tick st); c = cs_connector st
      in if ms < 2 ^ 64 then
           let new_timestamp = of_nat ms div 2 * 2;
               c = (if cn_current_timestamp c \<le> new_timestamp then c\<lparr>cn_current_timestamp := new_timestamp\<rparr> else c)
           in map_ok (\<lambda>s. (cn_current_timestamp c,
                st\<lparr>cs_connector := c, cs_session := ad_flush A s, cs_tick := cs_tick st + 1\<rparr>))
                (ad_advance_to A (cn_current_timestamp c) (cs_session st))
         else Panic)"

definition error_handling_logic ::
    "connector \<Rightarrow> value_field list \<Rightarrow> (dyn_error, Value list \<times> log_row list) result" where
  "error_handling_logic c vs =
     (if cn_skip_all_errors c then map_ok (\<lambda>vs. (vs, [])) (try_collect vs)
      else map_err DataErr
        (run_map (\<lambda>v. unwrap_or_else_log (cn_error_logger c) VError (map_err to_data_error v)) vs))"

text \<open>The values of an event without their errors, and what was logged about them.\<close>

definition remove_errors ::
    "(value_field list \<Rightarrow> (dyn_error, Value list \<times> log_row list) result) \<Rightarrow> parsed_event_with_errors
      \<Rightarrow> (dyn_error, parsed_event \<times> log_row list) result" where
  "remove_errors logic event =
     (let transpose = (\<lambda>k. case k of None \<Rightarrow> Ok None | Some r \<Rightarrow> map_ok Some r)
      in case event of
           PeAdvanceTime \<Rightarrow> Ok (AdvanceTime, [])
         | PeInsert k vs \<Rightarrow> and_then (transpose k) (\<lambda>k. map_ok (\<lambda>(vs, rows). (ParsedInsert k vs, rows)) (logic vs))
         | PeUpsert k vs \<Rightarrow> and_then (transpose k) (\<lambda>k.
             case vs of
               None \<Rightarrow> Ok (ParsedUpsert k None, [])
             | Some vs \<Rightarrow> map_ok (\<lambda>(vs, rows). (ParsedUpsert k (Some vs), rows)) (logic vs))
         | PeDelete k vs \<Rightarrow> and_then (transpose k) (\<lambda>k. map_ok (\<lambda>(vs, rows). (ParsedDelete k vs, rows)) (logic vs)))"

definition push_change ::
    "surroundings \<Rightarrow> 's adaptor \<Rightarrow> change \<Rightarrow> ('s, 'p) connector_state \<Rightarrow> (data_error, ('s, 'p) connector_state) result" where
  "push_change E A c st =
     map_ok (\<lambda>s. st\<lparr>cs_session := s, cs_tick := cs_tick st + 1\<rparr>) (ad_push A (en_full E (cs_tick st)) c (cs_session st))"

definition on_insert ::
    "surroundings \<Rightarrow> 's adaptor \<Rightarrow> key \<Rightarrow> Value list \<Rightarrow> ('s, 'p) connector_state
      \<Rightarrow> (data_error, ('s, 'p) connector_state) result" where
  "on_insert E A k vs st = push_change E A (Insert k (VTuple vs)) st"

definition on_upsert ::
    "surroundings \<Rightarrow> 's adaptor \<Rightarrow> key \<Rightarrow> Value list option \<Rightarrow> ('s, 'p) connector_state
      \<Rightarrow> (data_error, ('s, 'p) connector_state) result" where
  "on_upsert E A k vs st = push_change E A (Upsert k (map_option VTuple vs)) st"

definition on_remove ::
    "surroundings \<Rightarrow> 's adaptor \<Rightarrow> key \<Rightarrow> Value list \<Rightarrow> ('s, 'p) connector_state
      \<Rightarrow> (data_error, ('s, 'p) connector_state) result" where
  "on_remove E A k vs st = push_change E A (Remove k (VTuple vs)) st"

text \<open>\<open>connector_monitor.commit()\<close> and the record of the new time.\<close>

definition commit_monitor ::
    "surroundings \<Rightarrow> bool \<Rightarrow> ('s, 'p) connector_state \<Rightarrow> (data_error, ('s, 'p) connector_state) result" where
  "commit_monitor E monitored st =
     (if monitored
      then map_ok (\<lambda>m. st\<lparr>cs_monitor := m, cs_tick := cs_tick st + 1\<rparr>)
        (monitor_commit (en_instant E (cs_tick st)) (cs_monitor st))
      else Ok st)"

definition on_advance_time ::
    "surroundings \<Rightarrow> 's adaptor \<Rightarrow> bool \<Rightarrow> ('s, 'p) connector_state \<Rightarrow> (data_error, ('s, 'p) connector_state) result" where
  "on_advance_time E A monitored st =
     and_then (advance_time E A st) (\<lambda>(time_advanced, st).
     and_then (commit_monitor E monitored st) (\<lambda>st.
       Ok (write_event (EvAdvanceTime time_advanced (cn_current_frontier (cs_connector st))) st)))"

definition record_row ::
    "bool \<Rightarrow> key \<Rightarrow> parsed_event \<Rightarrow> ('s, 'p) connector_state \<Rightarrow> (data_error, ('s, 'p) connector_state) result" where
  "record_row monitored k entry st =
     (let st = (if monitored then st\<lparr>cs_monitor := monitor_increment (cs_monitor st)\<rparr> else st)
      in case snapshot_event k entry of
           Some e \<Rightarrow> Ok (write_event e st)
         | None \<Rightarrow> if cs_snapshot_writer st \<noteq> None then Panic else Ok st)"

definition on_parsed_event ::
    "surroundings \<Rightarrow> 's adaptor \<Rightarrow> bool \<Rightarrow> key option \<Rightarrow> parsed_event \<Rightarrow> ('s, 'p) connector_state
      \<Rightarrow> (data_error, ('s, 'p) connector_state) result" where
  "on_parsed_event E A monitored k entry st =
     (case entry of
        ParsedInsert _ vs \<Rightarrow>
          if length vs \<noteq> cn_num_columns (cs_connector st) then Ok st
          else and_then (unwrap k) (\<lambda>k. on_insert E A k vs st)
      | ParsedUpsert _ vs \<Rightarrow> and_then (unwrap k) (\<lambda>k. on_upsert E A k vs st)
      | ParsedDelete _ vs \<Rightarrow>
          if length vs \<noteq> cn_num_columns (cs_connector st) then Ok st
          else and_then (unwrap k) (\<lambda>k. on_remove E A k vs st)
      | AdvanceTime \<Rightarrow> on_advance_time E A monitored st)"

definition on_parsed_entry ::
    "surroundings \<Rightarrow> 's adaptor \<Rightarrow> bool \<Rightarrow> offset option \<Rightarrow> parsed_event_with_errors \<Rightarrow> ('s, 'p) connector_state
      \<Rightarrow> (data_error, ('s, 'p) connector_state) result" where
  "on_parsed_entry E A monitored offset entry st =
     (case remove_errors (error_handling_logic (cs_connector st)) entry of
        Panic \<Rightarrow> Panic
      | Err err \<Rightarrow>
          log_parse_error (if cn_skip_all_errors (cs_connector st) then err else ParseErr (ErrorInKey err)) st
      | Ok (entry, rows) \<Rightarrow>
          let st = st\<lparr>cs_log := cs_log st @ rows\<rparr>
          in and_then (parsed_event_key (en_key E) offset entry) (\<lambda>k.
             and_then (case k of Some k \<Rightarrow> record_row monitored k entry st | None \<Rightarrow> Ok st) (\<lambda>st.
               on_parsed_event E A monitored k entry st)))"

fun on_parsed_data ::
    "surroundings \<Rightarrow> 's adaptor \<Rightarrow> bool \<Rightarrow> offset option \<Rightarrow> parsed_event_with_errors list \<Rightarrow> ('s, 'p) connector_state
      \<Rightarrow> (data_error, ('s, 'p) connector_state) result" where
  "on_parsed_data E A monitored offset [] st = Ok st"
| "on_parsed_data E A monitored offset (entry # parsed_entries) st =
     and_then (on_parsed_entry E A monitored offset entry st) (on_parsed_data E A monitored offset parsed_entries)"

section \<open>Entries of the channel\<close>

definition on_new_data ::
    "surroundings \<Rightarrow> 's adaptor \<Rightarrow> 'p parser_impl \<Rightarrow> reader_context \<Rightarrow> offset \<Rightarrow> ('s, 'p) connector_state
      \<Rightarrow> (data_error, ('s, 'p) connector_state) result" where
  "on_new_data E A P reader_context offset st =
     (case pr_parse P reader_context (cs_parser st) of (r, parser) \<Rightarrow>
        let st = st\<lparr>cs_parser := parser\<rparr>
        in case r of
             Panic \<Rightarrow> Panic
           | Err e \<Rightarrow> log_parse_error e st
           | Ok parsed_entries \<Rightarrow>
               let parsed_entries = (if cs_backfilling_finished st then parsed_entries
                     else filter (\<lambda>x. x \<noteq> PeAdvanceTime) parsed_entries)
               in and_then (on_parsed_data E A True (Some offset) parsed_entries st) (\<lambda>st.
                    if cs_snapshot_writer st \<noteq> None then
                      if cs_backfilling_finished st then
                        let c = cs_connector st
                        in Ok (st\<lparr>cs_connector := c\<lparr>cn_current_frontier :=
                             advance_offset (fst offset) (snd offset) (cn_current_frontier c)\<rparr>\<rparr>)
                      else Panic
                    else Ok st))"

definition handle_input_entry ::
    "surroundings \<Rightarrow> 's adaptor \<Rightarrow> 'p parser_impl \<Rightarrow> entry \<Rightarrow> ('s, 'p) connector_state
      \<Rightarrow> (data_error, ('s, 'p) connector_state) result" where
  "handle_input_entry E A P entry st =
     (case entry of
        Realtime read_result \<Rightarrow>
          (case read_result of
             Finished \<Rightarrow> Ok st
           | FinishedSource commit_allowed_external \<Rightarrow>
               let st = st\<lparr>cs_commit_allowed := commit_allowed_external\<rparr>
               in if cs_commit_allowed st then on_parsed_data E A True None [PeAdvanceTime] st else Ok st
           | NewSource metadata \<Rightarrow>
               Ok (st\<lparr>cs_commit_allowed := False, cs_parser := pr_new_source P metadata (cs_parser st)\<rparr>)
           | Data reader_context offset \<Rightarrow> on_new_data E A P reader_context offset st)
      | RewindFinishSentinel restored_frontier \<Rightarrow>
          if cs_backfilling_finished st then Panic
          else on_parsed_data E A True None [PeAdvanceTime]
                 (st\<lparr>cs_backfilling_finished := True,
                   cs_connector := (cs_connector st)\<lparr>cn_current_frontier := restored_frontier\<rparr>\<rparr>)
      | Snapshot snapshot \<Rightarrow>
          if cs_backfilling_finished st then Panic
          else case snapshot of
            EvInsert k v \<Rightarrow> on_insert E A k v st
          | EvDelete k v \<Rightarrow> on_remove E A k v st
          | EvUpsert k v \<Rightarrow> on_upsert E A k v st
          | EvAdvanceTime _ _ \<Rightarrow> Panic
          | EvFinished \<Rightarrow> Panic)"

section \<open>The poller\<close>

datatype control_flow = Break | Continue "nat option"

definition finish_monitor :: "surroundings \<Rightarrow> ('s, 'p) connector_state \<Rightarrow> ('s, 'p) connector_state" where
  "finish_monitor E st =
     st\<lparr>cs_monitor := monitor_finish (en_instant E (cs_tick st)) (en_instant E (cs_tick st + 1)) (cs_monitor st),
       cs_tick := cs_tick st + 2\<rparr>"

definition BATCH_LIMIT :: nat where
  "BATCH_LIMIT = 100000"

definition finish_event :: "connector \<Rightarrow> event" where
  "finish_event c = EvAdvanceTime (cn_current_timestamp c + 2) (cn_current_frontier c)"

definition replay_time ::
    "'s adaptor \<Rightarrow> timestamp \<Rightarrow> ('s, 'p) connector_state \<Rightarrow> (data_error, ('s, 'p) connector_state) result" where
  "replay_time A new_timestamp st =
     map_ok (\<lambda>s. st\<lparr>cs_session := ad_flush A s\<rparr>)
       (ad_advance_to A (new_timestamp div 2 * 2) (ad_flush A (cs_session st)))"

fun poll_loop ::
    "surroundings \<Rightarrow> 's adaptor \<Rightarrow> 'p parser_impl \<Rightarrow> nat \<Rightarrow> bool \<Rightarrow> nat \<Rightarrow> entry list \<Rightarrow> ('s, 'p) connector_state
      \<Rightarrow> (data_error, control_flow \<times> entry list \<times> ('s, 'p) connector_state) result" where
  "poll_loop E A P iteration_start disconnected n [] st =
     (if n + 1 = BATCH_LIMIT then Ok (Continue (cs_next_commit_at st), [], st)
      else if disconnected then Ok (Break, [], finish_monitor E st)
      else Ok (Continue (cs_next_commit_at st), [], st))"
| "poll_loop E A P iteration_start disconnected n (entry # channel) st =
     (if n + 1 = BATCH_LIMIT then Ok (Continue (cs_next_commit_at st), entry # channel, st)
      else case entry of
        Realtime Finished \<Rightarrow>
          let st = write_event (finish_event (cs_connector st)) st
          in if cs_backfilling_finished st then Ok (Break, channel, finish_monitor E st)
             else poll_loop E A P iteration_start disconnected (n + 1) channel st
      | Snapshot (EvAdvanceTime new_timestamp _) \<Rightarrow>
          map_ok (\<lambda>st. (Continue (Some iteration_start), channel, st)) (replay_time A new_timestamp st)
      | _ \<Rightarrow>
          and_then (handle_input_entry E A P entry st) (poll_loop E A P iteration_start disconnected (n + 1) channel))"

text \<open>The commit that is due.\<close>

definition auto_commit ::
    "surroundings \<Rightarrow> 's adaptor \<Rightarrow> nat \<Rightarrow> ('s, 'p) connector_state \<Rightarrow> (data_error, ('s, 'p) connector_state) result" where
  "auto_commit E A iteration_start st =
     (case cs_next_commit_at st of
        Some next_commit_at_timestamp \<Rightarrow>
          if next_commit_at_timestamp \<le> iteration_start then
            and_then (if cs_backfilling_finished st \<and> cs_commit_allowed st
                then on_parsed_data E A True None [PeAdvanceTime] st else Ok st) (\<lambda>st.
            map_ok (\<lambda>d. st\<lparr>cs_next_commit_at := Some (next_commit_at_timestamp + d)\<rparr>)
              (unwrap (cn_commit_duration (cs_connector st))))
          else Ok st
      | None \<Rightarrow> Ok st)"

text \<open>\<open>behind\<close> is the answer of \<open>probe.less_than(input_session.time())\<close>.\<close>

definition poll ::
    "surroundings \<Rightarrow> 's adaptor \<Rightarrow> 'p parser_impl \<Rightarrow> persistence_mode \<Rightarrow> (u64 \<Rightarrow> bool) \<Rightarrow> nat \<Rightarrow> bool \<Rightarrow> entry list
      \<Rightarrow> ('s, 'p) connector_state \<Rightarrow> (data_error, control_flow \<times> entry list \<times> ('s, 'p) connector_state) result" where
  "poll E A P mode behind iteration_start disconnected channel st =
     (if mode = SpeedrunReplay \<and> \<not> cs_backfilling_finished st \<and> behind (ad_time A (cs_session st))
      then Ok (Continue (Some iteration_start), channel, st)
      else and_then (auto_commit E A iteration_start st) (poll_loop E A P iteration_start disconnected 0 channel))"

section \<open>Starting a connector\<close>

text \<open>Whether rows are recorded, and the storage of the worker. \<open>writer\<close> is the outcome of opening the writer.\<close>

definition connector_snapshot_writer ::
    "(write_error, unit) result \<Rightarrow> persistence_mode \<Rightarrow> u128 option \<Rightarrow> bool \<Rightarrow> 'm worker_persistent_storage option
      \<Rightarrow> snapshot_access \<Rightarrow> (write_error, bool \<times> 'm worker_persistent_storage option) result" where
  "connector_snapshot_writer writer mode persistent_id is_internal persistent_storage snapshot_access =
     (if \<not> is_snapshot_writing_allowed snapshot_access then Ok (False, persistent_storage)
      else case persistent_storage of
        Some t \<Rightarrow>
          (case persistent_id of
             Some persistent_id \<Rightarrow> map_ok (\<lambda>t. (True, Some t)) (wps_create_snapshot_writer writer persistent_id t)
           | None \<Rightarrow> if mode \<noteq> Persisting \<or> is_internal then Ok (False, persistent_storage) else Panic)
      | None \<Rightarrow> if persistent_id = None then Ok (False, None) else Panic)"

text \<open>The state the poller starts with, when the rows are recorded or not.\<close>

definition connector_start ::
    "'p parser_impl \<Rightarrow> connector \<Rightarrow> bool \<Rightarrow> nat \<Rightarrow> 'p \<Rightarrow> 's \<Rightarrow> (write_error, ('s, 'p) connector_state) result" where
  "connector_start P c recorded now parser session =
     (if cn_num_columns c = pr_column_count P parser
      then Ok \<lparr>cs_connector = c, cs_session = session, cs_parser = parser,
        cs_snapshot_writer = (if recorded then Some [] else None), cs_monitor = connector_monitor_new, cs_log = [],
        cs_backfilling_finished = False, cs_commit_allowed = True,
        cs_next_commit_at = map_option (\<lambda>x. now + x) (cn_commit_duration c), cs_tick = 0\<rparr>
      else Panic)"

text \<open>The results of the reader in turn, each with whether the channel still takes it: what is sent, and
  the errors that are reported.\<close>

fun read_realtime_updates ::
    "nat \<Rightarrow> nat \<Rightarrow> ((read_error, read_result) result \<times> bool) list \<Rightarrow> entry list \<times> read_error list" where
  "read_realtime_updates max_allowed consecutive_errors [] = ([], [])"
| "read_realtime_updates max_allowed consecutive_errors ((row_read_result, connected) # results) =
     (case row_read_result of
        Ok read_result \<Rightarrow>
          if \<not> connected then ([], [])
          else apfst (Cons (Realtime read_result))
            (if read_result = Finished then ([], []) else read_realtime_updates max_allowed 0 results)
      | Err error \<Rightarrow>
          let consecutive_errors = consecutive_errors + 1
          in apsnd (append (if max_allowed < consecutive_errors then [error] else []))
               (read_realtime_updates max_allowed consecutive_errors results)
      | Panic \<Rightarrow> ([], []))"

text \<open>What the input thread sends: the replay, the sentinel, and what the reader gives.\<close>

definition input_thread ::
    "(unit, event list \<times> offset_antichain \<times> 'd) result \<Rightarrow> bool \<Rightarrow> nat \<Rightarrow> ((read_error, read_result) result \<times> bool) list
      \<Rightarrow> entry list" where
  "input_thread snapshot realtime_reader_needed max_allowed results = (case snapshot of
       Ok (sent, frontier, _) \<Rightarrow>
         map Snapshot sent @ [RewindFinishSentinel frontier]
           @ (if realtime_reader_needed then fst (read_realtime_updates max_allowed 0 results) else [])
     | _ \<Rightarrow> [])"

section \<open>Push sources and the state of operators\<close>

definition on_data ::
    "surroundings \<Rightarrow> 's adaptor \<Rightarrow> 'p parser_impl \<Rightarrow> reader_context \<Rightarrow> offset option \<Rightarrow> ('s, 'p) connector_state
      \<Rightarrow> (data_error, ('s, 'p) connector_state) result" where
  "on_data E A P raw_read_data offset st =
     (case pr_parse P raw_read_data (cs_parser st) of (r, parser) \<Rightarrow>
        let st = st\<lparr>cs_parser := parser\<rparr>
        in case r of
             Ok entries \<Rightarrow> on_parsed_data E A False offset entries st
           | Err _ \<Rightarrow> Ok st
           | Panic \<Rightarrow> Panic)"

text \<open>The loop over a custom reader does not end; these are its first iterations.\<close>

fun run_with_custom_reader ::
    "surroundings \<Rightarrow> 's adaptor \<Rightarrow> ((dyn_error, parsed_event_with_errors list) result \<times> offset option) list
      \<Rightarrow> ('s, 'p) connector_state \<Rightarrow> (data_error, ('s, 'p) connector_state) result" where
  "run_with_custom_reader E A [] st = Ok st"
| "run_with_custom_reader E A ((r, maybe_offset) # acquired) st =
     and_then (case r of
         Ok entries \<Rightarrow> on_parsed_data E A False maybe_offset entries st
       | Err _ \<Rightarrow> Ok st
       | Panic \<Rightarrow> Panic) (run_with_custom_reader E A acquired)"

text \<open>\<open>full\<close> lists the allocation states of the session's buffer; the end of the list of entries is the end
  of the channel.\<close>

fun read_persisted_state ::
    "(nat \<Rightarrow> bool) \<Rightarrow> entry list \<Rightarrow> ((key \<times> Value list) \<times> u64 \<times> int) session
      \<Rightarrow> (data_error, ((key \<times> Value list) \<times> u64 \<times> int) session) result" where
  "read_persisted_state full [] s = Ok s"
| "read_persisted_state full (entry # channel) s =
     (case entry of
        Snapshot (EvInsert k vs) \<Rightarrow>
          read_persisted_state full channel (session_push (full (length channel)) ((k, vs), s_time s, 1) s)
      | Snapshot (EvDelete k vs) \<Rightarrow>
          read_persisted_state full channel (session_push (full (length channel)) ((k, vs), s_time s, -1) s)
      | RewindFinishSentinel _ \<Rightarrow> Ok s
      | _ \<Rightarrow> Panic)"

end
