(* ===== verification/ConnectorLaws.thy ===== *)
theory ConnectorLaws
  imports Connectors
begin

text \<open>
  Laws of connectors: the contract of a session and a parser of one kind, and the invariant of the poller. What a
  connector pushes into its session and what it records of it agree, its times are even and do not go back, and it
  does not panic.
\<close>

section \<open>Rows of a record\<close>

fun change_of :: "event \<Rightarrow> change option" where
  "change_of (EvInsert k vs) = Some (Insert k (VTuple vs))"
| "change_of (EvDelete k vs) = Some (Remove k (VTuple vs))"
| "change_of (EvUpsert k vs) = Some (Upsert k (map_option VTuple vs))"
| "change_of (EvAdvanceTime t f) = None"
| "change_of EvFinished = None"

text \<open>The rows of a record, each with the time of the last advancement before it, and the time behind it.\<close>

fun timed :: "u64 \<Rightarrow> event list \<Rightarrow> (change \<times> u64) list" where
  "timed t [] = []"
| "timed t (EvAdvanceTime t' f # es) = timed t' es"
| "timed t (e # es) = map (\<lambda>c. (c, t)) (case change_of e of Some c \<Rightarrow> [c] | None \<Rightarrow> []) @ timed t es"

fun time_after :: "u64 \<Rightarrow> event list \<Rightarrow> u64" where
  "time_after t [] = t"
| "time_after t (EvAdvanceTime t' f # es) = time_after t' es"
| "time_after t (e # es) = time_after t es"

text \<open>The times of a record do not go back, and it has no end marker.\<close>

fun ascending :: "u64 \<Rightarrow> event list \<Rightarrow> bool" where
  "ascending t [] = True"
| "ascending t (EvAdvanceTime t' f # es) = (t \<le> t' \<and> ascending t' es)"
| "ascending t (EvFinished # es) = False"
| "ascending t (e # es) = ascending t es"

lemma timed_append: "timed t (es @ fs) = timed t es @ timed (time_after t es) fs"
  by (induction t es rule: timed.induct) simp_all

lemma time_after_append: "time_after t (es @ fs) = time_after (time_after t es) fs"
  by (induction t es rule: time_after.induct) simp_all

lemma ascending_append: "ascending t (es @ fs) \<longleftrightarrow> ascending t es \<and> ascending (time_after t es) fs"
  by (induction t es rule: ascending.induct) simp_all

lemma ascending_no_end: "ascending t es \<Longrightarrow> EvFinished \<notin> set es"
  by (induction t es rule: ascending.induct) auto

lemma timed_row: "change_of e = Some c \<Longrightarrow> timed t [e] = [(c, t)] \<and> time_after t [e] = t \<and> ascending t [e]"
  by (cases e) simp_all

lemma timed_ge: "ascending t es \<Longrightarrow> (c, s) \<in> set (timed t es) \<Longrightarrow> t \<le> s"
  by (induction t es rule: timed.induct) (auto split: option.splits)

lemma fst_timed: "map fst (timed t es) = List.map_filter change_of es"
  by (induction t es rule: timed.induct) (auto simp: map_filter_simps split: option.splits)

text \<open>The rows before the first advancement at or beyond a threshold are those of earlier times.\<close>

lemma replayed_rows:
  "ascending t es \<Longrightarrow> At t < thr \<Longrightarrow>
    List.map_filter change_of (replayed thr es) = map fst (filter (\<lambda>(c, s). At s < thr) (timed t es))"
proof (induction t es rule: timed.induct)
  case (2 t t' f es)
  show ?case
  proof (cases "thr \<le> At t'")
    case True
    have "\<not> At s < thr" if "(c, s) \<in> set (timed t' es)" for c s
      using timed_ge [OF _ that] 2 True by (auto simp: not_less intro: order_trans)
    then have "filter (\<lambda>(c, s). At s < thr) (timed t' es) = []" by (auto simp: filter_empty_conv)
    then show ?thesis using True by (simp add: ends_def map_filter_simps)
  next
    case False
    then show ?thesis using 2 by (simp add: ends_def map_filter_simps)
  qed
qed (auto simp: ends_def map_filter_simps)

lemma sent_rows: "List.map_filter change_of (sent_in Persisting es) = List.map_filter change_of es"
proof -
  have "sent_in Persisting es = filter (\<lambda>e. change_of e \<noteq> None \<or> e = EvFinished) es"
    unfolding sent_in_def by (rule filter_cong) (auto split: event.split)
  moreover have "List.map_filter change_of (filter (\<lambda>e. change_of e \<noteq> None \<or> e = EvFinished) es) = List.map_filter change_of es"
    by (induction es) (auto simp: map_filter_simps)
  ultimately show ?thesis by simp
qed

section \<open>The parts of a connector\<close>

locale connector_parts =
  input_adaptor "ad_push A" "ad_advance_to A" "ad_flush A" "ad_time A" entries wf supports +
  event_parser "pr_parse P" "pr_new_source P" session "pr_column_count P" good
  for A :: "'s adaptor" and entries :: "'s \<Rightarrow> (change \<times> u64) list" and wf :: "'s \<Rightarrow> bool"
    and supports :: "change \<Rightarrow> bool" and P :: "'p parser_impl" and session :: "'p \<Rightarrow> session_type" and good :: "'p \<Rightarrow> bool" +
  fixes kind :: session_type
  assumes supports_kind: "supports c \<longleftrightarrow> is_upsert c = (kind = UpsertSession)"
    and session_kind: "good p \<Longrightarrow> session p = kind"
    and entries_supported: "u \<in> set (entries s) \<Longrightarrow> supports (fst u)"
begin

lemma parsed_fits: "good p \<Longrightarrow> pr_parse P data p = (Ok evs, p') \<Longrightarrow> ev \<in> set evs \<Longrightarrow> fits kind (pr_column_count P p) ev"
  using parse_fits session_kind by metis

end

definition env_ok :: "surroundings \<Rightarrow> bool" where
  "env_ok E \<longleftrightarrow> (\<forall>i. en_ms E i < 2 ^ 63) \<and> (\<forall>vs off. \<exists>k. en_key E vs (Some off) = Ok k)"

fun collects :: "error_logger \<Rightarrow> bool" where
  "collects (ErrorLogger operator_id has_log) = True"
| "collects ErrorReporter = False"

section \<open>The invariant of a connector\<close>

lemma even_time_below:
  assumes "ms < 2 ^ 63" shows "of_nat ms div 2 * 2 < (2 ^ 63 :: u64)"
proof -
  let ?w = "of_nat ms :: u64"
  have w: "unat ?w = ms" using assms by (simp add: unsigned_of_nat take_bit_eq_mod)
  have "unat (?w div 2 * 2) = ms div 2 * 2 mod 2 ^ 64"
    unfolding unat_word_ariths(2) by (simp add: unat_div_distrib w)
  also have "\<dots> \<le> ms div 2 * 2" by (rule mod_less_eq_dividend)
  also have "\<dots> \<le> ms" by simp
  finally show ?thesis using assms by (simp add: word_less_nat_alt)
qed

lemma finish_time_later: "t < 2 ^ 63 \<Longrightarrow> t \<le> t + (2 :: u64)"
proof -
  assume "t < 2 ^ 63"
  then have "unat t + 2 < 2 ^ 64" by (simp add: word_less_nat_alt)
  then have "unat (t + 2) = unat t + 2" by (simp add: unat_word_ariths(1))
  then show ?thesis by (simp add: word_le_nat_alt)
qed

definition st_ok ::
    "'s adaptor \<Rightarrow> ('s \<Rightarrow> (change \<times> u64) list) \<Rightarrow> ('s \<Rightarrow> bool) \<Rightarrow> 'p parser_impl \<Rightarrow> ('p \<Rightarrow> bool)
      \<Rightarrow> ('s, 'p) connector_state \<Rightarrow> bool" where
  "st_ok A entries session_ok P good st \<longleftrightarrow>
     session_ok (cs_session st) \<and> good (cs_parser st)
     \<and> cn_num_columns (cs_connector st) = pr_column_count P (cs_parser st)
     \<and> collects (cn_error_logger (cs_connector st)) \<and> counted (cs_monitor st)
     \<and> ad_time A (cs_session st) \<le> cn_current_timestamp (cs_connector st)
     \<and> even (ad_time A (cs_session st)) \<and> even (cn_current_timestamp (cs_connector st))
     \<and> cn_current_timestamp (cs_connector st) < 2 ^ 63
     \<and> (\<forall>u \<in> set (entries (cs_session st)). even (snd u))
     \<and> (cs_next_commit_at st \<noteq> None \<longrightarrow> cn_commit_duration (cs_connector st) \<noteq> None)"

text \<open>The session holds what it held before the record began, and then the rows of the record.\<close>

definition in_step ::
    "'s adaptor \<Rightarrow> ('s \<Rightarrow> (change \<times> u64) list) \<Rightarrow> (change \<times> u64) list \<Rightarrow> u64 \<Rightarrow> ('s, 'p) connector_state \<Rightarrow> bool" where
  "in_step A entries base t0 st \<longleftrightarrow>
     (\<forall>w. cs_snapshot_writer st = Some w \<longrightarrow>
        entries (cs_session st) = base @ timed t0 w \<and> ad_time A (cs_session st) = time_after t0 w \<and> ascending t0 w)"

text \<open>What the handling of rows leaves as it is.\<close>

definition same_mode :: "('s, 'p) connector_state \<Rightarrow> ('s, 'p) connector_state \<Rightarrow> bool" where
  "same_mode st st' \<longleftrightarrow>
     cs_parser st' = cs_parser st \<and> cs_backfilling_finished st' = cs_backfilling_finished st
     \<and> cs_commit_allowed st' = cs_commit_allowed st \<and> cs_next_commit_at st' = cs_next_commit_at st
     \<and> (cs_snapshot_writer st' = None) = (cs_snapshot_writer st = None)
     \<and> cn_commit_duration (cs_connector st') = cn_commit_duration (cs_connector st)
     \<and> cn_num_columns (cs_connector st') = cn_num_columns (cs_connector st)
     \<and> cn_current_frontier (cs_connector st') = cn_current_frontier (cs_connector st)"

lemma same_mode_refl [simp]: "same_mode st st"
  by (simp add: same_mode_def)

lemma same_mode_trans: "same_mode st st' \<Longrightarrow> same_mode st' st'' \<Longrightarrow> same_mode st st''"
  by (auto simp: same_mode_def)

text \<open>Rows have been added at the current time.\<close>

definition rows_added ::
    "'s adaptor \<Rightarrow> ('s \<Rightarrow> (change \<times> u64) list) \<Rightarrow> ('s, 'p) connector_state \<Rightarrow> ('s, 'p) connector_state \<Rightarrow> bool" where
  "rows_added A entries st st' \<longleftrightarrow>
     ad_time A (cs_session st') = ad_time A (cs_session st)
     \<and> (\<exists>cs. entries (cs_session st') = entries (cs_session st) @ map (\<lambda>c. (c, ad_time A (cs_session st))) cs)"

lemma rows_added_refl [simp]: "rows_added A entries st st"
  by (simp add: rows_added_def)

lemma rows_added_trans: "rows_added A entries st st' \<Longrightarrow> rows_added A entries st' st'' \<Longrightarrow> rows_added A entries st st''"
  by (auto simp: rows_added_def) (metis map_append)

lemma write_event_simps [simp]:
  "cs_connector (write_event e st) = cs_connector st" "cs_session (write_event e st) = cs_session st"
  "cs_parser (write_event e st) = cs_parser st" "cs_monitor (write_event e st) = cs_monitor st"
  "cs_log (write_event e st) = cs_log st" "cs_backfilling_finished (write_event e st) = cs_backfilling_finished st"
  "cs_commit_allowed (write_event e st) = cs_commit_allowed st" "cs_next_commit_at (write_event e st) = cs_next_commit_at st"
  "cs_snapshot_writer (write_event e st) = map_option (\<lambda>w. w @ [e]) (cs_snapshot_writer st)"
  "cs_tick (write_event e st) = cs_tick st"
  by (simp_all add: write_event_def)

section \<open>Rows without their errors\<close>

lemma length_try_collect: "try_collect rs = Ok vs \<Longrightarrow> length vs = length rs"
  by (induction rs arbitrary: vs) (auto simp: result_simps)

lemma unwrap_collects:
  assumes "collects logger" and "r \<noteq> Panic"
  shows "\<exists>v rows. unwrap_or_else_log logger fallback r = Ok (v, rows)"
  using assms by (cases logger; cases r)
    (auto simp: unwrap_or_else_log_def log_error_def run_bind_def run_return_def)

lemma run_map_collects:
  assumes "collects logger" and "\<forall>x \<in> set xs. f x \<noteq> Panic"
  shows "\<exists>vs rows. run_map (\<lambda>x. unwrap_or_else_log logger fallback (f x)) xs = Ok (vs, rows) \<and> length vs = length xs"
  using assms(2)
proof (induction xs)
  case (Cons x xs)
  obtain v rows where "unwrap_or_else_log logger fallback (f x) = Ok (v, rows)"
    using unwrap_collects [OF assms(1), of "f x" fallback] Cons.prems by auto
  with Cons show ?case by (auto simp: run_bind_def run_return_def)
qed (simp add: run_return_def)

lemma logic_total:
  assumes "no_panics vs" and "collects (cn_error_logger c)"
  shows "(\<exists>e. error_handling_logic c vs = Err e) \<or> (\<exists>ws rows. error_handling_logic c vs = Ok (ws, rows) \<and> length ws = length vs)"
proof (cases "cn_skip_all_errors c")
  case True
  then show ?thesis
    using try_collect_no_panic [OF assms(1)] length_try_collect [of vs]
    by (cases "try_collect vs") (auto simp: error_handling_logic_def)
next
  case False
  have "\<forall>v \<in> set vs. map_err to_data_error v \<noteq> Panic"
    using assms(1) by (auto simp: no_panics_def) (metis map_err.simps result.distinct result.exhaust)
  from run_map_collects [OF assms(2) this, of VError] False show ?thesis by (auto simp: error_handling_logic_def)
qed

fun shaped :: "session_type \<Rightarrow> nat \<Rightarrow> parsed_event \<Rightarrow> bool" where
  "shaped s n AdvanceTime = True"
| "shaped s n (ParsedInsert k vs) = (s = NativeSession \<and> length vs = n)"
| "shaped s n (ParsedDelete k vs) = (s = NativeSession \<and> length vs = n)"
| "shaped s n (ParsedUpsert k vs) = (s = UpsertSession)"

lemma remove_errors_shaped:
  assumes "fits s n ev" and "collects (cn_error_logger c)"
  shows "case remove_errors (error_handling_logic c) ev of
      Ok (pe, rows) \<Rightarrow> shaped s n pe \<and> (pe = AdvanceTime) = (ev = PeAdvanceTime)
    | Err e \<Rightarrow> ev \<noteq> PeAdvanceTime
    | Panic \<Rightarrow> False"
proof -
  have key: "k = None \<or> (\<exists>ks. k = Some (Ok ks)) \<or> (\<exists>e. k = Some (Err e))" if "key_ok k" for k
    using that by (cases k; cases "the k") (auto simp: key_ok_def)
  show ?thesis
  proof (cases ev)
    case (PeInsert k vs)
    then show ?thesis using assms logic_total [of vs c] key [of k] by (auto simp: remove_errors_def)
  next
    case (PeDelete k vs)
    then show ?thesis using assms logic_total [of vs c] key [of k] by (auto simp: remove_errors_def)
  next
    case (PeUpsert k ws)
    then show ?thesis
      using assms logic_total [of "the ws" c] key [of k] by (cases ws) (auto simp: remove_errors_def)
  qed (simp add: remove_errors_def)
qed

lemma event_key_total:
  assumes "env_ok E" and "pe \<noteq> AdvanceTime"
  shows "\<exists>k. parsed_event_key (en_key E) (Some off) pe = Ok (Some k)"
proof -
  have "\<exists>k. map_ok Some (en_key E vs (Some off)) = Ok (Some k)" for vs
    using assms(1) unfolding env_ok_def by (metis map_ok.simps(1))
  then show ?thesis using assms(2) by (cases pe) (simp_all add: parsed_event_key_def)
qed

text \<open>The change and the record of a row.\<close>

lemma row_of_event:
  assumes "shaped kind n pe" and "pe \<noteq> AdvanceTime"
  shows "\<exists>e c. snapshot_event k pe = Some e \<and> change_of e = Some c \<and> is_upsert c = (kind = UpsertSession)
    \<and> (\<forall>st. cn_num_columns (cs_connector st) = n \<longrightarrow> on_parsed_event E A m (Some k) pe st = push_change E A c st)"
  using assms
  by (cases pe) (auto simp: snapshot_event_def on_parsed_event_def on_insert_def on_remove_def on_upsert_def)

context connector_parts
begin

abbreviation ok :: "('s, 'p) connector_state \<Rightarrow> bool" where
  "ok \<equiv> st_ok A entries wf P good"

abbreviation step :: "(change \<times> u64) list \<Rightarrow> u64 \<Rightarrow> ('s, 'p) connector_state \<Rightarrow> bool" where
  "step \<equiv> in_step A entries"

lemma push_row:
  assumes "ok st" and "supports c"
  shows "\<exists>s'. push_change E A c st = Ok (st\<lparr>cs_session := s', cs_tick := cs_tick st + 1\<rparr>)
    \<and> entries s' = entries (cs_session st) @ [(c, ad_time A (cs_session st))] \<and> ad_time A s' = ad_time A (cs_session st)
    \<and> ok (st\<lparr>cs_session := s', cs_tick := cs_tick st + 1\<rparr>)"
proof -
  obtain s' where s': "ad_push A (en_full E (cs_tick st)) c (cs_session st) = Ok s'"
    using apply_supported [OF assms(2)] by blast
  show ?thesis
    using assms(1) apply_log [OF s'] apply_time [OF s'] apply_inv [OF _ s'] s'
    by (intro exI [of _ s']) (auto simp: push_change_def st_ok_def)
qed

lemma advance_step:
  assumes "env_ok E" and "ok st" and "step base t0 st"
  shows "\<exists>st'. on_advance_time E A monitored st = Ok st' \<and> ok st' \<and> step base t0 st' \<and> same_mode st st'
    \<and> entries (cs_session st') = entries (cs_session st)"
proof -
  let ?t = "of_nat (en_ms E (cs_tick st)) div 2 * 2 :: u64" and ?c = "cs_connector st"
  have ms: "en_ms E (cs_tick st) < 2 ^ 64" using assms(1) by (auto simp: env_ok_def intro: less_trans [of _ "2 ^ 63"])
  define c where "c = (if cn_current_timestamp ?c \<le> ?t then ?c\<lparr>cn_current_timestamp := ?t\<rparr> else ?c)"
  have c: "cn_current_timestamp ?c \<le> cn_current_timestamp c" "even (cn_current_timestamp c)"
    "cn_num_columns c = cn_num_columns ?c" "cn_error_logger c = cn_error_logger ?c"
    "cn_commit_duration c = cn_commit_duration ?c" "cn_current_frontier c = cn_current_frontier ?c"
    using assms(2) by (auto simp: c_def st_ok_def)
  have "?t < 2 ^ 63" using assms(1) by (intro even_time_below) (simp add: env_ok_def)
  then have below: "cn_current_timestamp c < 2 ^ 63" using assms(2) by (simp add: c_def st_ok_def)
  have le: "ad_time A (cs_session st) \<le> cn_current_timestamp c"
    using assms(2) c(1) order_trans by (fastforce simp: st_ok_def)
  then obtain s where s: "ad_advance_to A (cn_current_timestamp c) (cs_session st) = Ok s"
    using advance_ok [of "cs_session st"] assms(2) unfolding st_ok_def by blast
  have "counted (cs_monitor st)" using assms(2) by (simp add: st_ok_def)
  then have "\<exists>m. (monitored \<longrightarrow> monitor_commit (en_instant E (cs_tick st + 1)) (cs_monitor st) = (Ok m :: (data_error, connector_monitor) result))
      \<and> counted m \<and> (\<not> monitored \<longrightarrow> m = cs_monitor st)"
    by (cases monitored) (simp_all add: counted_commit)
  then obtain m where m: "monitored \<Longrightarrow> monitor_commit (en_instant E (cs_tick st + 1)) (cs_monitor st) = (Ok m :: (data_error, connector_monitor) result)"
    "counted m" "\<not> monitored \<Longrightarrow> m = cs_monitor st" by blast
  define st' where "st' = write_event (EvAdvanceTime (cn_current_timestamp c) (cn_current_frontier c))
      (st\<lparr>cs_connector := c, cs_session := ad_flush A s, cs_monitor := m,
          cs_tick := cs_tick st + (if monitored then 2 else 1)\<rparr>)"
  have "on_advance_time E A monitored st = Ok st'"
    using ms s m(1,3) by (auto simp: on_advance_time_def advance_time_def commit_monitor_def Let_def c_def st'_def)
  moreover have "ok st'"
    using assms(2) c below m(2) advance_inv [OF _ s] advance_time [OF s] advance_log [OF s]
    by (auto simp: st_ok_def st'_def flush_inv flush_time flush_log)
  moreover have "step base t0 st'"
    using assms(3) le advance_time [OF s] advance_log [OF s]
    by (auto simp: in_step_def st'_def flush_time flush_log timed_append time_after_append ascending_append)
  moreover have "same_mode st st'" using c by (auto simp: same_mode_def st'_def)
  ultimately show ?thesis using advance_log [OF s] by (auto simp: st'_def flush_log)
qed

lemma row_step:
  assumes "ok st" and "step base t0 st" and "change_of e = Some c" and "supports c"
  shows "\<exists>st'. push_change E A c (write_event e st) = Ok st' \<and> ok st' \<and> step base t0 st' \<and> same_mode st st' \<and> rows_added A entries st st'"
proof -
  have "ok (write_event e st)" using assms(1) by (simp add: st_ok_def)
  from push_row [OF this assms(4), of E] obtain s' where s':
    "push_change E A c (write_event e st) = Ok ((write_event e st)\<lparr>cs_session := s', cs_tick := cs_tick st + 1\<rparr>)"
    "entries s' = entries (cs_session st) @ [(c, ad_time A (cs_session st))]" "ad_time A s' = ad_time A (cs_session st)"
    "ok ((write_event e st)\<lparr>cs_session := s', cs_tick := cs_tick st + 1\<rparr>)" by auto
  moreover have "step base t0 ((write_event e st)\<lparr>cs_session := s', cs_tick := cs_tick st + 1\<rparr>)"
    using assms(2) s'(2,3) timed_row [OF assms(3), of "time_after t0 (the (cs_snapshot_writer st))"]
    by (auto simp: in_step_def timed_append time_after_append ascending_append)
  moreover have "rows_added A entries st ((write_event e st)\<lparr>cs_session := s', cs_tick := cs_tick st + 1\<rparr>)"
    using s'(2,3) by (auto simp: rows_added_def intro!: exI [of _ "[c]"])
  ultimately show ?thesis by (auto simp: same_mode_def)
qed

lemma entry_step:
  assumes env: "env_ok E" and st: "ok st" "step base t0 st" and fit: "fits kind (cn_num_columns (cs_connector st)) ev"
    and off: "ev = PeAdvanceTime \<or> off \<noteq> None"
  shows "\<exists>st'. on_parsed_entry E A monitored off ev st = Ok st' \<and> ok st' \<and> step base t0 st' \<and> same_mode st st'
    \<and> (ev = PeAdvanceTime \<or> rows_added A entries st st')"
proof -
  let ?c = "cs_connector st"
  have log: "collects (cn_error_logger ?c)" using st(1) by (simp add: st_ok_def)
  have ok_log: "ok (st\<lparr>cs_log := l\<rparr>)" "step base t0 (st\<lparr>cs_log := l\<rparr>)" "same_mode st (st\<lparr>cs_log := l\<rparr>)"
    "rows_added A entries st (st\<lparr>cs_log := l\<rparr>)" for l
    using st by (simp_all add: st_ok_def in_step_def same_mode_def rows_added_def)
  note shape = remove_errors_shaped [OF fit log]
  show ?thesis
  proof (cases "remove_errors (error_handling_logic ?c) ev")
    case (Err e)
    have "\<exists>l. log_parse_error e' st = Ok (st\<lparr>cs_log := l\<rparr>)" for e'
    proof (cases "cn_error_logger ?c")
      case (ErrorLogger i h)
      then show ?thesis
        by (cases "cn_skip_all_errors ?c") (auto simp: log_parse_error_def log_error_def intro: exI [of _ "cs_log st"])
    qed (use log in simp)
    with Err show ?thesis using ok_log unfolding on_parsed_entry_def by (simp split: if_splits) metis
  next
    case (Ok r)
    obtain pe rows where r: "r = (pe, rows)" by fastforce
    let ?st = "st\<lparr>cs_log := cs_log st @ rows\<rparr>"
    show ?thesis
    proof (cases "pe = AdvanceTime")
      case True
      then have "on_parsed_entry E A monitored off ev st = on_advance_time E A monitored ?st"
        using Ok r by (simp add: on_parsed_entry_def parsed_event_key_def on_parsed_event_def Let_def)
      then show ?thesis
        using advance_step [OF env ok_log(1,2)] same_mode_trans [OF ok_log(3)] shape Ok r True by fastforce
    next
      case False
      have "shaped kind (cn_num_columns ?c) pe" "ev \<noteq> PeAdvanceTime" using shape Ok r False by auto
      moreover obtain o' where "off = Some o'" using off \<open>ev \<noteq> PeAdvanceTime\<close> by auto
      moreover obtain k where "parsed_event_key (en_key E) off pe = Ok (Some k)"
        using event_key_total [OF env False] \<open>off = Some o'\<close> by blast
      moreover obtain e c where ec: "snapshot_event k pe = Some e" "change_of e = Some c" "is_upsert c = (kind = UpsertSession)"
        "\<forall>st :: ('s, 'p) connector_state. cn_num_columns (cs_connector st) = cn_num_columns ?c \<longrightarrow> on_parsed_event E A monitored (Some k) pe st = push_change E A c st"
        using row_of_event [OF \<open>shaped kind (cn_num_columns ?c) pe\<close> False, of k E A monitored] by blast
      moreover define st2 where "st2 = (if monitored then ?st\<lparr>cs_monitor := monitor_increment (cs_monitor st)\<rparr> else ?st)"
      ultimately have "on_parsed_entry E A monitored off ev st = push_change E A c (write_event e st2)"
        using Ok r by (simp add: on_parsed_entry_def record_row_def Let_def)
      moreover have "ok st2" "step base t0 st2" "same_mode st st2" "rows_added A entries st st2"
        using st by (auto simp: st2_def st_ok_def in_step_def same_mode_def rows_added_def)
      moreover have "supports c" using ec(3) supports_kind by simp
      ultimately show ?thesis
        using row_step [OF \<open>ok st2\<close> \<open>step base t0 st2\<close> ec(2), of E] same_mode_trans [OF \<open>same_mode st st2\<close>]
          rows_added_trans [OF \<open>rows_added A entries st st2\<close>] by fastforce
    qed
  qed (use shape in simp)
qed

lemma data_step:
  assumes env: "env_ok E"
  shows "ok st \<Longrightarrow> step base t0 st \<Longrightarrow> \<forall>ev \<in> set evs. fits kind (cn_num_columns (cs_connector st)) ev \<and> (ev = PeAdvanceTime \<or> off \<noteq> None)
    \<Longrightarrow> \<exists>st'. on_parsed_data E A monitored off evs st = Ok st' \<and> ok st' \<and> step base t0 st' \<and> same_mode st st'
      \<and> (PeAdvanceTime \<in> set evs \<or> rows_added A entries st st')"
proof (induction evs arbitrary: st)
  case (Cons ev evs)
  obtain st1 where st1: "on_parsed_entry E A monitored off ev st = Ok st1" "ok st1" "step base t0 st1" "same_mode st st1"
    "ev = PeAdvanceTime \<or> rows_added A entries st st1"
    using entry_step [OF env Cons.prems(1,2), of ev off monitored] Cons.prems(3) by auto
  obtain st' where "on_parsed_data E A monitored off evs st1 = Ok st'" "ok st'" "step base t0 st'" "same_mode st1 st'"
    "PeAdvanceTime \<in> set evs \<or> rows_added A entries st1 st'"
    using Cons.IH [OF st1(2,3)] Cons.prems(3) st1(4) by (auto simp: same_mode_def)
  with st1 show ?case by (auto intro: same_mode_trans rows_added_trans)
qed simp

lemma commit_step:
  assumes "env_ok E" and "ok st" and "step base t0 st"
  shows "\<exists>st'. on_parsed_data E A True None [PeAdvanceTime] st = Ok st' \<and> ok st' \<and> step base t0 st' \<and> same_mode st st'"
  using data_step [OF assms, of "[PeAdvanceTime]" None True] by fastforce

end

section \<open>The entries of a run\<close>

definition row_for :: "session_type \<Rightarrow> event \<Rightarrow> bool" where
  "row_for kind e = (case change_of e of Some c \<Rightarrow> is_upsert c = (kind = UpsertSession) | None \<Rightarrow> False)"

text \<open>Recorded rows, the sentinel, and then what the reader gives, none of it a message on which the parser
  panics.\<close>

fun protocol :: "session_type \<Rightarrow> (reader_context \<Rightarrow> bool) \<Rightarrow> bool \<Rightarrow> entry list \<Rightarrow> bool" where
  "protocol kind readable_ctx sentinel_seen [] = True"
| "protocol kind readable_ctx sentinel_seen (e # es) =
     (case e of
        Snapshot ev \<Rightarrow> \<not> sentinel_seen \<and> row_for kind ev \<and> protocol kind readable_ctx False es
      | RewindFinishSentinel f \<Rightarrow> \<not> sentinel_seen \<and> protocol kind readable_ctx True es
      | Realtime r \<Rightarrow> sentinel_seen \<and> (case r of Data ctx off \<Rightarrow> readable_ctx ctx | _ \<Rightarrow> True) \<and> protocol kind readable_ctx True es)"

fun replay_changes :: "entry list \<Rightarrow> change list" where
  "replay_changes [] = []"
| "replay_changes (Snapshot e # es) = (case change_of e of Some c \<Rightarrow> c # replay_changes es | None \<Rightarrow> replay_changes es)"
| "replay_changes (_ # es) = replay_changes es"

lemma replay_changes_append: "replay_changes (es @ fs) = replay_changes es @ replay_changes fs"
  by (induction es rule: replay_changes.induct) (auto split: option.splits)

lemma no_replay_changes: "protocol kind readable_ctx True es \<Longrightarrow> replay_changes es = []"
  by (induction es) (auto split: entry.splits)

definition parse_safe :: "'p parser_impl \<Rightarrow> ('p \<Rightarrow> bool) \<Rightarrow> reader_context \<Rightarrow> bool" where
  "parse_safe P good ctx \<longleftrightarrow> (\<forall>p. good p \<longrightarrow> fst (pr_parse P ctx p) \<noteq> Panic)"

abbreviation at_start :: "change list \<Rightarrow> (change \<times> u64) list" where
  "at_start cs \<equiv> map (\<lambda>c. (c, 0)) cs"

text \<open>The run has handled all entries of \<open>whole\<close> but the last ones.\<close>

definition run_inv ::
    "'s adaptor \<Rightarrow> ('s \<Rightarrow> (change \<times> u64) list) \<Rightarrow> ('s \<Rightarrow> bool) \<Rightarrow> 'p parser_impl \<Rightarrow> ('p \<Rightarrow> bool) \<Rightarrow> session_type
      \<Rightarrow> entry list \<Rightarrow> entry list \<Rightarrow> ('s, 'p) connector_state \<Rightarrow> bool" where
  "run_inv A entries session_ok P good kind whole rest st \<longleftrightarrow>
     st_ok A entries session_ok P good st
     \<and> protocol kind (parse_safe P good) (cs_backfilling_finished st) rest
     \<and> (\<exists>past. replay_changes whole = past @ replay_changes rest \<and> in_step A entries (at_start past) 0 st
          \<and> (\<not> cs_backfilling_finished st \<longrightarrow> entries (cs_session st) = at_start past \<and> ad_time A (cs_session st) = 0
               \<and> cs_snapshot_writer st \<in> {None, Some []}))"

text \<open>What holds when the run has ended.\<close>

definition run_done ::
    "('s \<Rightarrow> (change \<times> u64) list) \<Rightarrow> ('s \<Rightarrow> bool) \<Rightarrow> entry list \<Rightarrow> ('s, 'p) connector_state \<Rightarrow> bool" where
  "run_done entries session_ok whole st \<longleftrightarrow>
     session_ok (cs_session st) \<and> st_finished (cm_stats (cs_monitor st))
     \<and> (\<forall>u \<in> set (entries (cs_session st)). even (snd u))
     \<and> (\<forall>w. cs_snapshot_writer st = Some w \<longrightarrow>
          entries (cs_session st) = at_start (replay_changes whole) @ timed 0 w \<and> ascending 0 w)"

lemma loop_entry:
  assumes "n + 1 \<noteq> BATCH_LIMIT" and "entry \<noteq> Realtime Finished" and "\<nexists>t f. entry = Snapshot (EvAdvanceTime t f)"
  shows "poll_loop E A P start disconnected n (entry # channel) st
    = and_then (handle_input_entry E A P entry st) (poll_loop E A P start disconnected (n + 1) channel)"
  using assms by (cases entry) (auto split: event.splits read_result.splits)

context connector_parts
begin

abbreviation inv :: "entry list \<Rightarrow> entry list \<Rightarrow> ('s, 'p) connector_state \<Rightarrow> bool" where
  "inv \<equiv> run_inv A entries wf P good kind"

lemma log_parse_total:
  assumes "ok st" shows "\<exists>l. log_parse_error e st = Ok (st\<lparr>cs_log := l\<rparr>)"
  using assms
  by (cases "cn_error_logger (cs_connector st)"; cases "cn_skip_all_errors (cs_connector st)")
    (auto simp: st_ok_def log_parse_error_def log_error_def intro: exI [of _ "cs_log st"])

lemma new_data_step:
  assumes env: "env_ok E" and st: "ok st" "step base t0 st" "cs_backfilling_finished st" and safe: "parse_safe P good ctx"
  shows "\<exists>st'. on_new_data E A P ctx off st = Ok st' \<and> ok st' \<and> step base t0 st' \<and> cs_backfilling_finished st'
    \<and> cs_commit_allowed st' = cs_commit_allowed st
    \<and> ((\<forall>evs. fst (pr_parse P ctx (cs_parser st)) = Ok evs \<longrightarrow> PeAdvanceTime \<notin> set evs) \<longrightarrow> rows_added A entries st st')"
proof -
  obtain r parser where parse: "pr_parse P ctx (cs_parser st) = (r, parser)" by fastforce
  have good: "good (cs_parser st)" using st(1) by (simp add: st_ok_def)
  then have parser: "good parser" "pr_column_count P parser = pr_column_count P (cs_parser st)"
    using parse_keeps [of "cs_parser st" ctx] parse by simp_all
  let ?st = "st\<lparr>cs_parser := parser\<rparr>"
  have st': "ok ?st" "step base t0 ?st" "rows_added A entries st ?st"
    using st parser by (auto simp: st_ok_def in_step_def rows_added_def)
  show ?thesis
  proof (cases r)
    case (Ok evs)
    have "\<forall>ev \<in> set evs. fits kind (cn_num_columns (cs_connector ?st)) ev \<and> (ev = PeAdvanceTime \<or> Some off \<noteq> None)"
      using parsed_fits [OF good, of ctx evs] parse Ok st(1) by (auto simp: st_ok_def)
    from data_step [OF env st'(1,2) this, of True] obtain st1 where st1:
      "on_parsed_data E A True (Some off) evs ?st = Ok st1" "ok st1" "step base t0 st1" "same_mode ?st st1"
      "PeAdvanceTime \<in> set evs \<or> rows_added A entries ?st st1" by blast
    define st2 where "st2 = (if cs_snapshot_writer st1 \<noteq> None then st1\<lparr>cs_connector := (cs_connector st1)\<lparr>cn_current_frontier :=
      advance_offset (fst off) (snd off) (cn_current_frontier (cs_connector st1))\<rparr>\<rparr> else st1)"
    have "on_new_data E A P ctx off st = Ok st2"
      using parse Ok st1(1,4) st(3) by (auto simp: on_new_data_def st2_def Let_def same_mode_def)
    moreover have "ok st2" "step base t0 st2" "cs_backfilling_finished st2" "cs_commit_allowed st2 = cs_commit_allowed st"
      using st1(2,3,4) st(3) by (auto simp: st2_def st_ok_def in_step_def same_mode_def)
    moreover have "PeAdvanceTime \<notin> set evs \<longrightarrow> rows_added A entries st st2"
      using st1(5) by (auto simp: st2_def rows_added_def)
    ultimately show ?thesis using parse Ok by auto
  next
    case (Err e)
    then obtain l where "on_new_data E A P ctx off st = Ok (?st\<lparr>cs_log := l\<rparr>)"
      using log_parse_total [OF st'(1), of e] parse by (auto simp: on_new_data_def Let_def)
    moreover have "ok (?st\<lparr>cs_log := l\<rparr>)" "step base t0 (?st\<lparr>cs_log := l\<rparr>)" "rows_added A entries st (?st\<lparr>cs_log := l\<rparr>)"
      using st' by (simp_all add: st_ok_def in_step_def rows_added_def)
    ultimately show ?thesis using st(3) by auto
  next
    case Panic
    then show ?thesis using safe good parse by (auto simp: parse_safe_def)
  qed
qed

lemma handle_step:
  assumes env: "env_ok E" and inv: "inv whole (entry # rest) st" and entry: "entry \<noteq> Realtime Finished"
  shows "\<exists>st'. handle_input_entry E A P entry st = Ok st' \<and> inv whole rest st'"
proof -
  obtain past where past: "replay_changes whole = past @ replay_changes (entry # rest)" "step (at_start past) 0 st"
    "\<not> cs_backfilling_finished st \<longrightarrow> entries (cs_session st) = at_start past \<and> ad_time A (cs_session st) = 0
      \<and> cs_snapshot_writer st \<in> {None, Some []}"
    and ok: "ok st" and prot: "protocol kind (parse_safe P good) (cs_backfilling_finished st) (entry # rest)"
    using inv by (auto simp: run_inv_def)
  show ?thesis
  proof (cases entry)
    case (Snapshot e)
    then obtain c where c: "change_of e = Some c" "supports c" "\<not> cs_backfilling_finished st"
      and rest: "protocol kind (parse_safe P good) False rest"
      using prot supports_kind by (auto simp: row_for_def split: option.splits)
    from push_row [OF ok c(2), of E] obtain s' where s':
      "push_change E A c st = Ok (st\<lparr>cs_session := s', cs_tick := cs_tick st + 1\<rparr>)"
      "entries s' = entries (cs_session st) @ [(c, ad_time A (cs_session st))]" "ad_time A s' = ad_time A (cs_session st)"
      "ok (st\<lparr>cs_session := s', cs_tick := cs_tick st + 1\<rparr>)" by blast
    have "handle_input_entry E A P entry st = push_change E A c st"
      using Snapshot c(1,3) by (cases e) (auto simp: handle_input_entry_def on_insert_def on_remove_def on_upsert_def)
    moreover have "inv whole rest (st\<lparr>cs_session := s', cs_tick := cs_tick st + 1\<rparr>)"
      unfolding run_inv_def using s' past c rest Snapshot
      by (auto simp: in_step_def intro!: exI [of _ "past @ [c]"])
    ultimately show ?thesis using s'(1) by auto
  next
    case (RewindFinishSentinel f)
    define st1 where "st1 = st\<lparr>cs_backfilling_finished := True,
        cs_connector := (cs_connector st)\<lparr>cn_current_frontier := f\<rparr>\<rparr>"
    have bf: "\<not> cs_backfilling_finished st" and rest: "protocol kind (parse_safe P good) True rest"
      using prot RewindFinishSentinel by simp_all
    have "ok st1" "step (at_start past) 0 st1" using ok past(2) by (simp_all add: st1_def st_ok_def in_step_def)
    from commit_step [OF env this] obtain st' where st': "on_parsed_data E A True None [PeAdvanceTime] st1 = Ok st'"
      "ok st'" "step (at_start past) 0 st'" "same_mode st1 st'" by blast
    have "handle_input_entry E A P entry st = Ok st'"
      using st'(1) bf RewindFinishSentinel by (simp add: handle_input_entry_def st1_def)
    moreover have "inv whole rest st'"
      unfolding run_inv_def using st'(2,3,4) rest past(1) RewindFinishSentinel by (auto simp: same_mode_def st1_def)
    ultimately show ?thesis by blast
  next
    case (Realtime r)
    then have bf: "cs_backfilling_finished st" and rest: "protocol kind (parse_safe P good) True rest"
      using prot by simp_all
    have inv': "inv whole rest st'" if "ok st'" "step (at_start past) 0 st'" "cs_backfilling_finished st'" for st'
      unfolding run_inv_def using that rest past(1) Realtime by auto
    show ?thesis
    proof (cases r)
      case Finished
      then show ?thesis using entry Realtime by simp
    next
      case (NewSource m)
      let ?st = "st\<lparr>cs_commit_allowed := False, cs_parser := pr_new_source P m (cs_parser st)\<rparr>"
      have "ok ?st" using ok new_source_keeps [of "cs_parser st" m] by (simp add: st_ok_def)
      then show ?thesis
        using inv' [of ?st] past(2) bf NewSource Realtime by (simp add: handle_input_entry_def in_step_def)
    next
      case (FinishedSource b)
      let ?st = "st\<lparr>cs_commit_allowed := b\<rparr>"
      have st: "ok ?st" "step (at_start past) 0 ?st" using ok past(2) by (simp_all add: st_ok_def in_step_def)
      show ?thesis
        using commit_step [OF env st] inv' [OF st] inv' bf FinishedSource Realtime
        by (auto simp: handle_input_entry_def Let_def same_mode_def simp del: on_parsed_data.simps)
    next
      case (Data ctx off)
      then have "parse_safe P good ctx" using prot Realtime by simp
      from new_data_step [OF env ok past(2) bf this, where off = off] show ?thesis
        using inv' Data Realtime unfolding handle_input_entry_def by fastforce
    qed
  qed
qed

lemma inv_done:
  assumes "inv whole [] st"
  shows "run_done entries wf whole (finish_monitor E st)"
  using assms by (auto simp: run_inv_def run_done_def st_ok_def in_step_def finish_monitor_def monitor_finish_def)

lemma inv_finished:
  assumes "inv whole (Realtime Finished # rest) st"
  shows "cs_backfilling_finished st" and "run_done entries wf whole (finish_monitor E (write_event (finish_event (cs_connector st)) st))"
proof -
  have "replay_changes rest = []" using assms no_replay_changes by (auto simp: run_inv_def)
  then show "run_done entries wf whole (finish_monitor E (write_event (finish_event (cs_connector st)) st))"
    using assms finish_time_later [of "cn_current_timestamp (cs_connector st)"]
    by (auto simp: run_inv_def run_done_def st_ok_def in_step_def finish_monitor_def monitor_finish_def
        finish_event_def timed_append ascending_append intro: order_trans)
qed (use assms in \<open>simp add: run_inv_def\<close>)

lemma loop_step:
  assumes env: "env_ok E"
  shows "inv whole (channel @ rest) st \<Longrightarrow> disconnected \<longrightarrow> rest = [] \<Longrightarrow>
    \<exists>cf channel' st'. poll_loop E A P start disconnected n channel st = Ok (cf, channel', st')
      \<and> (cf = Break \<longrightarrow> run_done entries wf whole st') \<and> (cf \<noteq> Break \<longrightarrow> inv whole (channel' @ rest) st')
      \<and> length channel' \<le> length channel \<and> (n + 1 \<noteq> BATCH_LIMIT \<longrightarrow> channel \<noteq> [] \<longrightarrow> cf = Break \<or> length channel' < length channel)
      \<and> (n + 1 \<noteq> BATCH_LIMIT \<longrightarrow> disconnected \<longrightarrow> channel = [] \<longrightarrow> cf = Break)"
proof (induction channel arbitrary: n st)
  case Nil
  then show ?case using inv_done [of whole st E] by auto
next
  case (Cons entry channel)
  show ?case
  proof (cases "n + 1 = BATCH_LIMIT \<or> entry = Realtime Finished")
    case True
    then show ?thesis using Cons.prems inv_finished [of whole "channel @ rest" st] by (auto simp: Let_def)
  next
    case False
    have "\<nexists>t f. entry = Snapshot (EvAdvanceTime t f)"
      using Cons.prems(1) by (auto simp: run_inv_def row_for_def)
    then have unfold: "poll_loop E A P start disconnected n (entry # channel) st
        = and_then (handle_input_entry E A P entry st) (poll_loop E A P start disconnected (n + 1) channel)"
      using False loop_entry by blast
    obtain st1 where "handle_input_entry E A P entry st = Ok st1" "inv whole (channel @ rest) st1"
      using handle_step [OF env, of whole entry "channel @ rest" st] Cons.prems(1) False by auto
    then show ?thesis unfolding unfold using Cons.IH [of st1 "n + 1"] Cons.prems(2) by fastforce
  qed
qed

lemma auto_commit_step:
  assumes env: "env_ok E" and inv: "inv whole rest st"
  shows "\<exists>st'. auto_commit E A start st = Ok st' \<and> inv whole rest st'"
proof -
  obtain past where past: "replay_changes whole = past @ replay_changes rest" "step (at_start past) 0 st"
    "\<not> cs_backfilling_finished st \<longrightarrow> entries (cs_session st) = at_start past \<and> ad_time A (cs_session st) = 0
      \<and> cs_snapshot_writer st \<in> {None, Some []}"
    and ok: "ok st" and prot: "protocol kind (parse_safe P good) (cs_backfilling_finished st) rest"
    using inv by (auto simp: run_inv_def)
  show ?thesis
  proof (cases "\<exists>t. cs_next_commit_at st = Some t \<and> t \<le> start")
    case True
    then obtain t where t: "cs_next_commit_at st = Some t" "t \<le> start" by blast
    then obtain d where d: "cn_commit_duration (cs_connector st) = Some d" using ok by (auto simp: st_ok_def)
    have "\<exists>st1. (if cs_backfilling_finished st \<and> cs_commit_allowed st then on_parsed_data E A True None [PeAdvanceTime] st else Ok st) = Ok st1
        \<and> ok st1 \<and> step (at_start past) 0 st1 \<and> same_mode st st1 \<and> (\<not> cs_backfilling_finished st \<longrightarrow> st1 = st)"
      using commit_step [OF env ok past(2)] ok past(2) by auto
    then obtain st1 where st1: "(if cs_backfilling_finished st \<and> cs_commit_allowed st then on_parsed_data E A True None [PeAdvanceTime] st else Ok st) = Ok st1"
      "ok st1" "step (at_start past) 0 st1" "same_mode st st1" "\<not> cs_backfilling_finished st \<longrightarrow> st1 = st" by blast
    let ?st = "st1\<lparr>cs_next_commit_at := Some (t + d)\<rparr>"
    have "cn_commit_duration (cs_connector st1) = Some d" using d st1(4) by (simp add: same_mode_def)
    then have "auto_commit E A start st = Ok ?st"
      using t st1(1) by (simp add: auto_commit_def del: on_parsed_data.simps)
    moreover have "inv whole rest ?st"
      unfolding run_inv_def using past prot st1(2,3,4,5) d
      by (auto simp: st_ok_def in_step_def same_mode_def)
    ultimately show ?thesis by blast
  next
    case False
    then show ?thesis using inv by (auto simp: auto_commit_def split: option.splits)
  qed
qed

lemma poll_step:
  assumes env: "env_ok E" and inv: "inv whole (channel @ rest) st" and rest: "disconnected \<longrightarrow> rest = []"
  shows "\<exists>cf channel' st'. poll E A P mode behind start disconnected channel st = Ok (cf, channel', st')
    \<and> (cf = Break \<longrightarrow> run_done entries wf whole st') \<and> (cf \<noteq> Break \<longrightarrow> inv whole (channel' @ rest) st')
    \<and> length channel' \<le> length channel
    \<and> (mode \<noteq> SpeedrunReplay \<longrightarrow> disconnected \<longrightarrow> cf = Break \<or> length channel' < length channel)"
proof (cases "mode = SpeedrunReplay \<and> \<not> cs_backfilling_finished st \<and> behind (ad_time A (cs_session st))")
  case True
  then show ?thesis using inv by (auto simp: poll_def)
next
  case False
  obtain st1 where st1: "auto_commit E A start st = Ok st1" "inv whole (channel @ rest) st1"
    using auto_commit_step [OF env inv] by blast
  from loop_step [OF env st1(2) rest, of start 0] show ?thesis
    using False st1(1) by (auto simp: poll_def BATCH_LIMIT_def)
qed

end

end
