(* ===== verification/ConnectorRecords.thy ===== *)
theory ConnectorRecords
  imports ConnectorLaws
begin

text \<open>
  The record of a connector: what every step adds to it, that it begins with a time, and that a connector which
  records does so to its end.
\<close>

section \<open>Additions to the record\<close>

text \<open>What a step adds to the record.\<close>

definition adds :: "event list \<Rightarrow> ('s, 'p) connector_state \<Rightarrow> ('s, 'p) connector_state \<Rightarrow> bool" where
  "adds es st st' \<longleftrightarrow> cs_snapshot_writer st' = map_option (\<lambda>w. w @ es) (cs_snapshot_writer st)
     \<and> cs_backfilling_finished st' = cs_backfilling_finished st"

lemma adds_trans: "adds es st st' \<Longrightarrow> adds fs st' st'' \<Longrightarrow> adds (es @ fs) st st''"
  by (simp add: adds_def option.map_comp comp_def)

lemma adds_refl: "adds [] st st"
  by (simp add: adds_def option.map_ident)

lemma pushed_adds: "push_change E A c st = Ok st' \<Longrightarrow> adds [] st st'"
  by (auto simp: push_change_def adds_def result_simps option.map_ident)

lemma logged_adds: "log_parse_error e st = Ok st' \<Longrightarrow> adds [] st st'"
  by (auto simp: log_parse_error_def adds_def result_simps option.map_ident split: if_splits)

lemma advanced_adds:
  assumes "on_advance_time E A monitored st = Ok st'" shows "\<exists>t f. adds [EvAdvanceTime t f] st st'"
proof -
  obtain t st1 st2 where st2: "advance_time E A st = Ok (t, st1)" "commit_monitor E monitored st1 = Ok st2"
    "st' = write_event (EvAdvanceTime t (cn_current_frontier (cs_connector st2))) st2"
    using assms by (auto simp: on_advance_time_def result_simps)
  then have "adds [] st st1" "adds [] st1 st2"
    by (auto simp: advance_time_def commit_monitor_def adds_def option.map_ident Let_def result_simps split: if_splits)
  then show ?thesis using st2(3) by (auto simp: write_event_def adds_def option.map_ident)
qed

lemma row_adds: "record_row monitored k entry st = Ok st' \<Longrightarrow> \<exists>es. adds es st st'"
  by (cases "snapshot_event k entry")
    (auto simp: record_row_def write_event_def adds_def Let_def option.map_ident split: if_splits)

lemma event_adds:
  assumes "on_parsed_event E A monitored k entry st = Ok st'" shows "\<exists>es. adds es st st'"
proof (cases entry)
  case AdvanceTime
  then show ?thesis using assms advanced_adds [of E A monitored st st'] by (auto simp: on_parsed_event_def)
qed (use assms in \<open>auto simp: on_parsed_event_def on_insert_def on_upsert_def on_remove_def result_simps
       intro: adds_refl pushed_adds split: if_splits\<close>)

lemma entry_adds:
  assumes "on_parsed_entry E A monitored offset entry st = Ok st'" shows "\<exists>es. adds es st st'"
proof (cases "remove_errors (error_handling_logic (cs_connector st)) entry")
  case (Ok r)
  obtain entry' rows where r: "r = (entry', rows)" by fastforce
  let ?st = "st\<lparr>cs_log := cs_log st @ rows\<rparr>"
  obtain k st1 where k: "(case k of Some k \<Rightarrow> record_row monitored k entry' ?st | None \<Rightarrow> Ok ?st) = Ok st1"
    "on_parsed_event E A monitored k entry' st1 = Ok st'"
    using assms Ok r by (auto simp: on_parsed_entry_def Let_def result_simps)
  have "adds [] st ?st" by (simp add: adds_def option.map_ident)
  moreover have "\<exists>es. adds es ?st st1" using k(1) row_adds by (cases k) (auto intro: adds_refl)
  ultimately show ?thesis using event_adds [OF k(2)] adds_trans by blast
qed (use assms logged_adds in \<open>auto simp: on_parsed_entry_def\<close>)

lemma data_adds: "on_parsed_data E A monitored offset evs st = Ok st' \<Longrightarrow> \<exists>es. adds es st st'"
proof (induction evs arbitrary: st)
  case Nil
  then show ?case using adds_refl by auto
next
  case (Cons ev evs)
  then obtain st1 es where "adds es st st1" "on_parsed_data E A monitored offset evs st1 = Ok st'"
    by (auto simp: result_simps dest: entry_adds)
  then show ?case using Cons.IH adds_trans by blast
qed

lemma commit_adds: "on_parsed_data E A monitored offset [PeAdvanceTime] st = Ok st' \<Longrightarrow> \<exists>t f. adds [EvAdvanceTime t f] st st'"
  using advanced_adds [of E A monitored "st\<lparr>cs_log := cs_log st @ []\<rparr>" st']
  by (auto simp: on_parsed_entry_def remove_errors_def on_parsed_event_def parsed_event_key_def result_simps Let_def adds_def)

section \<open>The first event\<close>

text \<open>A connector records to its end or not at all; the record begins with a time, and is not empty behind the
  sentinel.\<close>

definition led :: "bool \<Rightarrow> ('s, 'p) connector_state \<Rightarrow> bool" where
  "led recorded st = (case cs_snapshot_writer st of
       None \<Rightarrow> \<not> recorded
     | Some [] \<Rightarrow> recorded \<and> \<not> cs_backfilling_finished st
     | Some (e # _) \<Rightarrow> recorded \<and> (case e of EvAdvanceTime _ _ \<Rightarrow> True | _ \<Rightarrow> False))"

lemma led_same: "led recorded st \<Longrightarrow> cs_snapshot_writer st' = cs_snapshot_writer st \<Longrightarrow>
    cs_backfilling_finished st' = cs_backfilling_finished st \<Longrightarrow> led recorded st'"
  by (auto simp: led_def split: option.splits list.splits)

lemma led_adds: "led recorded st \<Longrightarrow> adds es st st' \<Longrightarrow> cs_backfilling_finished st \<or> cs_snapshot_writer st = None \<or> es = [] \<Longrightarrow> led recorded st'"
  by (auto simp: led_def adds_def split: option.splits list.splits)

lemma led_advance: "led recorded st \<Longrightarrow> adds [EvAdvanceTime t f] st st' \<Longrightarrow> led recorded st'"
  by (auto simp: led_def adds_def split: option.splits list.splits)

lemma led_data:
  assumes "on_new_data E A P ctx off st = Ok st'" and "led recorded st" shows "led recorded st'"
proof (cases "pr_parse P ctx (cs_parser st)")
  case (Pair r parser)
  let ?st = "st\<lparr>cs_parser := parser\<rparr>"
  have led: "led recorded ?st" using led_same [OF assms(2), of ?st] by simp
  show ?thesis
  proof (cases r)
    case (Ok evs)
    then obtain evs' st1 where st1: "on_parsed_data E A True (Some off) evs' ?st = Ok st1"
      "cs_snapshot_writer st1 \<noteq> None \<longrightarrow> cs_backfilling_finished st1"
      "cs_snapshot_writer st' = cs_snapshot_writer st1" "cs_backfilling_finished st' = cs_backfilling_finished st1"
      using assms(1) Pair by (auto simp: on_new_data_def Let_def result_simps split: if_splits)
    obtain es where es: "adds es ?st st1" using data_adds [OF st1(1)] by blast
    have "led recorded st1" using led_adds [OF led es] st1(2) es by (auto simp: adds_def)
    then show ?thesis using led_same st1(3,4) by blast
  next
    case (Err e)
    then show ?thesis using assms(1) Pair logged_adds [of e ?st st'] led_adds [OF led] by (auto simp: on_new_data_def Let_def)
  qed (use assms(1) Pair in \<open>simp add: on_new_data_def\<close>)
qed

lemma led_handled:
  assumes "handle_input_entry E A P entry st = Ok st'" and "led recorded st" shows "led recorded st'"
proof (cases entry)
  case (Snapshot e)
  then obtain c where "push_change E A c st = Ok st'"
    using assms(1) by (auto simp: handle_input_entry_def on_insert_def on_upsert_def on_remove_def split: if_splits event.splits)
  then show ?thesis using led_adds [OF assms(2) pushed_adds] by blast
next
  case (RewindFinishSentinel f)
  let ?st = "st\<lparr>cs_backfilling_finished := True, cs_connector := (cs_connector st)\<lparr>cn_current_frontier := f\<rparr>\<rparr>"
  obtain t f' where "adds [EvAdvanceTime t f'] ?st st'"
    using assms(1) RewindFinishSentinel commit_adds [of E A True None ?st st']
    by (auto simp: handle_input_entry_def split: if_splits simp del: on_parsed_data.simps)
  then show ?thesis using assms(2) by (auto simp: led_def adds_def split: option.splits list.splits)
next
  case (Realtime r)
  show ?thesis
  proof (cases r)
    case (FinishedSource b)
    have "led recorded (st\<lparr>cs_commit_allowed := b\<rparr>)" using led_same [OF assms(2), of "st\<lparr>cs_commit_allowed := b\<rparr>"] by simp
    then show ?thesis
      using assms(1) Realtime FinishedSource led_advance commit_adds [of E A True None "st\<lparr>cs_commit_allowed := b\<rparr>" st']
      by (auto simp: handle_input_entry_def Let_def simp del: on_parsed_data.simps split: if_splits)
  next
    case (Data ctx off)
    then show ?thesis using assms Realtime led_data by (simp add: handle_input_entry_def)
  qed (use assms Realtime in \<open>auto simp: handle_input_entry_def intro: led_same\<close>)
qed

lemma led_finish: "led recorded st \<Longrightarrow> led recorded (write_event (finish_event c) st)" "led recorded st \<Longrightarrow> led recorded (finish_monitor E st)"
  by (auto simp: led_def write_event_def finish_event_def finish_monitor_def split: option.splits list.splits)

lemma led_replayed: "replay_time A t st = Ok st' \<Longrightarrow> led recorded st \<Longrightarrow> led recorded st'"
  by (erule led_same) (auto simp: replay_time_def result_simps)

lemma led_loop: "poll_loop E A P start disconnected n channel st = Ok (cf, channel', st') \<Longrightarrow> led recorded st \<Longrightarrow> led recorded st'"
proof (induction channel arbitrary: n st)
  case Nil
  then show ?case using led_finish by (auto split: if_splits)
next
  case (Cons e channel)
  consider "n + 1 = BATCH_LIMIT" | "n + 1 \<noteq> BATCH_LIMIT" "e = Realtime Finished"
    | t f where "n + 1 \<noteq> BATCH_LIMIT" "e = Snapshot (EvAdvanceTime t f)"
    | "n + 1 \<noteq> BATCH_LIMIT" "e \<noteq> Realtime Finished" "\<nexists>t f. e = Snapshot (EvAdvanceTime t f)" by blast
  then show ?case
  proof cases
    case 2
    have "led recorded (write_event (finish_event (cs_connector st)) st)" using led_finish(1) Cons.prems(2) .
    then show ?thesis using 2 Cons led_finish(2) by (auto simp: Let_def split: if_splits)
  next
    case 3
    then show ?thesis using Cons.prems led_replayed by (auto simp: result_simps)
  next
    case 4
    then obtain st1 where "handle_input_entry E A P e st = Ok st1"
      "poll_loop E A P start disconnected (n + 1) channel st1 = Ok (cf, channel', st')"
      using Cons.prems(1) unfolding loop_entry [OF 4] by (auto simp: result_simps)
    then show ?thesis using Cons.IH led_handled Cons.prems(2) by blast
  qed (use Cons.prems in simp)
qed

lemma led_polled:
  assumes "poll E A P mode behind start disconnected channel st = Ok (cf, channel', st')" and "led recorded st" shows "led recorded st'"
proof (cases "mode = SpeedrunReplay \<and> \<not> cs_backfilling_finished st \<and> behind (ad_time A (cs_session st))")
  case False
  then obtain st1 where st1: "auto_commit E A start st = Ok st1" "poll_loop E A P start disconnected 0 channel st1 = Ok (cf, channel', st')"
    using assms(1) by (auto simp: poll_def result_simps)
  have "led recorded st1"
  proof (cases "\<exists>t. cs_next_commit_at st = Some t \<and> t \<le> start")
    case True
    then obtain st2 next_commit where st2: "(if cs_backfilling_finished st \<and> cs_commit_allowed st
        then on_parsed_data E A True None [PeAdvanceTime] st else Ok st) = Ok st2" "st1 = st2\<lparr>cs_next_commit_at := next_commit\<rparr>"
      using st1(1) by (auto simp: auto_commit_def result_simps simp del: on_parsed_data.simps)
    then have "led recorded st2" using assms(2) commit_adds led_advance by (metis result.inject(1))
    then show ?thesis using led_same [of recorded st2 st1] st2(2) by simp
  qed (use st1(1) assms(2) in \<open>auto simp: auto_commit_def split: option.splits if_splits\<close>)
  then show ?thesis using led_loop [OF st1(2)] by blast
qed (use assms in \<open>simp add: poll_def\<close>)

end
