(* ===== verification/ConnectorRuns.thy ===== *)
theory ConnectorRuns
  imports ConnectorRecords
begin

text \<open>
  Runs of a connector: turns of the poller while the input thread sends, on the two kinds of session with the
  parsers, the end of such a run, and a restart from what it recorded.
\<close>

section \<open>Turns of the poller\<close>

text \<open>A turn is the time at which the poller is called, what has arrived in the channel since the turn before, and
  whether the sender is gone.\<close>

type_synonym turn = "nat \<times> entry list \<times> bool"

definition arrivals :: "turn list \<Rightarrow> entry list" where
  "arrivals turns = concat (map (fst \<circ> snd) turns)"

fun orderly :: "turn list \<Rightarrow> bool" where
  "orderly [] = True"
| "orderly ((start, arrived, disconnected) # turns) = ((disconnected \<longrightarrow> arrivals turns = []) \<and> orderly turns)"

definition last_turns :: "turn list \<Rightarrow> nat" where
  "last_turns turns = length (filter (\<lambda>(start, arrived, disconnected). disconnected) turns)"

fun polls ::
    "surroundings \<Rightarrow> 's adaptor \<Rightarrow> 'p parser_impl \<Rightarrow> persistence_mode \<Rightarrow> (u64 \<Rightarrow> bool) \<Rightarrow> turn list \<Rightarrow> entry list
      \<Rightarrow> ('s, 'p) connector_state \<Rightarrow> (data_error, control_flow \<times> entry list \<times> ('s, 'p) connector_state) result" where
  "polls E A P mode behind [] channel st = Ok (Continue None, channel, st)"
| "polls E A P mode behind ((start, arrived, disconnected) # turns) channel st =
     and_then (poll E A P mode behind start disconnected (channel @ arrived) st) (\<lambda>(cf, channel, st).
       if cf = Break then Ok (Break, channel, st) else polls E A P mode behind turns channel st)"

text \<open>A run from its start.\<close>

definition connector_run ::
    "surroundings \<Rightarrow> 's adaptor \<Rightarrow> 'p parser_impl \<Rightarrow> persistence_mode \<Rightarrow> (u64 \<Rightarrow> bool) \<Rightarrow> turn list \<Rightarrow> nat option \<Rightarrow> bool
      \<Rightarrow> error_logger \<Rightarrow> bool \<Rightarrow> nat \<Rightarrow> 'p \<Rightarrow> 's
      \<Rightarrow> (data_error, control_flow \<times> entry list \<times> ('s, 'p) connector_state) result" where
  "connector_run E A P mode behind turns commit_duration skip logger recorded now parser session =
     (case connector_start P (connector_new commit_duration (pr_column_count P parser) skip logger) recorded now parser session of
        Ok st \<Rightarrow> polls E A P mode behind turns [] st
      | _ \<Rightarrow> Panic)"

lemma arrivals_simps [simp]:
  "arrivals [] = []" "arrivals ((start, arrived, disconnected) # turns) = arrived @ arrivals turns"
  "last_turns [] = 0"
  "last_turns ((start, arrived, disconnected) # turns) = (if disconnected then Suc (last_turns turns) else last_turns turns)"
  by (simp_all add: arrivals_def last_turns_def)

text \<open>Data whose parsing neither panics nor commits.\<close>

definition row_entry :: "'p parser_impl \<Rightarrow> ('p \<Rightarrow> bool) \<Rightarrow> entry \<Rightarrow> bool" where
  "row_entry P good e = (case e of
       Realtime (Data ctx off) \<Rightarrow> parse_safe P good ctx
         \<and> (\<forall>p evs. good p \<longrightarrow> fst (pr_parse P ctx p) = Ok evs \<longrightarrow> PeAdvanceTime \<notin> set evs)
     | _ \<Rightarrow> False)"

context connector_parts
begin

lemma polls_step:
  assumes env: "env_ok E"
  shows "inv whole (channel @ arrivals turns) st \<Longrightarrow> orderly turns \<Longrightarrow>
    \<exists>cf channel' st'. polls E A P mode behind turns channel st = Ok (cf, channel', st')
      \<and> (cf = Break \<longrightarrow> run_done entries wf whole st') \<and> (cf \<noteq> Break \<longrightarrow> inv whole channel' st')
      \<and> (mode \<noteq> SpeedrunReplay \<longrightarrow> length (channel @ arrivals turns) < last_turns turns \<longrightarrow> cf = Break)"
proof (induction turns arbitrary: channel st)
  case (Cons turn turns)
  obtain start arrived disconnected where turn: "turn = (start, arrived, disconnected)" by (cases turn) auto
  obtain cf ch1 st1 where poll: "poll E A P mode behind start disconnected (channel @ arrived) st = Ok (cf, ch1, st1)"
    "cf = Break \<longrightarrow> run_done entries wf whole st1" "cf \<noteq> Break \<longrightarrow> inv whole (ch1 @ arrivals turns) st1"
    "length ch1 \<le> length (channel @ arrived)"
    "mode \<noteq> SpeedrunReplay \<longrightarrow> disconnected \<longrightarrow> cf = Break \<or> length ch1 < length (channel @ arrived)"
    using poll_step [OF env, of whole "channel @ arrived" "arrivals turns" st disconnected mode behind start] Cons.prems turn by auto
  show ?case
  proof (cases "cf = Break")
    case True
    then show ?thesis using poll turn by simp
  next
    case False
    then obtain cf' ch' st' where rest: "polls E A P mode behind turns ch1 st1 = Ok (cf', ch', st')"
      "cf' = Break \<longrightarrow> run_done entries wf whole st'" "cf' \<noteq> Break \<longrightarrow> inv whole ch' st'"
      "mode \<noteq> SpeedrunReplay \<longrightarrow> length (ch1 @ arrivals turns) < last_turns turns \<longrightarrow> cf' = Break"
      using Cons.IH [of ch1 st1] poll(3) Cons.prems(2) turn by auto
    have "length (ch1 @ arrivals turns) < last_turns turns"
      if "mode \<noteq> SpeedrunReplay" "length (channel @ arrivals (turn # turns)) < last_turns (turn # turns)"
      using that poll(4,5) False turn by (auto split: if_splits)
    then show ?thesis using rest poll(1) False turn by auto
  qed
qed simp

text \<open>What a run starts with.\<close>

lemma start_inv:
  assumes "good parser" and "wf s0" and "entries s0 = []" and "ad_time A s0 = 0" and "collects logger"
    and "protocol kind (parse_safe P good) False whole"
  shows "\<exists>st. connector_start P (connector_new commit_duration (pr_column_count P parser) skip logger) recorded now parser s0 = Ok st
    \<and> inv whole whole st \<and> (cs_snapshot_writer st = (if recorded then Some [] else None))"
  using assms by (auto simp: connector_start_def connector_new_def run_inv_def st_ok_def in_step_def)

lemma run_step:
  assumes "env_ok E" and "good parser" and "wf s0" and "entries s0 = []" and "ad_time A s0 = 0" and "collects logger"
    and "protocol kind (parse_safe P good) False (arrivals turns)" and "orderly turns"
  shows "\<exists>cf channel st. connector_run E A P mode behind turns commit_duration skip logger recorded now parser s0 = Ok (cf, channel, st)
    \<and> (cf = Break \<longrightarrow> run_done entries wf (arrivals turns) st) \<and> (cf \<noteq> Break \<longrightarrow> inv (arrivals turns) channel st)
    \<and> (mode \<noteq> SpeedrunReplay \<longrightarrow> length (arrivals turns) < last_turns turns \<longrightarrow> cf = Break)"
proof -
  obtain st where st: "connector_start P (connector_new commit_duration (pr_column_count P parser) skip logger) recorded now parser s0 = Ok st"
    "inv (arrivals turns) (arrivals turns) st"
    using start_inv [OF assms(2-7)] by blast
  show ?thesis
    using polls_step [OF assms(1), of "arrivals turns" "[]" turns st mode behind] st assms(8) by (simp add: connector_run_def)
qed

text \<open>The rows of a session and of a record, at any point of a run.\<close>

lemma run_records:
  assumes "cf = Break \<longrightarrow> run_done entries wf whole st" and "cf \<noteq> Break \<longrightarrow> inv whole channel st"
    and "cs_snapshot_writer st = Some w"
  shows "\<exists>past rest. replay_changes whole = past @ rest \<and> entries (cs_session st) = at_start past @ timed 0 w
    \<and> (w \<noteq> [] \<longrightarrow> rest = []) \<and> ascending 0 w \<and> (\<forall>u \<in> set (entries (cs_session st)). even (snd u)) \<and> wf (cs_session st)"
proof (cases "cf = Break")
  case True
  then show ?thesis
    using assms(1,3) by (intro exI [of _ "replay_changes whole"] exI [of _ "[]"]) (simp add: run_done_def)
next
  case False
  then have inv: "inv whole channel st" using assms(2) by blast
  then obtain past where past: "replay_changes whole = past @ replay_changes channel" "step (at_start past) 0 st"
    "\<not> cs_backfilling_finished st \<longrightarrow> cs_snapshot_writer st \<in> {None, Some []}"
    by (auto simp: run_inv_def)
  moreover have "w \<noteq> [] \<longrightarrow> replay_changes channel = []"
    using past(3) assms(3) inv no_replay_changes by (auto simp: run_inv_def)
  ultimately show ?thesis
    using inv assms(3) by (intro exI [of _ past] exI [of _ "replay_changes channel"]) (auto simp: run_inv_def st_ok_def in_step_def)
qed

lemma data_loop:
  assumes env: "env_ok E"
  shows "ok st \<Longrightarrow> step base t0 st \<Longrightarrow> cs_backfilling_finished st \<Longrightarrow> \<forall>e \<in> set channel. row_entry P good e \<Longrightarrow>
    \<exists>cf channel' st'. poll_loop E A P start disconnected n channel st = Ok (cf, channel', st') \<and> rows_added A entries st st'
      \<and> cs_commit_allowed st' = cs_commit_allowed st \<and> set channel' \<subseteq> set channel
      \<and> (cf \<noteq> Break \<longrightarrow> ok st' \<and> step base t0 st' \<and> cs_backfilling_finished st')"
proof (induction channel arbitrary: n st)
  case Nil
  then show ?case by (simp add: finish_monitor_def rows_added_def)
next
  case (Cons e channel)
  show ?case
  proof (cases "n + 1 = BATCH_LIMIT")
    case False
    obtain ctx off where e: "e = Realtime (Data ctx off)" "parse_safe P good ctx"
      "\<forall>p evs. good p \<longrightarrow> fst (pr_parse P ctx p) = Ok evs \<longrightarrow> PeAdvanceTime \<notin> set evs"
      using Cons.prems(4) by (auto simp: row_entry_def split: entry.splits read_result.splits)
    have "good (cs_parser st)" using Cons.prems(1) by (simp add: st_ok_def)
    then obtain st1 where st1: "on_new_data E A P ctx off st = Ok st1" "ok st1" "step base t0 st1" "cs_backfilling_finished st1"
      "cs_commit_allowed st1 = cs_commit_allowed st" "rows_added A entries st st1"
      using new_data_step [OF env Cons.prems(1-3) e(2), where off = off] e(3) by blast
    obtain cf channel' st' where "poll_loop E A P start disconnected (n + 1) channel st1 = Ok (cf, channel', st')"
      "rows_added A entries st1 st'" "cs_commit_allowed st' = cs_commit_allowed st1" "set channel' \<subseteq> set channel"
      "cf \<noteq> Break \<longrightarrow> ok st' \<and> step base t0 st' \<and> cs_backfilling_finished st'"
      using Cons.IH [OF st1(2-4), of "n + 1"] Cons.prems(4) by auto
    then show ?thesis
      using False e(1) st1 by (auto simp: handle_input_entry_def intro: rows_added_trans)
  qed (use Cons.prems in simp)
qed

lemma data_polls:
  assumes env: "env_ok E"
  shows "ok st \<Longrightarrow> step base t0 st \<Longrightarrow> cs_backfilling_finished st \<Longrightarrow> \<not> cs_commit_allowed st
    \<Longrightarrow> \<forall>e \<in> set (channel @ arrivals turns). row_entry P good e \<Longrightarrow>
    \<exists>cf channel' st'. polls E A P mode behind turns channel st = Ok (cf, channel', st') \<and> rows_added A entries st st'"
proof (induction turns arbitrary: channel st)
  case (Cons turn turns)
  obtain start arrived disconnected where turn: "turn = (start, arrived, disconnected)" by (cases turn) auto
  obtain st1 where st1: "auto_commit E A start st = Ok st1" "ok st1" "step base t0 st1" "cs_backfilling_finished st1"
    "\<not> cs_commit_allowed st1" "rows_added A entries st st1"
  proof (cases "\<exists>t. cs_next_commit_at st = Some t \<and> t \<le> start")
    case True
    then obtain t where t: "cs_next_commit_at st = Some t" "t \<le> start" by blast
    then obtain d where "cn_commit_duration (cs_connector st) = Some d" using Cons.prems(1) by (auto simp: st_ok_def)
    then show thesis
      using Cons.prems t by (intro that [of "st\<lparr>cs_next_commit_at := Some (t + d)\<rparr>"])
        (auto simp: auto_commit_def st_ok_def in_step_def rows_added_def)
  next
    case False
    then show thesis using Cons.prems by (intro that [of st]) (auto simp: auto_commit_def split: option.split)
  qed
  obtain cf channel1 st2 where loop: "poll_loop E A P start disconnected 0 (channel @ arrived) st1 = Ok (cf, channel1, st2)"
    "rows_added A entries st1 st2" "cs_commit_allowed st2 = cs_commit_allowed st1" "set channel1 \<subseteq> set (channel @ arrived)"
    "cf \<noteq> Break \<longrightarrow> ok st2 \<and> step base t0 st2 \<and> cs_backfilling_finished st2"
    using data_loop [OF env st1(2-4), of "channel @ arrived" start disconnected 0] Cons.prems(5) turn by auto
  have poll: "poll E A P mode behind start disconnected (channel @ arrived) st = Ok (cf, channel1, st2)"
    using st1(1) loop(1) Cons.prems(3) by (simp add: poll_def)
  have rows: "rows_added A entries st st2" using rows_added_trans [OF st1(6) loop(2)] .
  show ?case
  proof (cases "cf = Break")
    case True
    then show ?thesis using poll rows turn by simp
  next
    case False
    have "\<forall>e \<in> set (channel1 @ arrivals turns). row_entry P good e" using loop(4) Cons.prems(5) turn by auto
    with False obtain cf' channel' st' where "polls E A P mode behind turns channel1 st2 = Ok (cf', channel', st')" "rows_added A entries st2 st'"
      using Cons.IH [of st2 channel1] loop(3,5) st1(5) by auto
    then show ?thesis using False poll turn rows_added_trans [OF rows] by auto
  qed
qed simp

end

section \<open>The parsers and the sessions\<close>

context event_parser
begin

lemma parser_of_kind: "event_parser parse new_source session columns (\<lambda>p. good p \<and> session p = kind)"
  using parse_fits parse_keeps new_source_keeps by unfold_locales auto

end

lemma log_supported:
  "u \<in> set (native_log s) \<Longrightarrow> \<not> is_upsert (fst u)" "u \<in> set (upsert_log s') \<Longrightarrow> is_upsert (fst u)"
  by (auto simp: native_log_def upsert_log_def split: if_splits)

lemma native_parts:
  assumes "event_parser (pr_parse P) (pr_new_source P) session (pr_column_count P) good" and "\<And>p. good p \<Longrightarrow> session p = NativeSession"
  shows "connector_parts native_adaptor native_log native_wf (\<lambda>c. \<not> is_upsert c) P session good NativeSession"
  unfolding connector_parts_def connector_parts_axioms_def
  using assms native.input_adaptor_axioms log_supported(1) by (simp add: native_adaptor_def)

lemma upsert_parts:
  assumes "event_parser (pr_parse P) (pr_new_source P) session (pr_column_count P) good" and "\<And>p. good p \<Longrightarrow> session p = UpsertSession"
  shows "connector_parts upsert_adaptor upsert_log upsert_wf is_upsert P session good UpsertSession"
  unfolding connector_parts_def connector_parts_axioms_def
  using assms upsert.input_adaptor_axioms log_supported(2) by (simp add: upsert_adaptor_def)










interpretation native_json: connector_parts native_adaptor native_log native_wf "\<lambda>c. \<not> is_upsert c" "json_lines_impl X"
  jp_session_type "\<lambda>p. True \<and> jp_session_type p = NativeSession" NativeSession for X
  by (rule native_parts) (simp_all add: json_lines_impl_def json_lines.parser_of_kind [simplified])

interpretation upsert_json: connector_parts upsert_adaptor upsert_log upsert_wf is_upsert "json_lines_impl X"
  jp_session_type "\<lambda>p. True \<and> jp_session_type p = UpsertSession" UpsertSession for X
  by (rule upsert_parts) (simp_all add: json_lines_impl_def json_lines.parser_of_kind [simplified])

interpretation upsert_mongo: connector_parts upsert_adaptor upsert_log upsert_wf is_upsert "debezium_impl X"
  debezium_session_type "\<lambda>p. True \<and> debezium_session_type p = UpsertSession" UpsertSession for X
  by (rule upsert_parts) (simp_all add: debezium_impl_def debezium.parser_of_kind [simplified])


interpretation native_transparent: connector_parts native_adaptor native_log native_wf "\<lambda>c. \<not> is_upsert c" "transparent_impl X"
  tp_session_type "\<lambda>p. True \<and> tp_session_type p = NativeSession" NativeSession for X
  by (rule native_parts) (simp_all add: transparent_impl_def transparent.parser_of_kind [simplified])

interpretation native_debezium: connector_parts native_adaptor native_log native_wf "\<lambda>c. \<not> is_upsert c" "debezium_impl X"
  debezium_session_type "\<lambda>p. True \<and> debezium_session_type p = NativeSession" NativeSession for X
  by (rule native_parts) (simp_all add: debezium_impl_def debezium.parser_of_kind [simplified])

interpretation upsert_identity: connector_parts upsert_adaptor upsert_log upsert_wf is_upsert "identity_impl X"
  ip_session_type "\<lambda>p. True \<and> ip_session_type p = UpsertSession" UpsertSession for X
  by (rule upsert_parts) (simp_all add: identity_impl_def identity.parser_of_kind [simplified])

interpretation upsert_transparent: connector_parts upsert_adaptor upsert_log upsert_wf is_upsert "transparent_impl X"
  tp_session_type "\<lambda>p. True \<and> tp_session_type p = UpsertSession" UpsertSession for X
  by (rule upsert_parts) (simp_all add: transparent_impl_def transparent.parser_of_kind [simplified])

section \<open>The record of a run\<close>

lemma led_polls: "polls E A P mode behind turns channel st = Ok (cf, channel', st') \<Longrightarrow> led recorded st \<Longrightarrow> led recorded st'"
proof (induction turns arbitrary: channel st)
  case (Cons turn turns)
  then show ?case by (cases turn) (auto simp: result_simps dest: led_polled split: if_splits)
qed simp

lemma led_run:
  assumes "connector_run E A P mode behind turns commit_duration skip logger recorded now parser s0 = Ok (cf, channel, st)"
  shows "led recorded st"
proof -
  obtain st0 where "connector_start P (connector_new commit_duration (pr_column_count P parser) skip logger)
      recorded now parser s0 = Ok st0" "polls E A P mode behind turns [] st0 = Ok (cf, channel, st)"
    using assms by (auto simp: connector_run_def split: result.splits)
  moreover from this have "led recorded st0" by (auto simp: connector_start_def led_def split: if_splits)
  ultimately show ?thesis using led_polls by blast
qed

lemma run_begins:
  assumes "connector_run E A P mode behind turns commit_duration skip logger True now parser s0 = Ok (cf, channel, st)"
  shows "\<exists>w. cs_snapshot_writer st = Some w \<and> (w = [] \<or> (\<exists>t f w'. w = EvAdvanceTime t f # w'))"
  using led_run [OF assms] by (auto simp: led_def split: option.splits list.splits event.splits)

context connector_parts
begin

lemma recorded_run:
  assumes "env_ok E" and "good parser" and "wf s0" and "entries s0 = []" and "ad_time A s0 = 0" and "collects logger"
    and "protocol kind (parse_safe P good) False (arrivals turns)" and "orderly turns"
  shows "\<exists>cf channel st w past rest. connector_run E A P mode behind turns commit_duration skip logger True now parser s0 = Ok (cf, channel, st)
    \<and> cs_snapshot_writer st = Some w \<and> replay_changes (arrivals turns) = past @ rest
    \<and> entries (cs_session st) = at_start past @ timed 0 w
    \<and> (w \<noteq> [] \<longrightarrow> rest = []) \<and> ascending 0 w
    \<and> (\<forall>u \<in> set (entries (cs_session st)). even (snd u)) \<and> sorted (map snd (entries (cs_session st)))"
proof -
  obtain cf channel st where run: "connector_run E A P mode behind turns commit_duration skip logger True now parser s0 = Ok (cf, channel, st)"
    "cf = Break \<longrightarrow> run_done entries wf (arrivals turns) st" "cf \<noteq> Break \<longrightarrow> inv (arrivals turns) channel st"
    using run_step [OF assms, of mode behind commit_duration skip True now] by blast
  obtain w where w: "cs_snapshot_writer st = Some w" using run_begins [OF run(1)] by blast
  from run_records [OF run(2,3) w] obtain past rest where
    rows: "replay_changes (arrivals turns) = past @ rest" "entries (cs_session st) = at_start past @ timed 0 w"
    "w \<noteq> [] \<longrightarrow> rest = []" "ascending 0 w" "\<forall>u \<in> set (entries (cs_session st)). even (snd u)" "wf (cs_session st)"
    by (elim exE conjE) (rule that)
  then have "sorted (map snd (entries (cs_session st)))" using log_sorted by blast
  from run(1) w rows(1-5) this show ?thesis by (intro exI conjI)
qed

end

section \<open>A restart\<close>







lemma protocol_rows: "protocol kind readable_ctx b es \<Longrightarrow> c \<in> set (replay_changes es) \<Longrightarrow> is_upsert c = (kind = UpsertSession)"
  by (induction es arbitrary: b) (auto simp: row_for_def split: entry.splits option.splits)

context connector_parts
begin

text \<open>The rows to be replayed are rows of the kind of the session.\<close>

lemma replayed_kind:
  assumes "protocol kind readable_ctx False whole" and "replay_changes whole = List.map_filter change_of es"
    and "entries s = at_start cs @ timed 0 (flushed @ lost)" and "EvFinished \<notin> set (es @ flushed)"
    and "e \<in> set (sent_in Persisting (replayed thr (es @ flushed)))"
  shows "row_for kind e"
proof -
  have e: "e \<in> set es \<or> e \<in> set flushed" using assms(5) by (auto simp: sent_in_def replayed_def dest: set_takeWhileD)
  have "\<exists>c. change_of e = Some c" using e assms(4,5) by (cases e) (auto simp: sent_in_def)
  then obtain c where c: "change_of e = Some c" by blast
  have "is_upsert c = (kind = UpsertSession)"
  proof (cases "e \<in> set es")
    case True
    then have "c \<in> set (replay_changes whole)" using c assms(2) by (force simp: List.map_filter_def)
    then show ?thesis using protocol_rows assms(1) by blast
  next
    case False
    then have "c \<in> set (List.map_filter change_of (flushed @ lost))" using c e by (force simp: List.map_filter_def)
    then have "c \<in> fst ` set (timed 0 (flushed @ lost))" by (metis fst_timed list.set_map)
    then have "\<exists>u \<in> set (entries s). fst u = c" using assms(3) by auto
    then show ?thesis using entries_supported supports_kind by blast
  qed
  then show ?thesis using c by (simp add: row_for_def)
qed

end

section \<open>Going on\<close>



section \<open>Properties of a run\<close>

text \<open>A clock that goes back.\<close>

definition example_surroundings :: surroundings where
  "example_surroundings = \<lparr>en_ms = (\<lambda>i. 1000 - i), en_instant = (\<lambda>i. i), en_full = (\<lambda>_. False),
     en_key = (\<lambda>vs off. Ok (case vs of None \<Rightarrow> 1 | Some vs \<Rightarrow> of_nat (length vs)))\<rparr>"














text \<open>A run on one message, evaluated.\<close>

definition example_identity :: identity_parser where
  "example_identity = \<lparr>ip_value_fields = [''data''], ip_parse_utf8 = False, ip_metadata_column_value = VNone,
     ip_session_type = NativeSession\<rparr>"


lemmas run_defs =
  connector_run_def connector_start_def connector_new_def poll_def auto_commit_def BATCH_LIMIT_def handle_input_entry_def
  on_new_data_def on_parsed_entry_def on_parsed_event_def on_insert_def on_advance_time_def push_change_def record_row_def
  write_event_def remove_errors_def error_handling_logic_def advance_time_def parsed_event_key_def finish_event_def finish_monitor_def

lemmas part_defs =
  native_adaptor_def native_defs session_new_def session_push_def session_advance_to_def session_flush_def send_batch_def
  identity_impl_def identity_parse_def identity_event_def prepare_bytes_def is_commit_literal_def COMMIT_LITERAL_def bytes_of_chars_def
  METADATA_FIELD_NAME_def commit_monitor_def monitor_commit_def connector_monitor_new_def connector_logger_new_def monitor_increment_def
  monitor_finish_def snapshot_event_def advance_offset_def offset_antichain_new_def run_bind_def run_return_def unwrap_or_else_log_def







text \<open>A message that commits does so inside a source as well: the row before it and the row behind it have
  different times, although the source is not finished.\<close>

lemma commit_message_splits_source:
  "\<exists>cf channel st. connector_run (example_surroundings\<lparr>en_ms := \<lambda>i. 1000 * i\<rparr>) native_adaptor (identity_impl example_externals) Persisting
      (\<lambda>_. False) [(0, [RewindFinishSentinel [], Realtime (NewSource None),
         Realtime (Data (RawBytes DataInsert [1]) (OffsetKeyEmpty, FilePosition 1 ''f'' 0)),
         Realtime (Data (RawBytes DataInsert (bytes_of_chars COMMIT_LITERAL)) (OffsetKeyEmpty, FilePosition 2 ''f'' 1)),
         Realtime (Data (RawBytes DataInsert [2]) (OffsetKeyEmpty, FilePosition 3 ''f'' 2))], False)]
      None False (ErrorLogger 1 True) False 0 example_identity session_new = Ok (cf, channel, st)
    \<and> \<not> cs_commit_allowed st \<and> map snd (native_log (cs_session st)) = [0, 3000]"
  by (simp add: run_defs part_defs example_identity_def example_surroundings_def Let_def native_log_def session_log_def identity_new_source_def)

text \<open>A replayed time advances the session but not the time of the connector, so a clock behind it makes the
  advancement at the sentinel panic, while a clock that goes back during a run is tolerated.\<close>

lemma clock_behind_replay_panics:
  "connector_run example_surroundings native_adaptor (identity_impl example_externals) SpeedrunReplay (\<lambda>_. False)
      [(0, [Snapshot (EvAdvanceTime 2000 []), RewindFinishSentinel []], False), (1, [], False)]
      None False (ErrorLogger 1 True) True 0 example_identity session_new = Panic"
  by (simp add: run_defs part_defs replay_time_def example_identity_def example_surroundings_def Let_def)

end
