(* ===== verification/Spec2Isabelle.thy ===== *)
theory Spec2Isabelle
  imports Frontiers Config ValueLaws Evaluator Reducers Antichains Recovery ConnectorRuns
begin

text \<open>
  A verification development for the Rust engine of Pathway 0.13.0, the crate under src/pathway-0.13.0/src, and for the
  parts of the vendored timely and differential dataflow that it relies on, under src/pathway-0.13.0/external.

  \<^bold>\<open>The program.\<close> A worker of the engine reads rows from sources and maintains tables computed from them. A connector
  (connectors/mod.rs) owns an input thread and a poller. The thread replays the snapshot of the former runs, sends a
  sentinel, and then sends what a reader gives. The poller parses messages (connectors/data\_format.rs), gives rows
  their keys (engine/value.rs), pushes them into an input session (connectors/adaptors.rs), advances the time of the
  session, and records rows and times in a snapshot (connectors/snapshot.rs). Expressions over the columns of a row are
  evaluated by engine/expression.rs, groups are reduced by engine/reduce.rs, errors go to the error log of
  engine/dataflow.rs. Updates are consolidated, and the progress of times is tracked, by differential and timely
  dataflow. The sinks report the times they have written to the coordinator (persistence/tracker.rs), which flushes
  the snapshots and saves the finalized time in a metadata store (persistence/state.rs). A restart takes from there
  the threshold up to which the snapshots are replayed.

  \<^bold>\<open>Conventions.\<close> A call returns a \<open>result\<close> (theory \<open>Prelude\<close>): \<open>Ok\<close>, \<open>Err\<close>, or \<open>Panic\<close> for a panic, a failed
  assertion or an \<open>unwrap\<close> of nothing. Mutable objects are records that are passed and returned. Integers of the
  source are words of their width, and their wrap-around or overflow panic is written out where it matters. A string
  is the list of its UTF-8 bytes. Hash maps are association lists. A trait object is a record of its operations, and
  a generic parameter with a trait is a parameter of the definitions. Readings of a clock, and the order in which
  threads run, are arguments, so that the theorems hold for all of them. Crates outside the repository are parameters:
  the record \<open>externals\<close> (hashes, floats, chrono, serde\_json, ndarray), \<open>bincode\<close>, the bucket of the S3 crate and the
  JSON text of the metadata. What the code relies on is a locale or a named predicate on the parameter, and each of them
  has an instance.

  \<^bold>\<open>Theories.\<close>
  \<^item> \<open>Prelude\<close>, \<open>Float64\<close>, \<open>Externals\<close>: results, words, strings and comparison functions; the primitive float type;
    the parameters.
  \<^item> \<open>Values\<close>, \<open>ValueLaws\<close>: engine/value.rs, engine/error.rs, engine/dataflow/shard.rs. \<open>Value\<close> with its derived order
    and equality, types and conversions, the bytes that are hashed for a key. The order is total; equal rows have
    equal keys; unequal rows have equal keys only if the digest collides; rows of one instance share a shard;
    conversions are typed.
  \<^item> \<open>Times\<close>: engine/time.rs. Calendar conversions are exact, division and remainder of durations recombine, what a
    duration prints adds up to it.
  \<^item> \<open>Frontiers\<close>: engine/timestamp.rs, engine/frontier.rs and the times of
    engine/dataflow/operators/time\_column.rs, with the locales of orders, lattices and path summaries.
  \<^item> \<open>Config\<close>: engine/dataflow/config.rs and env.rs. What \<open>from_env\<close> returns is within its bounds.
  \<^item> \<open>Expressions\<close>, \<open>Evaluator\<close>: engine/expression.rs and mat\_mul.rs, every expression and its evaluation. The packed
    form of an argument list evaluates as the list, errors of columns surface, tuples compare consistently.
  \<^item> \<open>Orders\<close>, \<open>Consolidation\<close>: sorting by an \<open>Ord\<close>, and the in-place consolidation of differential dataflow, which
    computes the normal form of a list of updates; the locale of differences.
  \<^item> \<open>Sessions\<close>, \<open>ErrorLog\<close>: connectors/adaptors.rs over the input handle of timely dataflow; the error log and
    engine/report\_error.rs. The locale \<open>input_adaptor\<close> is what a client may rely on; plain and upsert sessions
    implement it.
  \<^item> \<open>Reducers\<close>: engine/reduce.rs, the reducers of engine/dataflow.rs and operators/stateful\_reduce.rs. A result
    depends on the net multiplicities only; sums, extremes and sorted tuples are what they are meant to be.
  \<^item> \<open>Antichains\<close>: change batches, antichains and mutable antichains of timely dataflow. The incremental
    frontier is the set of minimal times with positive count, and the changes reported are the exact difference.
  \<^item> \<open>Snapshots\<close>, \<open>S3Snapshots\<close>, \<open>Replay\<close>: connectors/snapshot.rs, connectors/offset.rs, persistence/frontier.rs and
    the replay of connectors/mod.rs and persistence/config.rs. Writers lose nothing that was flushed, the uploader
    thread of S3 included; a reader gives the events before the threshold and truncates there; so does a reader
    after a crash.
  \<^item> \<open>Metadata\<close>, \<open>Recovery\<close>: persistence/metadata\_backends, persistence/state.rs and persistence/tracker.rs. Two saved
    states alternate, so that from the second commit of a run on a crash in a save loses at most that save, while a
    crash in the first save of a run can lose what the former runs committed; the time of a commit is found again, is
    never after the time of a sink, and reaches the end of a finished run.
  \<^item> \<open>Formats\<close>, \<open>FormatLaws\<close>, \<open>RoundTrips\<close>: connectors/data\_format.rs with all parsers and formatters. The locale
    \<open>event_parser\<close> says that parsers give rows of their width and session, and each parser implements it; what the
    formatters write is read back.
  \<^item> \<open>Monitoring\<close>: connectors/monitoring.rs. The counts of a connector are those of its commits.
  \<^item> \<open>Connectors\<close>, \<open>ConnectorLaws\<close>, \<open>ConnectorRecords\<close>, \<open>ConnectorRuns\<close>: connectors/mod.rs. \<open>poll\<close> is one call of the
    poller, \<open>input_thread\<close> what the thread sends, \<open>connector_run\<close> a run over turns of poller and thread. The locale
    \<open>connector_parts\<close> joins a session and a parser of one kind, and has an interpretation for every such pair. A run
    on messages that do not make the parser panic does not panic, ends when the thread is gone, records exactly what it pushes, keeps the rows of a source at one
    time, and after a crash pushes again exactly the rows before the threshold. The last of these rests on the
    theorems about sessions, parsers, writers and readers.

  \<^bold>\<open>Bounds and fuel.\<close> Loops over lists are structural recursion, other loops are proved to terminate. \<open>trim_loop\<close> has
    the length of the text as its fuel, and every round removes a character. The loops that read a snapshot are partial
    functions with \<open>None\<close> for not returning, and are proved to return. Connector theorems assume clocks below \<open>2 ^ 63\<close>
    milliseconds, since the recorded end is two after the last time.

  \<^bold>\<open>Not modelled.\<close>
  \<^item> Readers and writers of connectors/data\_storage.rs: calls of client libraries for files, Kafka, databases and
    object stores. A reader is the sequence of its results.
  \<^item> The construction of dataflows in engine/dataflow.rs, engine/graph.rs and engine/dataflow/operators: calls of
    differential dataflow on collections. The operators of prev\_next.rs, time\_column.rs, gradual\_broadcast.rs and
    external\_index.rs work on traces and cursors of arrangements, which are not modelled.
  \<^item> The rest of timely and differential dataflow: communication, scheduling, reachability, traces.
  \<^item> python\_api.rs and the Python package, the http server, telemetry, progress reporter and licenses, the external
    indices: bindings, I/O and calls of other libraries.
  \<^item> Failing writes of the local snapshot writer during a run: the code logs them and goes on, and the record then
    lacks the event.
  \<^item> Memory and time: the moment at which a batch of a session is full is an argument, nothing else depends on it.
\<close>

end
